(* ===== verification/Prelude.thy ===== *)
theory Prelude
  imports Main "HOL-Library.Word"
begin

text \<open>
  Shared vocabulary of the development.

  \<^item> \<open>fault\<close>: the ways a call of the C++ program does not return normally. A failed
    \<open>assert\<close> is \<open>Abort\<close> (the build type is Debug, so asserts are live); an operation the
    language leaves undefined (access outside an object, null or uninitialised reads, signed
    overflow, \<open>front\<close> of an empty queue) is \<open>Undefined\<close>; \<open>exit(EXIT_FAILURE)\<close> is
    \<open>Exit_failure\<close>; an exception is \<open>Throw\<close>.
  \<^item> \<open>'a res\<close>: a fault or a value, sequenced with \<open>bindE\<close>.
  \<^item> memory: an object of \<open>n\<close> bytes is a list of \<open>n\<close> cells; a cell is \<open>None\<close> while its
    content is indeterminate (fresh from \<open>malloc\<close>), so reading it is a fault.
  \<^item> integers: \<open>int\<close> with the width checked (\<open>i32\<close>, \<open>i64\<close>: signed overflow is undefined)
    or wrapped (\<open>narrow32\<close>, \<open>usize\<close>: conversions of C++20).
\<close>

section \<open>Faults and results\<close>

datatype exn =
    Invalid_argument string
  | Bad_variant_access
  | Out_of_range
  | Length_error
  | Bad_alloc

datatype fault = Abort | Undefined | Exit_failure | Throw exn

type_synonym 'a res = "fault + 'a"

named_theorems res_simps \<open>rewriting of results\<close>
named_theorems mem_simps \<open>reads and writes of memory slices\<close>
named_theorems int_simps \<open>checked and converted integers\<close>

definition bindE :: "'a res \<Rightarrow> ('a \<Rightarrow> 'b res) \<Rightarrow> 'b res" where
  "bindE r f = (case r of Inl e \<Rightarrow> Inl e | Inr x \<Rightarrow> f x)"

definition assertE :: "bool \<Rightarrow> unit res" where
  "assertE b = (if b then Inr () else Inl Abort)"

definition ensure :: "bool \<Rightarrow> unit res" where
  "ensure b = (if b then Inr () else Inl Undefined)"

lemma bindE_Inr [simp, res_simps]: "bindE (Inr x) f = f x"
  by (simp add: bindE_def)

lemma bindE_Inl [simp, res_simps]: "bindE (Inl e) f = Inl e"
  by (simp add: bindE_def)

lemma bindE_eq_Inr [simp, res_simps]: "bindE r f = Inr y \<longleftrightarrow> (\<exists>x. r = Inr x \<and> f x = Inr y)"
  by (cases r) auto

lemma bindE_eq_Inl:
  "bindE r f = Inl e \<longleftrightarrow> r = Inl e \<or> (\<exists>x. r = Inr x \<and> f x = Inl e)"
  by (cases r) auto

lemma bindE_assoc: "bindE (bindE r f) g = bindE r (\<lambda>x. bindE (f x) g)"
  by (cases r) auto

lemma bindE_cong [fundef_cong]:
  "r = r' \<Longrightarrow> (\<And>x. r' = Inr x \<Longrightarrow> f x = g x) \<Longrightarrow> bindE r f = bindE r' g"
  by (cases r') auto

lemma assertE_True [simp, res_simps]: "b \<Longrightarrow> assertE b = Inr ()"
  by (simp add: assertE_def)

lemma assertE_False [res_simps]: "\<not> b \<Longrightarrow> assertE b = Inl Abort"
  by (simp add: assertE_def)

lemma assertE_eq [simp, res_simps]: "assertE b = Inr u \<longleftrightarrow> b"
  by (simp add: assertE_def)

lemma ensure_True [simp, res_simps]: "b \<Longrightarrow> ensure b = Inr ()"
  by (simp add: ensure_def)

lemma ensure_False [res_simps]: "\<not> b \<Longrightarrow> ensure b = Inl Undefined"
  by (simp add: ensure_def)

lemma ensure_eq [simp, res_simps]: "ensure b = Inr u \<longleftrightarrow> b"
  by (simp add: ensure_def)

lemma bind_assertE: "bindE (assertE b) f = (if b then f () else Inl Abort)"
  by (simp add: assertE_def)

lemma bind_ensure: "bindE (ensure b) f = (if b then f () else Inl Undefined)"
  by (simp add: ensure_def)

section \<open>Integers of the program\<close>

type_synonym byte = "8 word"

abbreviation int_max :: int where "int_max \<equiv> 2147483647"

abbreviation llong_max :: int where "llong_max \<equiv> 9223372036854775807"

text \<open>The bytes a process can address; \<open>malloc\<close> and \<open>new\<close> serve no block of that size.\<close>

abbreviation address_space :: int where "address_space \<equiv> 140737488355328"

text \<open>The result of an \<open>int\<close> (\<open>long long\<close>) operation, undefined when it overflows.\<close>

definition i32 :: "int \<Rightarrow> int res" where
  "i32 x = (if - int_max - 1 \<le> x \<and> x \<le> int_max then Inr x else Inl Undefined)"

definition i64 :: "int \<Rightarrow> int res" where
  "i64 x = (if - llong_max - 1 \<le> x \<and> x \<le> llong_max then Inr x else Inl Undefined)"

text \<open>Conversion of a wider value to \<open>int\<close>, and of an \<open>int\<close> to \<open>size_t\<close>.\<close>

definition narrow32 :: "int \<Rightarrow> int" where
  "narrow32 x = sint (word_of_int x :: 32 word)"

definition usize :: "int \<Rightarrow> int" where
  "usize x = x mod 2 ^ 64"

lemma i32_eq [simp, int_simps]: "i32 x = Inr y \<longleftrightarrow> y = x \<and> - int_max - 1 \<le> x \<and> x \<le> int_max"
  by (auto simp: i32_def)

lemma i64_eq [simp, int_simps]: "i64 x = Inr y \<longleftrightarrow> y = x \<and> - llong_max - 1 \<le> x \<and> x \<le> llong_max"
  by (auto simp: i64_def)

lemma usize_id [int_simps]: "0 \<le> x \<Longrightarrow> x \<le> llong_max \<Longrightarrow> usize x = x"
  by (simp add: usize_def)

lemma narrow32_id [int_simps]:
  assumes "- int_max - 1 \<le> x" "x \<le> int_max"
  shows "narrow32 x = x"
  using assms by (simp add: narrow32_def sint_sbintrunc' signed_take_bit_int_eq_self)

lemma narrow32_range: "- int_max - 1 \<le> narrow32 x" "narrow32 x \<le> int_max"
proof -
  show "- int_max - 1 \<le> narrow32 x"
    using sint_ge [of "word_of_int x :: 32 word"] by (simp add: narrow32_def)
  show "narrow32 x \<le> int_max"
    using sint_lt [of "word_of_int x :: 32 word"] by (simp add: narrow32_def)
qed

section \<open>Memory slices\<close>

type_synonym cell = "byte option"

text \<open>
  \<open>mem_get m off n\<close> reads and \<open>mem_put m off xs\<close> overwrites the \<open>n\<close> elements at offset
  \<open>off\<close> of an object; both are undefined outside the object.
\<close>

definition mem_get :: "'a list \<Rightarrow> int \<Rightarrow> int \<Rightarrow> 'a list res" where
  "mem_get m off n =
     (if 0 \<le> off \<and> 0 \<le> n \<and> off + n \<le> int (length m)
      then Inr (take (nat n) (drop (nat off) m)) else Inl Undefined)"

definition mem_put :: "'a list \<Rightarrow> int \<Rightarrow> 'a list \<Rightarrow> 'a list res" where
  "mem_put m off xs =
     (if 0 \<le> off \<and> off + int (length xs) \<le> int (length m)
      then Inr (take (nat off) m @ xs @ drop (nat off + length xs) m) else Inl Undefined)"

text \<open>Reading the values of cells: undefined when one of them is indeterminate.\<close>

definition init_bytes :: "cell list \<Rightarrow> byte list res" where
  "init_bytes cs = (if None \<in> set cs then Inl Undefined else Inr (map the cs))"

definition read_bytes :: "cell list \<Rightarrow> int \<Rightarrow> int \<Rightarrow> byte list res" where
  "read_bytes m off n = bindE (mem_get m off n) init_bytes"

lemma init_bytes_map_Some [simp, mem_simps]: "init_bytes (map Some bs) = Inr bs"
  by (auto simp: init_bytes_def comp_def)

lemma init_bytes_eq: "init_bytes cs = Inr bs \<longleftrightarrow> cs = map Some bs"
proof
  assume "init_bytes cs = Inr bs"
  then have "None \<notin> set cs" "bs = map the cs"
    by (auto simp: init_bytes_def split: if_splits)
  then show "cs = map Some bs"
    by (metis (mono_tags, lifting) list.map_comp map_idI comp_apply option.collapse)
qed simp

lemma mem_get_eq [mem_simps]:
  "mem_get m off n = Inr xs \<longleftrightarrow>
     0 \<le> off \<and> 0 \<le> n \<and> off + n \<le> int (length m) \<and> xs = take (nat n) (drop (nat off) m)"
  by (auto simp: mem_get_def)

lemma mem_put_eq [mem_simps]:
  "mem_put m off xs = Inr m' \<longleftrightarrow>
     0 \<le> off \<and> off + int (length xs) \<le> int (length m) \<and>
     m' = take (nat off) m @ xs @ drop (nat off + length xs) m"
  by (auto simp: mem_put_def)

lemma length_mem_get: "mem_get m off n = Inr xs \<Longrightarrow> length xs = nat n"
  by (auto simp: mem_get_eq)

lemma length_mem_put: "mem_put m off xs = Inr m' \<Longrightarrow> length m' = length m"
  by (auto simp: mem_put_eq)

lemma mem_get_put_same:
  assumes "mem_put m off xs = Inr m'"
  shows "mem_get m' off (int (length xs)) = Inr xs"
proof -
  from assms have "0 \<le> off" "off + int (length xs) \<le> int (length m)"
    and m': "m' = take (nat off) m @ xs @ drop (nat off + length xs) m"
    by (auto simp: mem_put_eq)
  then have "length (take (nat off) m) = nat off" by simp
  then show ?thesis
    using \<open>0 \<le> off\<close> \<open>off + int (length xs) \<le> int (length m)\<close> m'
    by (auto simp: mem_get_eq)
qed

lemma mem_put_outside:
  assumes "mem_put m off xs = Inr m'"
    and "i < nat off \<or> nat off + length xs \<le> i"
  shows "m' ! i = m ! i"
proof -
  from assms(1) have off: "0 \<le> off" "nat off + length xs \<le> length m"
    and m': "m' = take (nat off) m @ xs @ drop (nat off + length xs) m"
    by (auto simp: mem_put_eq)
  show ?thesis
  proof (cases "i < nat off")
    case True
    with off m' show ?thesis by (simp add: nth_append)
  next
    case False
    with assms(2) have ge: "nat off + length xs \<le> i" by simp
    then obtain k where "i = nat off + length xs + k" by (auto simp: le_iff_add)
    with off m' show ?thesis
      by (simp add: nth_append)
  qed
qed

lemma read_bytes_eq:
  "read_bytes m off n = Inr bs \<longleftrightarrow>
     0 \<le> off \<and> 0 \<le> n \<and> off + n \<le> int (length m) \<and>
     take (nat n) (drop (nat off) m) = map Some bs"
  by (auto simp: read_bytes_def mem_get_eq init_bytes_eq)

section \<open>Lists\<close>

lemma take_map_Some_prefix:
  "take n m = map Some bs \<Longrightarrow> k \<le> n \<Longrightarrow> take k m = map Some (take k bs)"
  by (metis min.absorb1 take_map take_take)

lemma drop_take_map_Some:
  "take n m = map Some bs \<Longrightarrow> take (n - k) (drop k m) = map Some (drop k bs)"
  by (metis drop_map drop_take)

lemma prefix_read:
  assumes "take n cs = map Some bs" "n \<le> length cs" "k + l \<le> n"
  shows "read_bytes cs (int k) (int l) = Inr (take l (drop k bs))"
proof -
  have "take (k + l) cs = map Some (take (k + l) bs)"
    using take_map_Some_prefix [OF assms(1), of "k + l"] assms(3) by simp
  then have "take l (drop k cs) = map Some (take l (drop k bs))"
    using drop_take_map_Some [of "k + l" cs "take (k + l) bs" k] by (simp add: drop_take)
  with assms show ?thesis by (simp add: read_bytes_eq)
qed

end
