(* ===== verification/Serial.thy ===== *)
theory Serial
  imports Prelude
begin

unbundle bit_operations_syntax

text \<open>
  \<open>src/serial.cpp\<close>: the big-endian integer codec of every wire message. An \<open>int\<close> argument is
  an \<open>int\<close> value of the model; its bit pattern is a \<open>32 word\<close>. \<open>ip_version\<close> only calls
  \<open>inet_pton\<close>, which is a parameter.
\<close>

section \<open>Operations\<close>

text \<open>The object representation of \<open>int num = 1\<close> on the (little-endian) build platform.\<close>

definition is_little_endian :: bool where
  "is_little_endian = ((ucast (1 :: 32 word) :: byte) = 1)"

text \<open>
  \<open>serialize_int begin end value\<close>: \<open>arr\<close> is the array at \<open>begin\<close>, \<open>diff = end - begin\<close>.
  The array is written in place; a range of fewer than four bytes leaves it as it is.
\<close>

definition serialize_int :: "byte list \<Rightarrow> int \<Rightarrow> int \<Rightarrow> byte list res" where
  "serialize_int arr diff value =
     (if diff + 1 < 4 then Inr arr
      else
        let v = (word_of_int value :: 32 word) in
        mem_put arr 0
          [ucast (drop_bit 24 v AND 255), ucast (drop_bit 16 v AND 255),
           ucast (drop_bit 8 v AND 255), ucast (v AND 255)])"

text \<open>
  \<open>deserialize_int begin end\<close>: \<open>src\<close> are the cells from \<open>begin\<close> on, \<open>diff = end - begin\<close>.
  The condition \<open>if(is_little_endian)\<close> of the source names the function without calling it,
  which is true on every platform: the first branch is the only one.
\<close>

definition be_word :: "byte list \<Rightarrow> 32 word" where
  "be_word b =
     push_bit 24 (ucast (b ! 0)) OR push_bit 16 (ucast (b ! 1)) OR
     push_bit 8 (ucast (b ! 2)) OR ucast (b ! 3)"

definition deserialize_int :: "cell list \<Rightarrow> int \<Rightarrow> int res" where
  "deserialize_int src diff =
     (if diff < 4 then Inr (-1)
      else bindE (read_bytes src 0 4) (\<lambda>b. Inr (sint (be_word b))))"

text \<open>\<open>ip_version\<close>, with \<open>inet_pton\<close> for the two address families as parameters.\<close>

definition ip_version :: "(string \<Rightarrow> bool) \<Rightarrow> (string \<Rightarrow> bool) \<Rightarrow> string \<Rightarrow> int" where
  "ip_version pton4 pton6 src = (if pton4 src then 4 else if pton6 src then 6 else -1)"

section \<open>Lemmas\<close>

definition be_bytes :: "int \<Rightarrow> byte list" where
  "be_bytes value =
     (let v = (word_of_int value :: 32 word) in
      [ucast (drop_bit 24 v AND 255), ucast (drop_bit 16 v AND 255),
       ucast (drop_bit 8 v AND 255), ucast (v AND 255)])"

lemma length_be_bytes [simp]: "length (be_bytes v) = 4"
  by (simp add: be_bytes_def Let_def)

lemma serialize_int_full:
  "length arr = 4 \<Longrightarrow> serialize_int arr 3 v = Inr (be_bytes v)"
  by (simp add: serialize_int_def be_bytes_def mem_put_def Let_def)

lemma bit_255_iff: "bit (255 :: 32 word) n \<longleftrightarrow> n < 8"
  using bit_mask_iff [where 'a = "32 word", of 8 n]
  by (auto simp: mask_eq_exp_minus_1)

lemma bit_255_byte_iff: "bit (255 :: byte) n \<longleftrightarrow> n < 8"
  using bit_mask_iff [where 'a = byte, of 8 n]
  by (auto simp: mask_eq_exp_minus_1)

lemma bit_255_int_iff: "bit (255 :: int) n \<longleftrightarrow> n < 8"
  using bit_mask_iff [where 'a = int, of 8 n]
  by (auto simp: mask_eq_exp_minus_1)

lemma be_word_be_bytes: "be_word (be_bytes v) = word_of_int v"
proof (rule bit_word_eqI)
  fix n
  assume n: "n < LENGTH(32)"
  let ?w = "word_of_int v :: 32 word"
  show "bit (be_word (be_bytes v)) n = bit ?w n"
  proof -
    consider "n < 8" | "8 \<le> n \<and> n < 16" | "16 \<le> n \<and> n < 24" | "24 \<le> n \<and> n < 32"
      using n by fastforce
    then show ?thesis
      by cases
        (auto simp: be_word_def be_bytes_def Let_def bit_or_iff bit_push_bit_iff bit_and_iff
          bit_drop_bit_eq bit_ucast_iff bit_255_iff bit_255_byte_iff
          bit_255_int_iff)
  qed
qed

lemma sint_word_of_int_id: "- int_max - 1 \<le> v \<Longrightarrow> v \<le> int_max \<Longrightarrow> sint (word_of_int v :: 32 word) = v"
  using narrow32_id by (simp add: narrow32_def)

lemma deserialize_prefix:
  assumes "4 \<le> n" "4 \<le> length m" "take 4 m = map Some b"
  shows "deserialize_int m n = Inr (sint (be_word b))"
proof -
  have "read_bytes m 0 4 = Inr b"
    using assms by (simp add: read_bytes_eq)
  with assms(1) show ?thesis by (simp add: deserialize_int_def)
qed

lemma deserialize_be_bytes:
  assumes "- int_max - 1 \<le> v" "v \<le> int_max" "4 \<le> n" "take 4 m = map Some (be_bytes v)"
  shows "deserialize_int m n = Inr v"
proof -
  from assms(4) have "length (take 4 m) = 4" by simp
  then have "4 \<le> length m" by (simp split: if_splits)
  with assms show ?thesis
    by (simp add: deserialize_prefix be_word_be_bytes sint_word_of_int_id)
qed

lemma deserialize_range:
  "deserialize_int m n = Inr v \<Longrightarrow> - int_max - 1 \<le> v \<and> v \<le> int_max"
proof (cases "n < 4")
  case False
  moreover assume "deserialize_int m n = Inr v"
  ultimately obtain b where "v = sint (be_word b)"
    by (auto simp: deserialize_int_def)
  then show ?thesis
    using sint_ge [of "be_word b"] sint_lt [of "be_word b"] by simp
qed (simp add: deserialize_int_def)

section \<open>The codec interface\<close>

text \<open>
  What the message builders and the framing code rely on: an encoder of fixed width whose
  image decodes to the value, with any memory after it.
\<close>

locale int_codec =
  fixes enc :: "int \<Rightarrow> byte list"
    and dec :: "cell list \<Rightarrow> int \<Rightarrow> int res"
    and width :: nat
    and valid :: "int \<Rightarrow> bool"
  assumes enc_width: "length (enc v) = width"
    and dec_enc: "valid v \<Longrightarrow> int width \<le> n \<Longrightarrow> take width m = map Some (enc v) \<Longrightarrow> dec m n = Inr v"
begin

lemma dec_at:
  assumes "valid v" "int width \<le> n"
  shows "dec (map Some (enc v @ rest)) n = Inr v"
  using assms by (intro dec_enc) (auto simp: enc_width)

lemma dec_skip:
  assumes "valid v" "int width \<le> n" "length pre = k"
  shows "dec (drop k (map Some (pre @ enc v @ rest))) n = Inr v"
  using assms by (intro dec_enc) (auto simp: enc_width)

lemma enc_inject: "valid v \<Longrightarrow> valid w \<Longrightarrow> enc v = enc w \<Longrightarrow> v = w"
  using dec_at [of v "int width" "[]"] dec_at [of w "int width" "[]"] by simp

end

interpretation be32: int_codec be_bytes deserialize_int 4 "\<lambda>v. - int_max - 1 \<le> v \<and> v \<le> int_max"
proof unfold_locales
  fix v n and m :: "cell list"
  assume "- int_max - 1 \<le> v \<and> v \<le> int_max" "int 4 \<le> n" "take 4 m = map Some (be_bytes v)"
  then show "deserialize_int m n = Inr v"
    by (intro deserialize_be_bytes) auto
qed simp

section \<open>Properties\<close>

text \<open>C34: an \<open>int\<close> written by \<open>serialize_int\<close> into a four-byte field is read back by
  \<open>deserialize_int\<close> as the same value, whatever bytes follow the field.\<close>

theorem serialize_roundtrip:
  assumes "length arr = 4" "- int_max - 1 \<le> v" "v \<le> int_max"
  shows "\<exists>bs. serialize_int arr 3 v = Inr bs \<and> length bs = 4 \<and>
           deserialize_int (map Some (bs @ rest)) 4 = Inr v"
  using assms serialize_int_full be32.dec_at [of v 4 rest] by simp

theorem serialize_roundtrip_witness:
  "\<exists>bs. serialize_int [0, 0, 0, 0] 3 (-2) = Inr bs \<and> length bs = 4 \<and>
     deserialize_int (map Some (bs @ [7])) 4 = Inr (-2)"
  by (rule serialize_roundtrip) simp_all

end
