(* ===== verification/Buffer.thy ===== *)
theory Buffer
  imports Prelude
begin

text \<open>
  \<open>src/buffer.cpp\<close>: the owning byte array under the receive buffer. \<open>m_begin\<close> is \<open>None\<close> for
  a null pointer and the cells of the allocation otherwise; \<open>malloc\<close> succeeds (out of memory
  is not modelled) and returns indeterminate cells. A method that changes two objects (the
  moves) returns both.
\<close>

section \<open>State and operations\<close>

record buffer =
  m_begin :: "cell list option"
  m_size :: int

definition buffer_default :: buffer where
  "buffer_default = \<lparr>m_begin = None, m_size = 0\<rparr>"

text \<open>
  \<open>buffer(size)\<close>: for size 0 the constructor returns without writing either member, and
  every later use of the object (its destructor too) reads them: undefined.
\<close>

definition buffer_sized :: "int \<Rightarrow> buffer res" where
  "buffer_sized sz =
     bindE (assertE (sz < int_max)) (\<lambda>_.
     if sz = 0 then Inl Undefined
     else Inr \<lparr>m_begin = Some (replicate (nat sz) (Some 0)), m_size = sz\<rparr>)"

definition buffer_from :: "int \<Rightarrow> cell list option \<Rightarrow> int \<Rightarrow> buffer res" where
  "buffer_from sz src src_size =
     bindE (assertE (src_size \<le> sz)) (\<lambda>_.
     let m = replicate (nat sz) None in
     case src of
       None \<Rightarrow> Inr \<lparr>m_begin = Some m, m_size = sz\<rparr>
     | Some s \<Rightarrow>
         bindE (mem_get s 0 (min src_size sz)) (\<lambda>cs.
         bindE (mem_put m 0 cs) (\<lambda>m'.
         Inr \<lparr>m_begin = Some m', m_size = sz\<rparr>)))"

definition buffer_move :: "buffer \<Rightarrow> buffer \<times> buffer" where
  "buffer_move other = (other, \<lparr>m_begin = None, m_size = 0\<rparr>)"

text \<open>\<open>same\<close> is the test \<open>&other == this\<close>.\<close>

definition buffer_move_assign :: "bool \<Rightarrow> buffer \<Rightarrow> buffer \<Rightarrow> buffer \<times> buffer" where
  "buffer_move_assign same this other =
     (if same then (this, this)
      else (this\<lparr>m_begin := m_begin other, m_size := m_size other\<rparr>,
            other\<lparr>m_begin := None, m_size := 0\<rparr>))"

definition buffer_copy_assign :: "buffer \<Rightarrow> buffer \<Rightarrow> buffer res" where
  "buffer_copy_assign this other =
     (case m_begin other of
        Some s \<Rightarrow>
          if m_size other > 0
          then bindE (mem_get s 0 (m_size other)) (\<lambda>cs.
               Inr (this\<lparr>m_begin := Some cs, m_size := m_size other\<rparr>))
          else Inr (this\<lparr>m_begin := None, m_size := 0\<rparr>)
      | None \<Rightarrow> Inr (this\<lparr>m_begin := None, m_size := 0\<rparr>))"

definition buffer_data :: "buffer \<Rightarrow> cell list option" where
  "buffer_data b = m_begin b"

definition buffer_size :: "buffer \<Rightarrow> int" where
  "buffer_size b = m_size b"

definition buffer_empty :: "buffer \<Rightarrow> bool" where
  "buffer_empty b = (m_size b = 0)"

text \<open>\<open>operator[]\<close>: the bound \<open>m_size - 1\<close> is computed in \<open>size_t\<close>.\<close>

definition buffer_at :: "buffer \<Rightarrow> int \<Rightarrow> byte res" where
  "buffer_at b index =
     bindE (assertE (index \<le> usize (m_size b - 1))) (\<lambda>_.
     case m_begin b of
       None \<Rightarrow> Inl Undefined
     | Some m \<Rightarrow> bindE (read_bytes m index 1) (\<lambda>bs. Inr (hd bs)))"

definition buffer_set :: "buffer \<Rightarrow> int \<Rightarrow> byte \<Rightarrow> buffer res" where
  "buffer_set b index x =
     bindE (assertE (index \<le> usize (m_size b - 1))) (\<lambda>_.
     case m_begin b of
       None \<Rightarrow> Inl Undefined
     | Some m \<Rightarrow> bindE (mem_put m index [Some x]) (\<lambda>m'. Inr (b\<lparr>m_begin := Some m'\<rparr>)))"

section \<open>Invariant\<close>

definition buffer_ok :: "buffer \<Rightarrow> bool" where
  "buffer_ok b =
     (0 \<le> m_size b \<and> m_size b \<le> int_max \<and>
      (case m_begin b of None \<Rightarrow> m_size b = 0 | Some m \<Rightarrow> int (length m) = m_size b))"

definition buffer_cells :: "buffer \<Rightarrow> cell list" where
  "buffer_cells b = (case m_begin b of None \<Rightarrow> [] | Some m \<Rightarrow> m)"

lemma length_buffer_cells: "buffer_ok b \<Longrightarrow> int (length (buffer_cells b)) = m_size b"
  by (auto simp: buffer_ok_def buffer_cells_def split: option.splits)

lemma buffer_ok_default [simp]: "buffer_ok buffer_default"
  by (simp add: buffer_ok_def buffer_default_def)

lemma buffer_ok_sized: "0 \<le> sz \<Longrightarrow> buffer_sized sz = Inr b \<Longrightarrow> buffer_ok b"
  by (auto simp: buffer_sized_def buffer_ok_def split: if_splits)

lemma buffer_from_total:
  assumes "0 \<le> n" "n \<le> sz" "sz \<le> int_max" "n \<le> int (length s)"
  shows "buffer_from sz (Some s) n =
    Inr \<lparr>m_begin = Some (take (nat n) s @ replicate (nat sz - nat n) None), m_size = sz\<rparr>"
proof -
  from assms have "nat n \<le> length s" "nat n \<le> nat sz" by auto
  with assms show ?thesis
    by (simp add: buffer_from_def mem_get_def mem_put_def min_def Let_def)
qed

lemma buffer_from_null:
  assumes "n \<le> sz"
  shows "buffer_from sz None n = Inr \<lparr>m_begin = Some (replicate (nat sz) None), m_size = sz\<rparr>"
  using assms by (simp add: buffer_from_def Let_def)

lemma buffer_ok_from:
  assumes "0 \<le> sz" "sz \<le> int_max" "buffer_from sz src n = Inr b"
  shows "buffer_ok b"
proof (cases src)
  case None
  with assms show ?thesis by (auto simp: buffer_from_def buffer_ok_def Let_def)
next
  case (Some s)
  with assms(3) obtain cs m' where
    "mem_put (replicate (nat sz) None) 0 cs = Inr m'" "b = \<lparr>m_begin = Some m', m_size = sz\<rparr>"
    by (auto simp: buffer_from_def Let_def)
  with assms(1,2) show ?thesis by (auto simp: buffer_ok_def dest: length_mem_put)
qed

lemma buffer_ok_move_assign:
  "buffer_ok this \<Longrightarrow> buffer_ok other \<Longrightarrow>
   buffer_ok (fst (buffer_move_assign same this other)) \<and>
   buffer_ok (snd (buffer_move_assign same this other))"
  by (auto simp: buffer_move_assign_def buffer_ok_def split: option.splits)

lemma buffer_copy_total:
  assumes "buffer_ok other"
  shows "\<exists>b. buffer_copy_assign this other = Inr b \<and> buffer_ok b \<and>
           buffer_cells b = buffer_cells other"
proof (cases "m_begin other")
  case None
  then show ?thesis
    by (simp add: buffer_copy_assign_def buffer_ok_def buffer_cells_def)
next
  case (Some s)
  with assms have "int (length s) = m_size other" "m_size other \<le> int_max"
    by (auto simp: buffer_ok_def)
  moreover from this Some have "s = []" if "\<not> 0 < m_size other" using that by (cases s) auto
  ultimately show ?thesis using Some
    by (auto simp: buffer_copy_assign_def buffer_ok_def buffer_cells_def mem_get_def)
qed

section \<open>Properties\<close>

text \<open>on a well-formed non-empty buffer \<open>operator[]\<close> succeeds exactly on the initialised
  cells inside the allocation, a write is read back, and the other cells keep their content.\<close>

theorem buffer_index_set_get:
  assumes "buffer_ok b" "0 \<le> i" "i < m_size b"
  shows "\<exists>b'. buffer_set b i x = Inr b' \<and> buffer_ok b' \<and> buffer_at b' i = Inr x \<and>
           (\<forall>j. 0 \<le> j \<and> j \<noteq> i \<longrightarrow> buffer_at b' j = buffer_at b j)"
proof -
  obtain m where m: "m_begin b = Some m" "int (length m) = m_size b" and sz: "m_size b \<le> int_max"
    using assms by (auto simp: buffer_ok_def split: option.splits)
  have us: "usize (m_size b - 1) = m_size b - 1"
    using assms sz by (intro usize_id) auto
  let ?b' = "b\<lparr>m_begin := Some (m[nat i := Some x])\<rparr>"
  have upd: "mem_put m i [Some x] = Inr (m[nat i := Some x])"
    using assms m by (auto simp: mem_put_def upd_conv_take_nth_drop)
  have set_eq: "buffer_set b i x = Inr ?b'"
    using assms m us upd by (simp add: buffer_set_def)
  have one: "take (Suc 0) (drop (nat j) l) = [l ! nat j]" if "nat j < length l" for j and l :: "cell list"
    using that by (simp add: take_Suc_conv_app_nth)
  have at: "buffer_at ?b' j =
      (if j = i then Inr x else buffer_at b j)" if j: "0 \<le> j" for j
  proof (cases "j < m_size b")
    case True
    with j m have "nat j < length m" by simp
    with True j m us assms show ?thesis
      by (auto simp: buffer_at_def read_bytes_def mem_get_def one init_bytes_def nth_list_update)
  next
    case False
    with us assms show ?thesis by (auto simp: buffer_at_def bind_assertE)
  qed
  show ?thesis
    using set_eq at assms m by (auto simp: buffer_ok_def)
qed

theorem buffer_index_set_get_witness:
  "\<exists>b'. buffer_set \<lparr>m_begin = Some [Some 1, None], m_size = 2\<rparr> 1 7 = Inr b' \<and> buffer_ok b' \<and>
     buffer_at b' 1 = Inr 7 \<and>
     (\<forall>j. 0 \<le> j \<and> j \<noteq> 1 \<longrightarrow>
        buffer_at b' j = buffer_at \<lparr>m_begin = Some [Some 1, None], m_size = 2\<rparr> j)"
  by (rule buffer_index_set_get) (simp_all add: buffer_ok_def)

text \<open>the bound of \<open>operator[]\<close> wraps around on an empty buffer, so its assertion passes
  for every index and the access dereferences a null pointer instead of aborting.\<close>

theorem buffer_index_empty_undefined:
  assumes "0 \<le> i" "i \<le> 18446744073709551615"
  shows "buffer_at buffer_default i = Inl Undefined"
  using assms by (simp add: buffer_at_def buffer_default_def usize_def)

theorem buffer_index_empty_undefined_witness: "buffer_at buffer_default 3 = Inl Undefined"
  by (rule buffer_index_empty_undefined) simp_all

end
