(* ===== verification/Recv_Buffer.thy ===== *)
theory Recv_Buffer
  imports Buffer
begin

text \<open>
  \<open>src/recv_buffer.cpp\<close>, \<open>include/recv_buffer.h\<close>: the buffer the socket is read into and the
  cursor of the protocol message being received. \<open>m_recv_start\<close> and \<open>m_recv_end\<close> are offsets
  into the allocation, \<open>m_recv_pos\<close> is relative to \<open>m_recv_start\<close>. A pointer into the buffer is
  an offset from \<open>m_buff.data()\<close>, or the list of cells it gives access to.

  The abstraction is the byte window \<open>[m_recv_start, m_recv_end)\<close>: \<open>rb_holds rb w\<close> says that
  the object is well formed and that the window is initialised with the bytes \<open>w\<close>. The
  lemmas give each operation as a function of the window (append, drop a message, nothing).
\<close>

section \<open>State\<close>

record recv_buffer =
  m_buff :: buffer
  m_recv_start :: int
  m_recv_end :: int
  m_recv_pos :: int
  m_message_size :: int

definition recv_buffer_default :: recv_buffer where
  "recv_buffer_default =
     \<lparr>m_buff = buffer_default, m_recv_start = 0, m_recv_end = 0, m_recv_pos = 0, m_message_size = 0\<rparr>"

section \<open>Operations\<close>

definition message_bytes_left :: "recv_buffer \<Rightarrow> int res" where
  "message_bytes_left rb = i32 (m_message_size rb - m_recv_pos rb)"

definition max_receive :: "recv_buffer \<Rightarrow> int res" where
  "max_receive rb = i32 (narrow32 (buffer_size (m_buff rb)) - m_recv_end rb)"

definition is_message_finished :: "recv_buffer \<Rightarrow> bool" where
  "is_message_finished rb = (m_recv_pos rb \<ge> m_message_size rb)"

definition pos_at_end :: "recv_buffer \<Rightarrow> bool" where
  "pos_at_end rb = (m_recv_pos rb = m_recv_end rb)"

definition capacity :: "recv_buffer \<Rightarrow> int" where
  "capacity rb = narrow32 (buffer_size (m_buff rb))"

text \<open>\<open>received\<close>: the last assertion compares \<open>m_recv_pos\<close> in \<open>size_t\<close>.\<close>

definition received :: "int \<Rightarrow> recv_buffer \<Rightarrow> recv_buffer res" where
  "received bytes_received rb =
     bindE (assertE (m_message_size rb > 0)) (\<lambda>_.
     bindE (i32 (m_recv_end rb + bytes_received)) (\<lambda>e.
     bindE (assertE (usize (m_recv_pos rb) \<le> buffer_size (m_buff rb))) (\<lambda>_.
     Inr (rb\<lparr>m_recv_end := e\<rparr>))))"

text \<open>\<open>reserve\<close>: returns the offset and size of the reserved chunk and the new object.\<close>

definition reserve :: "int \<Rightarrow> recv_buffer \<Rightarrow> ((int \<times> int) \<times> recv_buffer) res" where
  "reserve n rb =
     bindE (assertE (m_recv_start rb = 0)) (\<lambda>_.
     bindE (assertE (n > 0)) (\<lambda>_.
     bindE (assertE (m_recv_pos rb \<ge> 0)) (\<lambda>_.
     bindE (i32 (m_recv_end rb + n)) (\<lambda>want.
     if usize want > buffer_size (m_buff rb)
     then
       let new_size = max want (m_message_size rb) in
       bindE (buffer_from (usize new_size) (buffer_data (m_buff rb)) (usize (m_recv_end rb)))
         (\<lambda>new_buffer.
       Inr ((m_recv_end rb, n),
            rb\<lparr>m_buff := fst (buffer_move_assign False (m_buff rb) new_buffer)\<rparr>))
     else Inr ((m_recv_end rb, n), rb)))))"

definition grow :: "recv_buffer \<Rightarrow> recv_buffer res" where
  "grow rb =
     (let current_size = narrow32 (buffer_size (m_buff rb)) in
      bindE (if current_size < m_message_size rb then Inr (m_message_size rb)
             else bindE (i32 (current_size * 3)) (\<lambda>t. Inr (t div 2))) (\<lambda>new_size.
      bindE (buffer_from (usize new_size) (buffer_data (m_buff rb)) (usize (m_recv_end rb)))
        (\<lambda>new_buffer.
      Inr (rb\<lparr>m_buff := fst (buffer_move_assign False (m_buff rb) new_buffer)\<rparr>))))"

text \<open>\<open>advance_pos\<close>: the amount advanced and the new object.\<close>

definition advance_pos :: "int \<Rightarrow> recv_buffer \<Rightarrow> (int \<times> recv_buffer) res" where
  "advance_pos bytes rb =
     bindE (if m_message_size rb > m_recv_pos rb
            then i32 (m_message_size rb - m_recv_pos rb)
            else Inr (m_message_size rb)) (\<lambda>limit.
     let advance_amount = min limit bytes in
     bindE (i32 (m_recv_pos rb + advance_amount)) (\<lambda>p.
     Inr (advance_amount, rb\<lparr>m_recv_pos := p\<rparr>)))"

definition cut :: "int \<Rightarrow> int \<Rightarrow> int \<Rightarrow> recv_buffer \<Rightarrow> recv_buffer res" where
  "cut n next_message_size offset rb =
     bindE (assertE (n \<ge> 0)) (\<lambda>_.
     bindE (assertE (buffer_size (m_buff rb) \<ge> usize n)) (\<lambda>_.
     bindE (assertE (buffer_size (m_buff rb) \<ge> usize (m_recv_pos rb))) (\<lambda>_.
     bindE (assertE (next_message_size > 0)) (\<lambda>_.
     bindE (assertE (m_recv_start rb \<le> m_recv_end rb)) (\<lambda>_.
     bindE (assertE (offset \<ge> 0)) (\<lambda>_.
     bindE (i32 (offset + n)) (\<lambda>upto.
     bindE (assertE (m_recv_pos rb \<ge> upto)) (\<lambda>_.
     bindE
       (if offset > 0
        then
          bindE
            (if n > 0
             then
               (case buffer_data (m_buff rb) of
                  None \<Rightarrow> Inl Undefined
                | Some m \<Rightarrow>
                    let dst = m_recv_start rb + offset;
                        src = m_recv_start rb + offset + n;
                        remainder_size = usize (m_recv_end rb - m_recv_start rb - (offset + n)) in
                    bindE (mem_get m src remainder_size) (\<lambda>cs.
                    bindE (mem_put m dst cs) (\<lambda>m'.
                    Inr (rb\<lparr>m_buff := (m_buff rb)\<lparr>m_begin := Some m'\<rparr>\<rparr>))))
             else Inr rb) (\<lambda>rb1.
          Inr (rb1\<lparr>m_recv_pos := m_recv_pos rb1 - n, m_recv_end := m_recv_end rb1 - n\<rparr>))
        else
          bindE (i32 (m_recv_start rb + n)) (\<lambda>s.
          bindE (assertE (s \<le> m_recv_end rb)) (\<lambda>_.
          Inr (rb\<lparr>m_recv_start := s, m_recv_pos := m_recv_pos rb - n\<rparr>)))) (\<lambda>rb2.
     Inr (rb2\<lparr>m_message_size := next_message_size\<rparr>))))))))))"

text \<open>
  \<open>get\<close>: the pointer to the start of the message, as the cells it gives access to, and the
  number of bytes processed so far as \<open>size_t\<close>.
\<close>

definition get :: "recv_buffer \<Rightarrow> (cell list option \<times> int) res" where
  "get rb =
     (if buffer_empty (m_buff rb) then Inr (None, 0)
      else
        case buffer_data (m_buff rb) of
          None \<Rightarrow> Inl Undefined
        | Some m \<Rightarrow>
            bindE (mem_get m (m_recv_start rb) (int (length m) - m_recv_start rb)) (\<lambda>cs.
            Inr (Some cs, usize (m_recv_pos rb))))"

definition reset :: "int \<Rightarrow> recv_buffer \<Rightarrow> recv_buffer res" where
  "reset next_message_size rb =
     bindE (assertE (usize (m_recv_end rb) \<le> buffer_size (m_buff rb))) (\<lambda>_.
     bindE (assertE (next_message_size > 0)) (\<lambda>_.
     if m_recv_end rb > m_message_size rb
     then cut (m_message_size rb) next_message_size 0 rb
     else Inr (rb\<lparr>m_recv_pos := 0, m_recv_start := 0, m_recv_end := 0,
                  m_message_size := next_message_size\<rparr>)))"

definition clean :: "recv_buffer \<Rightarrow> recv_buffer res" where
  "clean rb =
     bindE
       (if m_recv_end rb > m_recv_start rb \<and> m_recv_start rb > 0
        then
          (case buffer_data (m_buff rb) of
             None \<Rightarrow> Inl Undefined
           | Some m \<Rightarrow>
               bindE (mem_get m (m_recv_start rb) (m_recv_end rb - m_recv_start rb)) (\<lambda>cs.
               bindE (mem_put m 0 cs) (\<lambda>m'.
               Inr (rb\<lparr>m_buff := (m_buff rb)\<lparr>m_begin := Some m'\<rparr>\<rparr>))))
        else Inr rb) (\<lambda>rb1.
     Inr (rb1\<lparr>m_recv_end := m_recv_end rb1 - m_recv_start rb1, m_recv_start := 0\<rparr>))"

text \<open>Move assignment and move construction: the new object and what is left of the other.\<close>

definition recv_buffer_move :: "recv_buffer \<Rightarrow> recv_buffer \<Rightarrow> recv_buffer \<times> recv_buffer" where
  "recv_buffer_move this other =
     (let (b, ob) = buffer_move_assign False (m_buff this) (m_buff other) in
      (this\<lparr>m_buff := b, m_recv_start := m_recv_start other, m_recv_end := m_recv_end other,
            m_recv_pos := m_recv_pos other, m_message_size := m_message_size other\<rparr>,
       other\<lparr>m_buff := ob\<rparr>))"

text \<open>
  What \<open>libuv\<close> does with the chunk it was given: the bytes read are stored from the chunk's
  offset on.
\<close>

definition socket_store :: "int \<Rightarrow> byte list \<Rightarrow> recv_buffer \<Rightarrow> recv_buffer res" where
  "socket_store off bs rb =
     (case buffer_data (m_buff rb) of
        None \<Rightarrow> Inl Undefined
      | Some m \<Rightarrow> bindE (mem_put m off (map Some bs)) (\<lambda>m'.
          Inr (rb\<lparr>m_buff := (m_buff rb)\<lparr>m_begin := Some m'\<rparr>\<rparr>)))"

section \<open>The byte window\<close>

definition rb_cells :: "recv_buffer \<Rightarrow> cell list" where
  "rb_cells rb = buffer_cells (m_buff rb)"

definition rb_cap :: "recv_buffer \<Rightarrow> int" where
  "rb_cap rb = m_size (m_buff rb)"

definition rb_holds :: "recv_buffer \<Rightarrow> byte list \<Rightarrow> bool" where
  "rb_holds rb w =
     (buffer_ok (m_buff rb) \<and> 0 \<le> m_recv_start rb \<and> 0 \<le> m_recv_pos rb \<and>
      m_recv_pos rb \<le> int (length w) \<and> 0 \<le> m_message_size rb \<and> m_message_size rb \<le> int_max \<and>
      m_recv_end rb = m_recv_start rb + int (length w) \<and> m_recv_end rb \<le> rb_cap rb \<and>
      take (length w) (drop (nat (m_recv_start rb)) (rb_cells rb)) = map Some w)"

named_theorems rb_defs \<open>definitions of the receive buffer\<close>

lemmas [rb_defs] = rb_holds_def rb_cells_def rb_cap_def buffer_size_def buffer_data_def
  buffer_empty_def

lemma rb_holds_cap: "rb_holds rb w \<Longrightarrow> 0 \<le> rb_cap rb \<and> rb_cap rb \<le> int_max"
  by (auto simp: rb_defs buffer_ok_def)

lemma rb_holds_length: "rb_holds rb w \<Longrightarrow> int (length (rb_cells rb)) = rb_cap rb"
  by (simp add: rb_defs length_buffer_cells)

lemma rb_holds_window: "rb_holds rb w \<Longrightarrow> rb_holds rb w' \<Longrightarrow> w = w'"
proof -
  assume a: "rb_holds rb w" "rb_holds rb w'"
  then have "length w = length w'" by (auto simp: rb_holds_def)
  with a have "map Some w = map Some w'" by (auto simp: rb_holds_def)
  then show ?thesis by (simp add: inj_map_eq_map)
qed

lemma rb_holds_default: "rb_holds recv_buffer_default []"
  by (simp add: rb_defs recv_buffer_default_def)
     (simp add: buffer_default_def)

lemma rb_begin_some:
  assumes "rb_holds rb w" "0 < rb_cap rb"
  obtains m where "m_begin (m_buff rb) = Some m" "rb_cells rb = m" "int (length m) = rb_cap rb"
  using assms by (auto simp: rb_defs buffer_ok_def buffer_cells_def split: option.splits)

lemma narrow_cap: "rb_holds rb w \<Longrightarrow> narrow32 (buffer_size (m_buff rb)) = rb_cap rb"
  using rb_holds_cap [of rb w] by (auto simp: buffer_size_def rb_cap_def intro!: narrow32_id)

subsection \<open>Operations as functions of the window\<close>

lemma max_receive_holds:
  "rb_holds rb w \<Longrightarrow> max_receive rb = Inr (rb_cap rb - m_recv_end rb)"
  using rb_holds_cap [of rb w] narrow_cap [of rb w]
  by (auto simp: max_receive_def rb_holds_def)

lemma socket_store_holds:
  assumes "rb_holds rb w" "0 < rb_cap rb" "m_recv_end rb + int (length bs) \<le> rb_cap rb"
  shows "\<exists>rb'. socket_store (m_recv_end rb) bs rb = Inr rb' \<and>
           rb_holds (rb'\<lparr>m_recv_end := m_recv_end rb + int (length bs)\<rparr>) (w @ bs) \<and>
           rb_cap rb' = rb_cap rb \<and> m_recv_start rb' = m_recv_start rb \<and>
           m_recv_end rb' = m_recv_end rb \<and> m_recv_pos rb' = m_recv_pos rb \<and>
           m_message_size rb' = m_message_size rb"
proof -
  obtain m where m: "m_begin (m_buff rb) = Some m" "rb_cells rb = m" "int (length m) = rb_cap rb"
    using assms by (auto elim: rb_begin_some)
  let ?s = "nat (m_recv_start rb)" and ?e = "nat (m_recv_end rb)"
  have e: "?e = ?s + length w" "?s + length w + length bs \<le> length m"
    and w: "take (length w) (drop ?s m) = map Some w"
    using assms m by (auto simp: rb_holds_def)
  let ?m = "take ?e m @ map Some bs @ drop (?e + length bs) m"
  have put: "mem_put m (m_recv_end rb) (map Some bs) = Inr ?m"
    using assms m by (auto simp: mem_put_def rb_holds_def)
  have len: "length ?m = length m" using e by simp
  have "drop ?s (take ?e m) = map Some w"
    using w e by (simp add: drop_take)
  then have win: "take (length (w @ bs)) (drop ?s ?m) = map Some (w @ bs)"
    using e by simp
  let ?rb = "rb\<lparr>m_buff := (m_buff rb)\<lparr>m_begin := Some ?m\<rparr>\<rparr>"
  have "socket_store (m_recv_end rb) bs rb = Inr ?rb"
    using put m by (simp add: socket_store_def buffer_data_def)
  moreover have "rb_holds (?rb\<lparr>m_recv_end := m_recv_end rb + int (length bs)\<rparr>) (w @ bs)"
    using assms m len win e
    by (simp add: rb_defs buffer_ok_def buffer_cells_def)
  ultimately show ?thesis by (auto simp: rb_cap_def)
qed

lemma received_holds:
  assumes "rb_holds (rb\<lparr>m_recv_end := m_recv_end rb + n\<rparr>) w" "0 < m_message_size rb"
  shows "received n rb = Inr (rb\<lparr>m_recv_end := m_recv_end rb + n\<rparr>)"
proof -
  from assms have b: "0 \<le> m_recv_pos rb" "m_recv_pos rb \<le> rb_cap rb" "0 \<le> m_recv_end rb + n"
    "m_recv_end rb + n \<le> rb_cap rb"
    by (auto simp: rb_defs)
  moreover from rb_holds_cap [OF assms(1)] have "rb_cap rb \<le> int_max" by (simp add: rb_cap_def)
  ultimately have "usize (m_recv_pos rb) = m_recv_pos rb" by (auto intro!: usize_id)
  with b \<open>rb_cap rb \<le> int_max\<close> assms(2) show ?thesis
    by (simp add: received_def rb_cap_def buffer_size_def i32_def)
qed

text \<open>A copy into a larger allocation keeps the window (\<open>reserve\<close> and \<open>grow\<close>).\<close>

lemma rebuffer_holds:
  assumes "rb_holds rb w" "m_recv_end rb \<le> n" "n \<le> int_max" "m_recv_start rb = 0 \<or> rb_cap rb > 0"
  shows "\<exists>b. buffer_from (usize n) (buffer_data (m_buff rb)) (usize (m_recv_end rb)) = Inr b \<and>
           rb_holds (rb\<lparr>m_buff := fst (buffer_move_assign False (m_buff rb) b)\<rparr>) w \<and> m_size b = n"
proof -
  have e: "0 \<le> m_recv_end rb" "m_recv_end rb \<le> rb_cap rb" "m_recv_end rb \<le> n"
    using assms by (auto simp: rb_holds_def)
  have us: "usize n = n" "usize (m_recv_end rb) = m_recv_end rb"
    using e assms by (auto intro!: usize_id)
  show ?thesis
  proof (cases "m_begin (m_buff rb)")
    case None
    with assms(1) have "rb_cap rb = 0" by (auto simp: rb_defs buffer_ok_def)
    moreover from this e assms(1) have "m_recv_end rb = 0" "w = []"
      by (cases w; auto simp: rb_holds_def)+
    moreover note calculation
    with None assms us e show ?thesis
      by (auto simp: buffer_from_null rb_defs buffer_move_assign_def buffer_ok_def
        buffer_cells_def length_buffer_cells)
  next
    case (Some m)
    then have m: "rb_cells rb = m" "int (length m) = rb_cap rb"
      using assms(1) by (auto simp: rb_defs buffer_ok_def buffer_cells_def)
    let ?s = "nat (m_recv_start rb)" and ?e = "nat (m_recv_end rb)"
    let ?m = "take ?e m @ replicate (nat n - ?e) None"
    have b: "buffer_from (usize n) (buffer_data (m_buff rb)) (usize (m_recv_end rb)) =
        Inr \<lparr>m_begin = Some ?m, m_size = n\<rparr>"
      using us e m assms(3) Some
      by (simp add: buffer_data_def buffer_from_total)
    have "take (length w) (drop ?s ?m) = map Some w"
    proof -
      have "?e = ?s + length w" using assms(1) by (auto simp: rb_holds_def)
      then have "drop ?s (take ?e m) = map Some w"
        using assms(1) m by (simp add: drop_take rb_holds_def)
      with \<open>?e = ?s + length w\<close> m e show ?thesis by simp
    qed
    moreover have "length ?m = nat n" using e m by auto
    ultimately show ?thesis
      using b assms e
      by (auto simp: rb_defs buffer_move_assign_def buffer_ok_def buffer_cells_def)
  qed
qed

lemma reserve_holds:
  assumes "rb_holds rb w" "m_recv_start rb = 0" "0 < n" "m_recv_end rb + n \<le> int_max"
  shows "\<exists>rb'. reserve n rb = Inr ((m_recv_end rb, n), rb') \<and> rb_holds rb' w \<and>
           m_recv_start rb' = 0 \<and> m_recv_end rb' = m_recv_end rb \<and>
           m_recv_pos rb' = m_recv_pos rb \<and> m_message_size rb' = m_message_size rb \<and>
           m_recv_end rb + n \<le> rb_cap rb' \<and>
           (m_recv_end rb + n \<le> rb_cap rb \<longrightarrow> rb' = rb)"
proof -
  have e: "0 \<le> m_recv_end rb" "0 \<le> m_recv_pos rb" "m_message_size rb \<le> int_max"
    using assms by (auto simp: rb_holds_def)
  have us: "usize (m_recv_end rb + n) = m_recv_end rb + n"
    using e assms by (auto intro!: usize_id)
  show ?thesis
  proof (cases "m_recv_end rb + n > rb_cap rb")
    case False
    with assms e us show ?thesis
      by (auto simp: reserve_def i32_def rb_cap_def buffer_size_def)
  next
    case True
    let ?n = "max (m_recv_end rb + n) (m_message_size rb)"
    have "m_recv_end rb \<le> ?n" "?n \<le> int_max"
      using assms e by linarith+
    then obtain b where b:
      "buffer_from (usize ?n) (buffer_data (m_buff rb)) (usize (m_recv_end rb)) = Inr b"
      "rb_holds (rb\<lparr>m_buff := fst (buffer_move_assign False (m_buff rb) b)\<rparr>) w" "m_size b = ?n"
      using rebuffer_holds [OF assms(1), of ?n] assms(2) by auto
    with True assms e us show ?thesis
      by (auto simp: reserve_def i32_def rb_cap_def buffer_size_def Let_def buffer_move_assign_def)
  qed
qed

lemma grow_holds:
  assumes "rb_holds rb w" "0 < rb_cap rb" "rb_cap rb < m_message_size rb \<or> rb_cap rb * 3 \<le> int_max"
  shows "\<exists>rb'. grow rb = Inr rb' \<and> rb_holds rb' w \<and>
           m_recv_start rb' = m_recv_start rb \<and> m_recv_end rb' = m_recv_end rb \<and>
           m_recv_pos rb' = m_recv_pos rb \<and> m_message_size rb' = m_message_size rb \<and>
           rb_cap rb' = (if rb_cap rb < m_message_size rb then m_message_size rb
                         else rb_cap rb * 3 div 2)"
proof -
  let ?n = "if rb_cap rb < m_message_size rb then m_message_size rb else rb_cap rb * 3 div 2"
  have n: "m_recv_end rb \<le> ?n" "?n \<le> int_max"
    using assms by (auto simp: rb_holds_def)
  obtain b where b:
    "buffer_from (usize ?n) (buffer_data (m_buff rb)) (usize (m_recv_end rb)) = Inr b"
    "rb_holds (rb\<lparr>m_buff := fst (buffer_move_assign False (m_buff rb) b)\<rparr>) w" "m_size b = ?n"
    using rebuffer_holds [OF assms(1) n] assms(2) by auto
  show ?thesis
    using b assms
    by (auto simp: grow_def narrow_cap [OF assms(1)] i32_def Let_def rb_cap_def
        buffer_move_assign_def)
qed

lemma advance_holds:
  assumes "rb_holds rb w" "0 \<le> n" "m_recv_pos rb + n \<le> int (length w)"
    "m_recv_pos rb < m_message_size rb"
  shows "advance_pos n rb =
           Inr (min (m_message_size rb - m_recv_pos rb) n,
                rb\<lparr>m_recv_pos := m_recv_pos rb + min (m_message_size rb - m_recv_pos rb) n\<rparr>)"
    and "rb_holds (rb\<lparr>m_recv_pos := m_recv_pos rb + min (m_message_size rb - m_recv_pos rb) n\<rparr>) w"
  using assms
  by (auto simp: advance_pos_def rb_defs i32_def Let_def min_def)

lemma get_holds:
  assumes "rb_holds rb w" "w \<noteq> []"
  shows "\<exists>cs. get rb = Inr (Some cs, m_recv_pos rb) \<and> take (length w) cs = map Some w \<and>
           length w \<le> length cs"
proof -
  from assms have cap: "0 < rb_cap rb" by (cases w) (auto simp: rb_holds_def)
  with assms(1) obtain m where
    m: "m_begin (m_buff rb) = Some m" "rb_cells rb = m" "int (length m) = rb_cap rb"
    by (auto elim: rb_begin_some)
  have "usize (m_recv_pos rb) = m_recv_pos rb"
    using assms rb_holds_cap [OF assms(1)] by (auto simp: rb_holds_def intro!: usize_id)
  moreover have "mem_get m (m_recv_start rb) (int (length m) - m_recv_start rb) =
      Inr (drop (nat (m_recv_start rb)) m)"
    using assms m by (auto simp: mem_get_def rb_holds_def)
  ultimately show ?thesis
    using assms m cap by (auto simp: get_def rb_defs)
qed

lemma reset_holds:
  assumes "rb_holds rb w" "m_recv_pos rb = m_message_size rb" "0 < n" "n \<le> int_max"
  shows "\<exists>rb'. reset n rb = Inr rb' \<and> rb_holds rb' (drop (nat (m_message_size rb)) w) \<and>
           m_recv_pos rb' = 0 \<and> m_message_size rb' = n \<and> rb_cap rb' = rb_cap rb"
proof -
  let ?k = "nat (m_message_size rb)"
  have b: "0 \<le> m_recv_start rb" "0 \<le> m_message_size rb" "m_message_size rb \<le> int (length w)"
    "m_recv_end rb = m_recv_start rb + int (length w)" "m_recv_end rb \<le> rb_cap rb"
    and cap: "rb_cap rb \<le> int_max" and ok: "buffer_ok (m_buff rb)"
    and w: "take (length w) (drop (nat (m_recv_start rb)) (rb_cells rb)) = map Some w"
    using assms rb_holds_cap [OF assms(1)] by (auto simp: rb_holds_def)
  have us: "usize (m_recv_end rb) = m_recv_end rb" "usize (m_message_size rb) = m_message_size rb"
    "usize (m_recv_pos rb) = m_recv_pos rb"
    using b cap assms by (auto intro!: usize_id)
  show ?thesis
  proof (cases "m_recv_end rb > m_message_size rb")
    case True
    let ?rb = "rb\<lparr>m_recv_start := m_recv_start rb + m_message_size rb, m_recv_pos := 0,
                  m_message_size := n\<rparr>"
    have "reset n rb = Inr ?rb"
      using True assms b cap us
      by (simp add: reset_def cut_def i32_def rb_cap_def buffer_size_def)
    moreover have "take (length w - ?k) (drop (nat (m_recv_start rb) + ?k) (rb_cells rb)) =
        map Some (drop ?k w)"
      using drop_take_map_Some [OF w, of ?k] by (simp add: add.commute)
    ultimately show ?thesis
      using assms b ok
      by (auto simp: rb_holds_def rb_cap_def rb_cells_def nat_add_distrib of_nat_diff)
  next
    case False
    with b have "m_recv_start rb = 0" "m_message_size rb = int (length w)" by auto
    moreover from False assms b cap us have
      "reset n rb = Inr (rb\<lparr>m_recv_pos := 0, m_recv_start := 0, m_recv_end := 0, m_message_size := n\<rparr>)"
      by (simp add: reset_def rb_cap_def buffer_size_def)
    ultimately show ?thesis
      using assms ok b by (auto simp: rb_holds_def rb_cap_def rb_cells_def)
  qed
qed

lemma clean_holds:
  assumes "rb_holds rb w"
  shows "\<exists>rb'. clean rb = Inr rb' \<and> rb_holds rb' w \<and> m_recv_start rb' = 0 \<and>
           m_recv_end rb' = int (length w) \<and> m_recv_pos rb' = m_recv_pos rb \<and>
           m_message_size rb' = m_message_size rb \<and> rb_cap rb' = rb_cap rb"
proof (cases "m_recv_end rb > m_recv_start rb \<and> m_recv_start rb > 0")
  case False
  with assms show ?thesis
    by (cases "w = []") (auto simp: clean_def rb_holds_def rb_cap_def rb_cells_def)
next
  case True
  with assms have cap: "0 < rb_cap rb" by (auto simp: rb_holds_def)
  with assms obtain m where
    m: "m_begin (m_buff rb) = Some m" "rb_cells rb = m" "int (length m) = rb_cap rb"
    by (auto elim: rb_begin_some)
  let ?s = "nat (m_recv_start rb)"
  have w: "take (length w) (drop ?s m) = map Some w" and len: "?s + length w \<le> length m"
    and e: "m_recv_end rb - m_recv_start rb = int (length w)"
    using assms m by (auto simp: rb_holds_def)
  have g: "mem_get m (m_recv_start rb) (int (length w)) = Inr (map Some w)"
    using w len True by (simp add: mem_get_def)
  let ?m = "map Some w @ drop (length w) m"
  have p: "mem_put m 0 (map Some w) = Inr ?m"
    using len by (simp add: mem_put_def)
  let ?rb = "rb\<lparr>m_buff := (m_buff rb)\<lparr>m_begin := Some ?m\<rparr>, m_recv_end := int (length w),
                m_recv_start := 0\<rparr>"
  have "clean rb = Inr ?rb"
    using True m g p e by (simp add: clean_def buffer_data_def)
  moreover have "rb_holds ?rb w"
    using assms m len True by (auto simp: rb_defs buffer_ok_def buffer_cells_def)
  ultimately show ?thesis by (auto simp: rb_cap_def)
qed

lemma cut_middle_holds:
  assumes "rb_holds rb w" "0 < off" "0 < n" "off + n \<le> m_recv_pos rb" "0 < next" "next \<le> int_max"
  shows "\<exists>rb'. cut n next off rb = Inr rb' \<and>
           rb_holds rb' (take (nat off) w @ drop (nat (off + n)) w) \<and>
           m_recv_pos rb' = m_recv_pos rb - n \<and> m_message_size rb' = next"
proof -
  let ?o = "nat off" and ?n = "nat n" and ?s = "nat (m_recv_start rb)" and ?l = "length w"
  have b: "0 \<le> m_recv_start rb" "0 \<le> m_recv_pos rb" "m_recv_pos rb \<le> int ?l"
    "m_recv_end rb = m_recv_start rb + int ?l" "m_recv_end rb \<le> rb_cap rb" "rb_cap rb \<le> int_max"
    and ok: "buffer_ok (m_buff rb)"
    using assms rb_holds_cap [OF assms(1)] by (auto simp: rb_holds_def)
  have cap: "0 < rb_cap rb" using b assms by simp
  with assms(1) obtain m where
    m: "m_begin (m_buff rb) = Some m" "rb_cells rb = m" "int (length m) = rb_cap rb"
    by (auto elim: rb_begin_some)
  have w: "take ?l (drop ?s m) = map Some w" using assms(1) m by (simp add: rb_holds_def)
  have len: "?s + ?l \<le> length m" "?o + ?n \<le> ?l" using b m assms by auto
  obtain k where k: "?l = ?o + ?n + k" using len(2) by (auto simp: le_iff_add)
  have us: "usize n = n" "usize (m_recv_pos rb) = m_recv_pos rb"
    "usize (m_recv_end rb - m_recv_start rb - (off + n)) = int k"
    using b assms k by (auto simp: usize_def)
  let ?r = "map Some (drop (?o + ?n) w)"
  have "take k (drop (?o + ?n + ?s) m) = ?r"
    using drop_take_map_Some [OF w, of "?o + ?n"] k by simp
  then have g: "mem_get m (m_recv_start rb + off + n) (int k) = Inr ?r"
    using len k b assms
    by (auto simp: mem_get_def nat_add_distrib add.commute add.left_commute)
  let ?m = "take (?s + ?o) m @ ?r @ drop (?s + ?l - ?n) m"
  have p: "mem_put m (m_recv_start rb + off) ?r = Inr ?m"
    using len b assms by (auto simp: mem_put_def nat_add_distrib)
  have lm: "length ?m = length m" using len by simp
  let ?rb = "rb\<lparr>m_buff := (m_buff rb)\<lparr>m_begin := Some ?m\<rparr>, m_recv_pos := m_recv_pos rb - n,
                m_recv_end := m_recv_end rb - n, m_message_size := next\<rparr>"
  have c: "cut n next off rb = Inr ?rb"
    using assms b us m g p by (simp add: cut_def i32_def rb_cap_def buffer_size_def buffer_data_def)
  have "drop ?s (take (?s + ?o) m) = map Some (take ?o w)"
    using take_map_Some_prefix [OF w, of ?o] len by (simp add: drop_take)
  moreover have "drop ?s ?m = drop ?s (take (?s + ?o) m) @ ?r @ drop (?s + ?l - ?n) m"
    using len by simp
  ultimately have "take (?l - ?n) (drop ?s ?m) = map Some (take ?o w @ drop (?o + ?n) w)"
    using len by simp
  moreover have "length (take ?o w @ drop (?o + ?n) w) = ?l - ?n" using len by simp
  ultimately have "rb_holds ?rb (take ?o w @ drop (?o + ?n) w)"
    using assms b m lm len ok
    by (simp add: rb_holds_def rb_cells_def rb_cap_def buffer_ok_def buffer_cells_def of_nat_diff)
  with c assms show ?thesis by (simp add: nat_add_distrib)
qed

section \<open>The interface the connection uses\<close>

text \<open>
  A message stream holds the received bytes that are not consumed yet; \<open>need\<close> is the length
  of the message being received and \<open>pos\<close> how far the cursor is in it. The connection
  classes use it through \<open>advance\<close>, \<open>get\<close> and \<open>reset\<close> only.
\<close>

locale message_stream =
  fixes holds :: "'b \<Rightarrow> byte list \<Rightarrow> bool"
    and pos :: "'b \<Rightarrow> int"
    and need :: "'b \<Rightarrow> int"
    and finished :: "'b \<Rightarrow> bool"
    and advance :: "int \<Rightarrow> 'b \<Rightarrow> (int \<times> 'b) res"
    and fetch :: "'b \<Rightarrow> (cell list option \<times> int) res"
    and next_message :: "int \<Rightarrow> 'b \<Rightarrow> 'b res"
  assumes finished: "finished b \<longleftrightarrow> need b \<le> pos b"
    and advance: "holds b w \<Longrightarrow> 0 \<le> n \<Longrightarrow> pos b + n \<le> int (length w) \<Longrightarrow> pos b < need b \<Longrightarrow>
      \<exists>b'. advance n b = Inr (min (need b - pos b) n, b') \<and> holds b' w \<and>
           pos b' = pos b + min (need b - pos b) n \<and> need b' = need b"
    and fetch: "holds b w \<Longrightarrow> w \<noteq> [] \<Longrightarrow>
      \<exists>cs. fetch b = Inr (Some cs, pos b) \<and> take (length w) cs = map Some w"
    and next_message: "holds b w \<Longrightarrow> pos b = need b \<Longrightarrow> 0 < n \<Longrightarrow> n \<le> int_max \<Longrightarrow>
      \<exists>b'. next_message n b = Inr b' \<and> holds b' (drop (nat (need b)) w) \<and>
           pos b' = 0 \<and> need b' = n"
begin

lemma complete:
  assumes "holds b (msg @ rest)" "need b = int (length msg)" "msg \<noteq> []" "pos b < need b"
    "pos b + n = int (length (msg @ rest))"
  shows "\<exists>b1 cs. advance n b = Inr (need b - pos b, b1) \<and> finished b1 \<and> need b1 = need b \<and>
           pos b1 = need b1 \<and> holds b1 (msg @ rest) \<and>
           fetch b1 = Inr (Some cs, int (length msg)) \<and>
           take (length msg) cs = map Some msg"
proof -
  have min: "min (need b - pos b) n = need b - pos b" using assms by simp
  obtain b1 where b1: "advance n b = Inr (need b - pos b, b1)" "holds b1 (msg @ rest)"
    "pos b1 = need b" "need b1 = need b"
    using advance [OF assms(1), of n] assms min by auto
  moreover obtain cs where "fetch b1 = Inr (Some cs, pos b1)"
    "take (length (msg @ rest)) cs = map Some (msg @ rest)"
    using fetch [OF b1(2)] assms(3) by auto
  moreover from this have "take (length msg) cs = map Some msg"
    using take_map_Some_prefix [of "length (msg @ rest)" cs "msg @ rest" "length msg"] by simp
  ultimately show ?thesis using assms(2) by (auto simp: finished)
qed

lemma consume:
  assumes "holds b (msg @ rest)" "need b = int (length msg)" "pos b = need b" "0 < n" "n \<le> int_max"
  shows "\<exists>b'. next_message n b = Inr b' \<and> holds b' rest \<and> pos b' = 0 \<and> need b' = n"
  using next_message [OF assms(1,3,4,5)] assms(2) by auto

lemma incomplete:
  assumes "holds b w" "0 \<le> n" "pos b + n = int (length w)" "int (length w) < need b"
  shows "\<exists>b'. advance n b = Inr (n, b') \<and> \<not> finished b' \<and> holds b' w \<and>
           pos b' = int (length w) \<and> need b' = need b"
proof -
  have "min (need b - pos b) n = n" using assms by simp
  then obtain b' where "advance n b = Inr (n, b')" "holds b' w" "pos b' = pos b + n"
    "need b' = need b"
    using advance [OF assms(1), of n] assms by auto
  then show ?thesis using assms by (auto simp: finished)
qed

end

interpretation rb: message_stream rb_holds m_recv_pos m_message_size is_message_finished
  advance_pos get reset
proof unfold_locales
  fix b w n
  assume "rb_holds b w" "0 \<le> n" "m_recv_pos b + n \<le> int (length w)"
    "m_recv_pos b < m_message_size b"
  then show "\<exists>b'. advance_pos n b = Inr (min (m_message_size b - m_recv_pos b) n, b') \<and>
      rb_holds b' w \<and> m_recv_pos b' = m_recv_pos b + min (m_message_size b - m_recv_pos b) n \<and>
      m_message_size b' = m_message_size b"
    using advance_holds by auto
next
  fix b w
  assume "rb_holds b w" "w \<noteq> []"
  then show "\<exists>cs. get b = Inr (Some cs, m_recv_pos b) \<and> take (length w) cs = map Some w"
    using get_holds by blast
next
  fix b w n
  assume "rb_holds b w" "m_recv_pos b = m_message_size b" "0 < n" "n \<le> int_max"
  then show "\<exists>b'. reset n b = Inr b' \<and> rb_holds b' (drop (nat (m_message_size b)) w) \<and>
      m_recv_pos b' = 0 \<and> m_message_size b' = n"
    using reset_holds by blast
qed (simp add: is_message_finished_def)

section \<open>Properties\<close>

text \<open>bytes that the socket stores into the chunk handed out, once accounted for with
  \<open>received\<close>, are appended to the window; the cursor and the current message do not move.\<close>

theorem received_appends:
  assumes "rb_holds rb w" "0 < m_message_size rb" "bs \<noteq> []"
    "m_recv_end rb + int (length bs) \<le> rb_cap rb"
  shows "\<exists>rb1 rb2. socket_store (m_recv_end rb) bs rb = Inr rb1 \<and>
           received (int (length bs)) rb1 = Inr rb2 \<and> rb_holds rb2 (w @ bs) \<and>
           m_recv_pos rb2 = m_recv_pos rb \<and> m_message_size rb2 = m_message_size rb"
proof -
  from assms(3) have "0 < length bs" by simp
  moreover have "0 \<le> m_recv_end rb" using assms(1) by (auto simp: rb_holds_def)
  ultimately have "0 < rb_cap rb" using assms(4) by linarith
  with assms(1,4) obtain rb1 where "socket_store (m_recv_end rb) bs rb = Inr rb1"
    "rb_holds (rb1\<lparr>m_recv_end := m_recv_end rb + int (length bs)\<rparr>) (w @ bs)"
    "m_recv_end rb1 = m_recv_end rb" "m_recv_pos rb1 = m_recv_pos rb"
    "m_message_size rb1 = m_message_size rb"
    using socket_store_holds by blast
  with received_holds [of rb1 "int (length bs)" "w @ bs"] assms(2) show ?thesis by auto
qed

text \<open>once the cursor has reached the end of a message of \<open>need\<close> bytes, \<open>reset\<close> drops
  exactly that message from the window and keeps every byte received after it, although it
  compares the absolute end offset with the message size and in one branch zeroes all offsets.\<close>

theorem reset_drops_message:
  assumes "rb_holds rb (msg @ rest)" "m_message_size rb = int (length msg)"
    "m_recv_pos rb = m_message_size rb" "0 < n" "n \<le> int_max"
  shows "\<exists>rb'. reset n rb = Inr rb' \<and> rb_holds rb' rest \<and> m_recv_pos rb' = 0 \<and>
           m_message_size rb' = n"
  using assms by (rule rb.consume)

text \<open>\<open>reserve\<close>, \<open>grow\<close> and \<open>clean\<close> never lose a received byte: each keeps the window,
  and after \<open>clean\<close> it starts at offset 0, which the assertion of \<open>reserve\<close> asks for.\<close>

theorem clean_reserve_keep_window:
  assumes "rb_holds rb w" "0 < n" "int (length w) + n \<le> int_max"
  shows "\<exists>rb1 rb2. clean rb = Inr rb1 \<and> reserve n rb1 = Inr ((int (length w), n), rb2) \<and>
           rb_holds rb2 w \<and> int (length w) + n \<le> rb_cap rb2"
proof -
  from clean_holds [OF assms(1)] obtain rb1 where rb1: "clean rb = Inr rb1" "rb_holds rb1 w"
    "m_recv_start rb1 = 0" "m_recv_end rb1 = int (length w)" by blast
  with reserve_holds [OF rb1(2,3) assms(2)] assms(3) show ?thesis by auto
qed

text \<open>\<open>cut\<close> at a positive offset removes the bytes \<open>[off, off + n)\<close> of the window and
  closes the gap with the bytes after them.\<close>

theorem cut_offset_removes_slice:
  assumes "rb_holds rb w" "0 < off" "0 < n" "off + n \<le> m_recv_pos rb" "0 < next" "next \<le> int_max"
  shows "\<exists>rb'. cut n next off rb = Inr rb' \<and>
           rb_holds rb' (take (nat off) w @ drop (nat (off + n)) w) \<and>
           m_recv_pos rb' = m_recv_pos rb - n \<and> m_message_size rb' = next"
  using assms by (rule cut_middle_holds)

section \<open>Witnesses\<close>

definition sample_rb :: recv_buffer where
  "sample_rb = \<lparr>m_buff = \<lparr>m_begin = Some [Some 1, Some 2, Some 3, Some 4, None, None], m_size = 6\<rparr>,
     m_recv_start = 0, m_recv_end = 4, m_recv_pos = 3, m_message_size = 3\<rparr>"

lemma sample_rb_holds: "rb_holds sample_rb [1, 2, 3, 4]"
  by (simp add: sample_rb_def rb_defs buffer_ok_def buffer_cells_def)

theorem received_appends_witness:
  "\<exists>rb1 rb2. socket_store (m_recv_end sample_rb) [9, 8] sample_rb = Inr rb1 \<and>
     received (int (length [9 :: byte, 8])) rb1 = Inr rb2 \<and>
     rb_holds rb2 ([1, 2, 3, 4] @ [9, 8]) \<and>
     m_recv_pos rb2 = m_recv_pos sample_rb \<and> m_message_size rb2 = m_message_size sample_rb"
  by (rule received_appends [OF sample_rb_holds]) (simp_all add: sample_rb_def rb_cap_def)

theorem reset_drops_message_witness:
  "\<exists>rb'. reset 5 sample_rb = Inr rb' \<and> rb_holds rb' [4] \<and> m_recv_pos rb' = 0 \<and>
     m_message_size rb' = 5"
proof (rule reset_drops_message)
  show "rb_holds sample_rb ([1, 2, 3] @ [4])" using sample_rb_holds by simp
qed (simp_all add: sample_rb_def)

theorem clean_reserve_keep_window_witness:
  "\<exists>rb1 rb2. clean sample_rb = Inr rb1 \<and>
     reserve 10 rb1 = Inr ((int (length [1 :: byte, 2, 3, 4]), 10), rb2) \<and>
     rb_holds rb2 [1, 2, 3, 4] \<and> int (length [1 :: byte, 2, 3, 4]) + 10 \<le> rb_cap rb2"
  by (rule clean_reserve_keep_window [OF sample_rb_holds]) simp_all

theorem cut_offset_removes_slice_witness:
  "\<exists>rb'. cut 1 8 1 sample_rb = Inr rb' \<and>
     rb_holds rb' (take (nat 1) [1, 2, 3, 4] @ drop (nat (1 + 1)) [1, 2, 3, 4]) \<and>
     m_recv_pos rb' = m_recv_pos sample_rb - 1 \<and> m_message_size rb' = 8"
  by (rule cut_offset_removes_slice [OF sample_rb_holds]) (simp_all add: sample_rb_def)

end
