(* ===== verification/Info_Hash.thy ===== *)
theory Info_Hash
  imports Prelude
begin

unbundle bit_operations_syntax

text \<open>
  \<open>src/info_hash.cpp\<close>: an owned SHA-1 digest, \<open>None\<close> for the null pointer of a default
  constructed object. OpenSSL's \<open>SHA1\<close> is the parameter \<open>sha1\<close>: a function of the bytes.
\<close>

section \<open>State and operations\<close>

type_synonym info_hash = "byte list option"

abbreviation sha_digest_length :: nat where "sha_digest_length \<equiv> 20"

definition info_hash_default :: info_hash where
  "info_hash_default = None"

definition info_hash_of :: "(byte list \<Rightarrow> byte list) \<Rightarrow> cell list \<Rightarrow> int \<Rightarrow> info_hash res" where
  "info_hash_of sha1 src n = bindE (read_bytes src 0 n) (\<lambda>bs. Inr (Some (sha1 bs)))"

text \<open>\<open>sprintf\<close> with \<open>"%02x\n"\<close>: two hex digits, a newline and the terminating zero.\<close>

definition hex_digit :: "nat \<Rightarrow> byte" where
  "hex_digit n = of_nat (if n < 10 then 48 + n else 87 + n)"

definition sprintf_02x :: "byte \<Rightarrow> byte list" where
  "sprintf_02x b = [hex_digit (unat b div 16), hex_digit (unat b mod 16), 10, 0]"

text \<open>The first loop of \<open>hex_str\<close>: digest byte \<open>i\<close> is printed at offset \<open>2 * i\<close> of the array.\<close>

fun hex_fill :: "cell list \<Rightarrow> nat \<Rightarrow> byte list \<Rightarrow> cell list res" where
  "hex_fill arr i [] = Inr arr"
| "hex_fill arr i (b # bs) =
     bindE (mem_put arr (int (i * 2)) (map Some (sprintf_02x b))) (\<lambda>arr'. hex_fill arr' (Suc i) bs)"

text \<open>The second loop: a percent sign before every pair of characters.\<close>

fun percent_pairs :: "byte list \<Rightarrow> byte list" where
  "percent_pairs (x # y # r) = 37 # x # y # percent_pairs r"
| "percent_pairs [x] = [37, x, 0]"
| "percent_pairs [] = []"

text \<open>
  \<open>hex_str\<close> with the size of the local array \<open>sha1_hex\<close> as a parameter; \<open>std::string(s)\<close>
  stops at the first zero.
\<close>

definition hex_str_array :: "nat \<Rightarrow> info_hash \<Rightarrow> byte list res" where
  "hex_str_array n h =
     (case h of
        None \<Rightarrow> Inr []
      | Some d \<Rightarrow>
          bindE (hex_fill (replicate n None) 0 d) (\<lambda>arr.
          bindE (mem_put arr (int (sha_digest_length * 2)) [Some 0]) (\<lambda>arr'.
          bindE (init_bytes (takeWhile (\<lambda>c. c \<noteq> Some 0) arr')) (\<lambda>s.
          Inr (percent_pairs s)))))"

definition hex_str :: "info_hash \<Rightarrow> byte list res" where
  "hex_str h = hex_str_array (sha_digest_length * 2 + 1) h"

definition hash_eq :: "info_hash \<Rightarrow> info_hash \<Rightarrow> bool" where
  "hash_eq this other =
     (case (this, other) of
        (Some a, Some b) \<Rightarrow> take sha_digest_length a = take sha_digest_length b
      | _ \<Rightarrow> False)"

definition hash_neq :: "info_hash \<Rightarrow> info_hash \<Rightarrow> bool" where
  "hash_neq this other = (\<not> hash_eq this other)"

text \<open>\<open>set\<close>: whatever \<open>size\<close> up to 20 is, 20 bytes are copied.\<close>

definition hash_set :: "cell list \<Rightarrow> int \<Rightarrow> info_hash \<Rightarrow> info_hash res" where
  "hash_set src n this =
     (if n > int sha_digest_length then Inl Exit_failure
      else bindE (read_bytes src 0 (int sha_digest_length)) (\<lambda>bs. Inr (Some bs)))"

definition hash_copy :: "info_hash \<Rightarrow> info_hash res" where
  "hash_copy other =
     (case other of
        None \<Rightarrow> Inl Undefined
      | Some d \<Rightarrow> Inr (Some (take sha_digest_length d)))"

definition hash_move :: "info_hash \<Rightarrow> info_hash \<times> info_hash" where
  "hash_move other = (other, None)"

section \<open>Lemmas\<close>

lemma hash_eq_Some [simp]:
  "length a = 20 \<Longrightarrow> length b = 20 \<Longrightarrow> hash_eq (Some a) (Some b) \<longleftrightarrow> a = b"
  by (simp add: hash_eq_def)

lemma hash_eq_None [simp]: "\<not> hash_eq None h" "\<not> hash_eq h None"
  by (auto simp: hash_eq_def split: option.splits)

lemma hash_set_prefix:
  assumes "length bs = 20" "take 20 src = map Some bs" "n \<le> 20"
  shows "hash_set src n h = Inr (Some bs)"
proof -
  have "length (take 20 src) = 20" using assms by simp
  then have "20 \<le> length src" by (simp split: if_splits)
  with assms show ?thesis by (simp add: hash_set_def read_bytes_eq)
qed

lemma hash_copy_Some: "length d = 20 \<Longrightarrow> hash_copy (Some d) = Inr (Some d)"
  by (simp add: hash_copy_def)

lemma length_percent_pairs: "even (length bs) \<Longrightarrow> 2 * length (percent_pairs bs) = 3 * length bs"
  by (induction bs rule: percent_pairs.induct) auto

lemma hex_digit_nonzero: "n < 16 \<Longrightarrow> hex_digit n \<noteq> 0"
proof
  assume "n < 16" "hex_digit n = 0"
  then have "unat (of_nat (if n < 10 then 48 + n else 87 + n) :: byte) = 0"
    by (simp add: hex_digit_def)
  with \<open>n < 16\<close> show False by (auto simp: unat_of_nat split: if_splits)
qed

definition hex_pairs :: "byte list \<Rightarrow> byte list" where
  "hex_pairs d = concat (map (\<lambda>b. [hex_digit (unat b div 16), hex_digit (unat b mod 16)]) d)"

lemma hex_pairs_simps [simp]:
  "hex_pairs [] = []"
  "hex_pairs (b # d) = hex_digit (unat b div 16) # hex_digit (unat b mod 16) # hex_pairs d"
  by (simp_all add: hex_pairs_def)

lemma length_hex_pairs [simp]: "length (hex_pairs d) = 2 * length d"
  by (induction d) auto

lemma hex_pairs_nonzero: "x \<in> set (hex_pairs d) \<Longrightarrow> x \<noteq> 0"
proof (induction d)
  case (Cons b d)
  have "unat b div 16 < 16" "unat b mod 16 < 16"
    using unsigned_less [of b, where 'a = nat] by auto
  with Cons show ?case using hex_digit_nonzero by auto
qed simp

lemma percent_hex_pairs:
  "percent_pairs (hex_pairs d) =
     concat (map (\<lambda>b. [37, hex_digit (unat b div 16), hex_digit (unat b mod 16)]) d)"
  by (induction d) auto

text \<open>The array after the loop, when it has room for every call of \<open>sprintf\<close>.\<close>

lemma hex_fill_room:
  assumes "length arr = 2 * (i + length d) + 2 + k"
  shows "\<exists>tl. hex_fill arr i d = Inr (take (2 * i) arr @ map Some (hex_pairs d) @ tl) \<and>
           length tl = 2 + k"
  using assms
proof (induction d arbitrary: arr i)
  case Nil
  have "arr = take (2 * i) arr @ drop (2 * i) arr" by simp
  then show ?case using Nil
    by (intro exI [of _ "drop (2 * i) arr"]) simp
next
  case (Cons b d)
  let ?arr = "take (2 * i) arr @ map Some (sprintf_02x b) @ drop (2 * i + 4) arr"
  have len: "length (sprintf_02x b) = 4" by (simp add: sprintf_02x_def)
  have put: "mem_put arr (int (i * 2)) (map Some (sprintf_02x b)) = Inr ?arr"
    using Cons.prems len by (simp add: mem_put_def nat_mult_distrib mult.commute)
  have "length ?arr = length arr" using Cons.prems len by simp
  with Cons.prems have "length ?arr = 2 * (Suc i + length d) + 2 + k" by simp
  from Cons.IH [OF this] obtain tl where
    tl: "hex_fill ?arr (Suc i) d = Inr (take (2 * Suc i) ?arr @ map Some (hex_pairs d) @ tl)"
    "length tl = 2 + k" by blast
  have "take (2 * Suc i) ?arr =
      take (2 * i) arr @ map Some [hex_digit (unat b div 16), hex_digit (unat b mod 16)]"
    using Cons.prems by (simp add: sprintf_02x_def min_def)
  with tl have "hex_fill ?arr (Suc i) d =
      Inr (take (2 * i) arr @ map Some (hex_pairs (b # d)) @ tl)" by simp
  with tl(2) put show ?case by (intro exI [of _ tl]) simp
qed

lemma hex_fill_overflow:
  assumes "length arr < 2 * (i + length d) + 2" "d \<noteq> []"
  shows "hex_fill arr i d = Inl Undefined"
  using assms
proof (induction d arbitrary: arr i)
  case (Cons b d)
  show ?case
  proof (cases "mem_put arr (int (i * 2)) (map Some (sprintf_02x b))")
    case (Inl e)
    then show ?thesis by (auto simp: mem_put_def split: if_splits)
  next
    case (Inr arr')
    then have "length arr' = length arr" by (rule length_mem_put)
    moreover from Inr have "2 * i + 4 \<le> length arr"
      by (auto simp: mem_put_def sprintf_02x_def split: if_splits)
    ultimately show ?thesis
      using Inr Cons.prems Cons.IH [of arr' "Suc i"] by (cases d) auto
  qed
qed simp

section \<open>Properties\<close>

text \<open>\<open>operator==\<close> is equality of digests and false as soon as one side has none, so
  a default-constructed hash is not equal even to itself.\<close>

theorem hash_eq_iff:
  assumes "\<forall>d \<in> set_option a \<union> set_option b. length d = 20"
  shows "hash_eq a b \<longleftrightarrow> (a \<noteq> None \<and> a = b)"
  using assms by (cases a; cases b) auto

theorem hash_eq_iff_witness:
  "hash_eq (Some (replicate 20 3)) (Some (replicate 20 3)) \<longleftrightarrow>
     (Some (replicate 20 (3::byte)) \<noteq> None \<and> Some (replicate 20 (3::byte)) = Some (replicate 20 3))"
  by (rule hash_eq_iff) simp

lemma hex_str_array_ok:
  assumes "length d = 20" "42 \<le> n"
  shows "hex_str_array n (Some d) =
    Inr (concat (map (\<lambda>b. [37, hex_digit (unat b div 16), hex_digit (unat b mod 16)]) d))"
proof -
  from assms have "length (replicate n (None :: cell)) = 2 * (0 + length d) + 2 + (n - 42)" by simp
  from hex_fill_room [OF this] obtain tl where
    tl: "hex_fill (replicate n None) 0 d = Inr (map Some (hex_pairs d) @ tl)" "length tl = 2 + (n - 42)"
    by auto
  let ?arr = "map Some (hex_pairs d) @ Some 0 # drop 1 tl"
  have put: "mem_put (map Some (hex_pairs d) @ tl) 40 [Some 0] = Inr ?arr"
    using assms tl(2) by (simp add: mem_put_def)
  have "takeWhile (\<lambda>c. c \<noteq> Some 0) ?arr = map Some (hex_pairs d)"
    by (subst takeWhile_append2) (auto dest: hex_pairs_nonzero)
  with tl put show ?thesis
    by (simp add: hex_str_array_def percent_hex_pairs)
qed

lemma hex_str_undefined:
  assumes "length d = 20"
  shows "hex_str (Some d) = Inl Undefined"
proof -
  have "hex_fill (replicate 41 None) 0 d = Inl Undefined"
    using assms by (intro hex_fill_overflow) auto
  then show ?thesis by (simp add: hex_str_def hex_str_array_def)
qed

text \<open>with an array of at least 42 characters \<open>hex_str\<close> would print each byte of the
  digest as a percent sign and two hex digits.\<close>

theorem hex_str_array_text:
  assumes "length d = 20" "42 \<le> n"
  shows "hex_str_array n (Some d) =
    Inr (concat (map (\<lambda>b. [37, hex_digit (unat b div 16), hex_digit (unat b mod 16)]) d))"
  by (rule hex_str_array_ok [OF assms])

theorem hex_str_array_text_witness:
  "hex_str_array 42 (Some (replicate 20 171)) =
    Inr (concat (map (\<lambda>b :: byte. [37, hex_digit (unat b div 16), hex_digit (unat b mod 16)])
      (replicate 20 171)))"
  by (rule hex_str_array_text) simp_all

text \<open>with the 41 characters the code declares, the last \<open>sprintf\<close> writes its terminating
  zero one byte past the array, for every digest.\<close>

theorem hex_str_overflow:
  assumes "length d = 20"
  shows "hex_str (Some d) = Inl Undefined"
  by (rule hex_str_undefined [OF assms])

theorem hex_str_overflow_witness: "hex_str (Some (replicate 20 0)) = Inl Undefined"
  by (rule hex_str_overflow) simp

end
