(* ===== verification/Messages.thy ===== *)
theory Messages
  imports Serial Info_Hash
begin

text \<open>
  The messages of the peer wire protocol: the identifiers and structs of
  \<open>include/peer_connection_core.h\<close> and the functions of \<open>src/peer_connection.cpp\<close> and
  \<open>src/peer_connection_core.cpp\<close> that fill them. All members of the structs are arrays of \<open>uint8_t\<close>
  or \<open>char\<close>, so there is no padding, and the bytes of a struct are those of its members in order.
\<close>

section \<open>Identifiers\<close>

datatype message_id =
  CHOKE | UNCHOKE | INTERESTED | NOTINTERESTED | HAVE | BITFIELD | REQUEST | PIECE | CANCEL

definition message_id_byte :: "message_id \<Rightarrow> byte" where
  "message_id_byte m =
     (case m of CHOKE \<Rightarrow> 0 | UNCHOKE \<Rightarrow> 1 | INTERESTED \<Rightarrow> 2 | NOTINTERESTED \<Rightarrow> 3 | HAVE \<Rightarrow> 4
      | BITFIELD \<Rightarrow> 5 | REQUEST \<Rightarrow> 6 | PIECE \<Rightarrow> 7 | CANCEL \<Rightarrow> 8)"

text \<open>\<open>static_cast<message_id>\<close> of a signed \<open>char\<close>; a value that names no enumerator is \<open>None\<close>.\<close>

definition to_message_id :: "byte \<Rightarrow> message_id option" where
  "to_message_id b =
     (let v = sint b in
      if v = 0 then Some CHOKE else if v = 1 then Some UNCHOKE
      else if v = 2 then Some INTERESTED else if v = 3 then Some NOTINTERESTED
      else if v = 4 then Some HAVE else if v = 5 then Some BITFIELD
      else if v = 6 then Some REQUEST else if v = 7 then Some PIECE
      else if v = 8 then Some CANCEL else None)"

definition protocol_id :: "byte list" where
  "protocol_id = map of_char ''BitTorrent protocol''"

section \<open>Structs\<close>

record have_message =
  have_length :: "byte list"
  have_id :: byte
  have_index :: "byte list"

record interested_message =
  interested_length :: "byte list"
  interested_id :: byte

record req_message =
  req_length :: "byte list"
  req_id :: byte
  req_index :: "byte list"
  req_block_offset :: "byte list"
  req_block_length :: "byte list"

record handshake_s =
  proto_id_size :: byte
  hs_protocol_id :: "byte list"
  reserved_bytes :: "byte list"
  hs_info_hash :: "byte list"
  hs_peer_id :: "byte list"

definition have_bytes :: "have_message \<Rightarrow> byte list" where
  "have_bytes m = have_length m @ [have_id m] @ have_index m"

definition interested_bytes :: "interested_message \<Rightarrow> byte list" where
  "interested_bytes m = interested_length m @ [interested_id m]"

definition req_bytes :: "req_message \<Rightarrow> byte list" where
  "req_bytes m = req_length m @ [req_id m] @ req_index m @ req_block_offset m @ req_block_length m"

definition handshake_bytes :: "handshake_s \<Rightarrow> byte list" where
  "handshake_bytes m =
     [proto_id_size m] @ hs_protocol_id m @ reserved_bytes m @ hs_info_hash m @ hs_peer_id m"

lemmas struct_bytes = have_bytes_def interested_bytes_def req_bytes_def handshake_bytes_def

section \<open>Builders\<close>

text \<open>\<open>struct req_message\<close>, zeroed and filled field by field; 17 bytes, 13 after the length.\<close>

definition create_request_message :: "int \<Rightarrow> int \<Rightarrow> int \<Rightarrow> byte list res" where
  "create_request_message piece_index block_offset block_length =
     bindE (serialize_int (replicate 4 0) 3 (17 - 4)) (\<lambda>len.
     bindE (serialize_int (replicate 4 0) 3 piece_index) (\<lambda>index.
     bindE (serialize_int (replicate 4 0) 3 block_offset) (\<lambda>offset.
     bindE (serialize_int (replicate 4 0) 3 block_length) (\<lambda>blen.
     Inr (req_bytes \<lparr>req_length = len, req_id = message_id_byte REQUEST, req_index = index,
            req_block_offset = offset, req_block_length = blen\<rparr>)))))"

definition create_interested_message :: "byte list res" where
  "create_interested_message =
     bindE (serialize_int (replicate 4 0) 3 1) (\<lambda>len.
     Inr (interested_bytes \<lparr>interested_length = len, interested_id = message_id_byte INTERESTED\<rparr>))"

text \<open>\<open>struct have_message\<close> as \<open>send_have\<close> fills it.\<close>

definition create_have_message :: "int \<Rightarrow> byte list res" where
  "create_have_message index =
     bindE (serialize_int (replicate 4 0) 3 5) (\<lambda>len.
     bindE (serialize_int (replicate 4 0) 3 index) (\<lambda>idx.
     Inr (have_bytes \<lparr>have_length = len, have_id = message_id_byte HAVE, have_index = idx\<rparr>)))"

text \<open>
  \<open>struct handshake_s\<close> as \<open>send_handshake\<close> fills it: the digest is copied through a pointer
  asserted not to be null, the peer id is 20 bytes from \<open>id.c_str()\<close>, whose array ends one
  byte (the zero) after the string.
\<close>

definition create_handshake :: "info_hash \<Rightarrow> byte list \<Rightarrow> byte list res" where
  "create_handshake ih pid =
     bindE (assertE (ih \<noteq> None)) (\<lambda>_.
     bindE (mem_get (the ih) 0 20) (\<lambda>h.
     bindE (mem_get (pid @ [0]) 0 20) (\<lambda>peer_id.
     Inr (handshake_bytes \<lparr>proto_id_size = 19, hs_protocol_id = protocol_id,
            reserved_bytes = replicate 8 0, hs_info_hash = h, hs_peer_id = peer_id\<rparr>))))"

section \<open>Lemmas\<close>

lemma to_message_id_byte [simp]: "to_message_id (message_id_byte m) = Some m"
  by (cases m) (simp_all add: to_message_id_def message_id_byte_def)

lemma length_protocol_id [simp]: "length protocol_id = 19"
  by (simp add: protocol_id_def)

lemma serialize_field [simp]: "serialize_int (replicate 4 0) 3 v = Inr (be_bytes v)"
  by (rule serialize_int_full) simp

lemma create_request_eq:
  "create_request_message i off len =
     Inr (be_bytes 13 @ [message_id_byte REQUEST] @ be_bytes i @ be_bytes off @ be_bytes len)"
  by (simp add: create_request_message_def struct_bytes)

lemma create_have_eq:
  "create_have_message i = Inr (be_bytes 5 @ [message_id_byte HAVE] @ be_bytes i)"
  by (simp add: create_have_message_def struct_bytes)

lemma create_interested_eq:
  "create_interested_message = Inr (be_bytes 1 @ [message_id_byte INTERESTED])"
  by (simp add: create_interested_message_def struct_bytes)

lemma create_handshake_eq:
  assumes "length h = 20" "length pid = 20"
  shows "create_handshake (Some h) pid = Inr ([19] @ protocol_id @ replicate 8 0 @ h @ pid)"
  using assms by (simp add: create_handshake_def mem_get_def struct_bytes)

text \<open>Reading the fields of a message back, at the offsets of the struct.\<close>

definition field_at :: "nat \<Rightarrow> byte list \<Rightarrow> int res" where
  "field_at k msg = deserialize_int (drop k (map Some msg)) 4"

lemma field_at_be_bytes:
  assumes "- int_max - 1 \<le> v" "v \<le> int_max" "length pre = k"
  shows "field_at k (pre @ be_bytes v @ rest) = Inr v"
  unfolding field_at_def using assms by (intro be32.dec_skip) auto

section \<open>Properties\<close>

text \<open>a request message is 17 bytes, announces the 13 bytes that follow its length field,
  carries the identifier of REQUEST, and its three fields decode to the piece index, the
  block offset and the block length it was made from.\<close>

theorem request_message_fields:
  assumes "\<forall>v \<in> {i, off, len}. - int_max - 1 \<le> v \<and> v \<le> int_max"
  shows "\<exists>msg. create_request_message i off len = Inr msg \<and> length msg = 17 \<and>
           field_at 0 msg = Inr 13 \<and> to_message_id (msg ! 4) = Some REQUEST \<and>
           field_at 5 msg = Inr i \<and> field_at 9 msg = Inr off \<and> field_at 13 msg = Inr len"
proof -
  let ?msg = "be_bytes 13 @ [message_id_byte REQUEST] @ be_bytes i @ be_bytes off @ be_bytes len"
  have "field_at 0 ?msg = Inr 13"
    using field_at_be_bytes [of 13 "[]" 0] by simp
  moreover have "field_at 5 ?msg = Inr i"
    using field_at_be_bytes [of i "be_bytes 13 @ [message_id_byte REQUEST]" 5] assms by simp
  moreover have "field_at 9 ?msg = Inr off"
    using field_at_be_bytes [of off "be_bytes 13 @ [message_id_byte REQUEST] @ be_bytes i" 9] assms
    by simp
  moreover have "field_at 13 ?msg = Inr len"
    using field_at_be_bytes [of len
      "be_bytes 13 @ [message_id_byte REQUEST] @ be_bytes i @ be_bytes off" 13 "[]"] assms
    by simp
  ultimately show ?thesis by (simp add: create_request_eq nth_append)
qed

theorem request_message_fields_witness:
  "\<exists>msg. create_request_message 3 16384 100 = Inr msg \<and> length msg = 17 \<and>
     field_at 0 msg = Inr 13 \<and> to_message_id (msg ! 4) = Some REQUEST \<and>
     field_at 5 msg = Inr 3 \<and> field_at 9 msg = Inr 16384 \<and> field_at 13 msg = Inr 100"
  by (rule request_message_fields) simp

end
