(* ===== verification/Peer_Core.thy ===== *)
theory Peer_Core
  imports Recv_Buffer Messages
begin

text \<open>
  \<open>src/peer_connection_core.cpp\<close>: the transport half of a connection. It owns the receive
  buffer, starts the connection, sends the handshake, and turns every read of the socket into
  calls of the virtual \<open>on_receive\<close>, which is a function argument here (the derived class
  supplies it). The record is extensible, as the class is derived from.

  \<open>libuv\<close> is not modelled: a call of it is an entry of the ghost field \<open>io_log\<close>, and what it
  does later (a read, a connection, an error) is an argument of the callback it invokes. The
  pair of \<open>stream_data_t\<close> (chunk pointer, chunk size) is \<open>stream_data\<close>: the pointer is an
  offset into the receive buffer, \<open>None\<close> stands for \<open>socket->data == nullptr\<close>.
\<close>

section \<open>State\<close>

datatype p_state =
  READ_PROTOCOL_ID | READ_INFO_HASH | READ_PEER_ID | READ_MESSAGE_SIZE | READ_MESSAGE |
  NOT_IMPLEMENTED_YET

record peer_info =
  m_remote_id :: "byte list"
  m_remote_ip :: string
  m_remote_port :: string
  m_id :: "byte list"
  m_info_hash :: info_hash

datatype uv_action =
    Uv_tcp_connect int string int
  | Uv_write "byte list"
  | Uv_read_start
  | Uv_close

text \<open>\<open>m_state\<close> has no initialiser: \<open>None\<close> until \<open>send_handshake\<close> sets it.\<close>

record core =
  m_recv_buffer :: recv_buffer
  m_disconnect :: bool
  m_loop :: bool
  m_state :: "p_state option"
  m_peer_info :: peer_info
  m_socket :: bool
  stream_data :: "(int \<times> int) option"
  io_log :: "uv_action list"

text \<open>
  Assignment of a \<open>peer_info\<close> copies the strings, and the digest by its own assignment, which reads
  a null pointer when there is none.
\<close>

definition peer_info_assign :: "peer_info \<Rightarrow> peer_info res" where
  "peer_info_assign other = bindE (hash_copy (m_info_hash other)) (\<lambda>h. Inr (other\<lparr>m_info_hash := h\<rparr>))"

text \<open>The moving constructor takes all members over; what is left of the other is not used again.\<close>

definition peer_info_move :: "peer_info \<Rightarrow> peer_info" where
  "peer_info_move other = other\<lparr>m_info_hash := fst (hash_move (m_info_hash other))\<rparr>"

lemma peer_info_move_eq [simp]: "peer_info_move info = info"
  by (simp add: peer_info_move_def hash_move_def)

text \<open>
  The constructors; \<open>core_fresh\<close> is an object with its member initialisers. The moving one takes
  neither \<open>m_disconnect\<close> nor \<open>m_state\<close>, and copies the \<open>peer_info\<close>.
\<close>

definition core_fresh :: "peer_info \<Rightarrow> core" where
  "core_fresh info =
     \<lparr>m_recv_buffer = recv_buffer_default, m_disconnect = False, m_loop = False, m_state = None,
      m_peer_info = info, m_socket = False, stream_data = None, io_log = []\<rparr>"

definition core_new :: "peer_info \<Rightarrow> core res" where
  "core_new info = bindE (peer_info_assign info) (\<lambda>info. Inr (core_fresh info))"

definition core_move :: "'a core_scheme \<Rightarrow> core res" where
  "core_move other =
     bindE (peer_info_assign (m_peer_info other)) (\<lambda>info.
     Inr ((core_fresh info)\<lparr>m_recv_buffer := fst (recv_buffer_move recv_buffer_default (m_recv_buffer other)),
            m_loop := m_loop other, m_socket := m_socket other,
            stream_data := stream_data other, io_log := io_log other\<rparr>))"

section \<open>Connecting\<close>

definition log_io :: "uv_action \<Rightarrow> 'a core_scheme \<Rightarrow> 'a core_scheme" where
  "log_io a c = c\<lparr>io_log := io_log c @ [a]\<rparr>"

text \<open>\<open>std::stoi\<close> of the port, and \<open>ip_version\<close>, are parameters of \<open>start\<close>.\<close>

definition core_start ::
  "(string \<Rightarrow> int res) \<Rightarrow> (string \<Rightarrow> int) \<Rightarrow> bool \<Rightarrow> 'a core_scheme \<Rightarrow> 'a core_scheme res" where
  "core_start conv ip_ver loop c =
     bindE (assertE loop) (\<lambda>_.
     bindE (reserve (1024 * 16) (m_recv_buffer c)) (\<lambda>(_, rb).
     let c = c\<lparr>m_loop := loop, m_recv_buffer := rb\<rparr>;
         ip = m_remote_ip (m_peer_info c) in
     if ip_ver ip = 6 then
       bindE (conv (m_remote_port (m_peer_info c))) (\<lambda>port. Inr (log_io (Uv_tcp_connect 6 ip port) c))
     else if ip_ver ip = 4 then
       bindE (conv (m_remote_port (m_peer_info c))) (\<lambda>port. Inr (log_io (Uv_tcp_connect 4 ip port) c))
     else Inr c))"

definition send_handshake :: "info_hash \<Rightarrow> byte list \<Rightarrow> 'a core_scheme \<Rightarrow> 'a core_scheme res" where
  "send_handshake ih pid c =
     bindE (create_handshake ih pid) (\<lambda>hs.
     bindE (ensure (m_socket c)) (\<lambda>_.
     bindE (assertE (stream_data c \<noteq> None)) (\<lambda>_.
     bindE (reserve (1024 * 16) (m_recv_buffer c)) (\<lambda>(span, rb).
     bindE (reset 20 rb) (\<lambda>rb'.
     Inr (c\<lparr>m_recv_buffer := rb', stream_data := Some span, m_state := Some READ_PROTOCOL_ID,
            io_log := io_log c @ [Uv_write hs, Uv_read_start]\<rparr>))))))"

text \<open>
  \<open>on_connect\<close>: on success the stream data of the request becomes the socket's, with a null
  chunk of size 0, and the socket becomes the connection's.
\<close>

definition on_connect :: "int \<Rightarrow> 'a core_scheme \<Rightarrow> 'a core_scheme res" where
  "on_connect status c =
     (if status < 0 then Inr c
      else
        let c = c\<lparr>m_socket := True, stream_data := Some (0, 0)\<rparr> in
        send_handshake (m_info_hash (m_peer_info c)) (m_id (m_peer_info c)) c)"

section \<open>Receiving\<close>

text \<open>\<open>max_receive\<close> is read once before both tests: a full buffer grows twice.\<close>

definition setup_receive :: "'a core_scheme \<Rightarrow> 'a core_scheme res" where
  "setup_receive c =
     bindE (clean (m_recv_buffer c)) (\<lambda>rb0.
     bindE (max_receive rb0) (\<lambda>max0.
     bindE (if max0 = 0 then grow rb0 else Inr rb0) (\<lambda>rb1.
     bindE (if max0 = 0 then grow rb1 else Inr rb1) (\<lambda>rb2.
     bindE (max_receive rb2) (\<lambda>max1.
     bindE (reserve max1 rb2) (\<lambda>(chunk, rb3).
     bindE (ensure (m_socket c)) (\<lambda>_.
     bindE (assertE (stream_data c \<noteq> None)) (\<lambda>_.
     bindE (assertE (pos_at_end rb3)) (\<lambda>_.
     Inr (log_io Uv_read_start (c\<lparr>m_recv_buffer := rb3, stream_data := Some chunk\<rparr>)))))))))))"

text \<open>The loop of \<open>on_receive_internal\<close>; \<open>s\<close> is the state outside the connection.\<close>

function receive_loop ::
  "(int \<Rightarrow> 'a core_scheme \<times> 's \<Rightarrow> ('a core_scheme \<times> 's) res) \<Rightarrow> int \<Rightarrow>
   'a core_scheme \<times> 's \<Rightarrow> ('a core_scheme \<times> 's) res" where
  "receive_loop on_receive total_bytes (c, s) =
     bindE (advance_pos total_bytes (m_recv_buffer c)) (\<lambda>(passed_bytes, rb).
     bindE (on_receive passed_bytes (c\<lparr>m_recv_buffer := rb\<rparr>, s)) (\<lambda>cs.
     let total' = total_bytes - passed_bytes in
     if total' > 0 \<and> passed_bytes > 0 then receive_loop on_receive total' cs else Inr cs))"
  by pat_completeness auto
termination
  by (relation "measure (\<lambda>(f, t, cs). nat t)") auto

declare receive_loop.simps [simp del]

definition on_receive_internal ::
  "(int \<Rightarrow> 'a core_scheme \<times> 's \<Rightarrow> ('a core_scheme \<times> 's) res) \<Rightarrow> int \<Rightarrow>
   'a core_scheme \<times> 's \<Rightarrow> ('a core_scheme \<times> 's) res" where
  "on_receive_internal on_receive received_bytes cs =
     bindE (max_receive (m_recv_buffer (fst cs))) (\<lambda>mx.
     bindE (assertE (received_bytes \<le> mx)) (\<lambda>_.
     bindE (received received_bytes (m_recv_buffer (fst cs))) (\<lambda>rb.
     bindE (receive_loop on_receive received_bytes ((fst cs)\<lparr>m_recv_buffer := rb\<rparr>, snd cs)) (\<lambda>(c, s).
     if m_disconnect c then Inr (log_io Uv_close c, s)
     else bindE (setup_receive c) (\<lambda>c'. Inr (c', s))))))"

text \<open>
  \<open>on_read\<close>, with what \<open>libuv\<close> did before calling it: \<open>Inr bs\<close> for bytes stored in the chunk
  it was given by \<open>alloc_cb\<close> (at most the chunk's size), \<open>Inl err\<close> for a read error, which
  closes the socket and calls the virtual \<open>on_remote_close\<close>.
\<close>

definition alloc_cb :: "'a core_scheme \<Rightarrow> (int \<times> int) res" where
  "alloc_cb c = (case stream_data c of None \<Rightarrow> Inl Undefined | Some d \<Rightarrow> Inr d)"

definition on_read ::
  "(int \<Rightarrow> 'a core_scheme \<times> 's \<Rightarrow> ('a core_scheme \<times> 's) res) \<Rightarrow>
   ('a core_scheme \<times> 's \<Rightarrow> ('a core_scheme \<times> 's) res) \<Rightarrow> int + byte list \<Rightarrow>
   'a core_scheme \<times> 's \<Rightarrow> ('a core_scheme \<times> 's) res" where
  "on_read on_receive on_remote_close ev cs =
     (case ev of
        Inr bs \<Rightarrow>
          bindE (alloc_cb (fst cs)) (\<lambda>(off, n).
          bindE (socket_store off bs (m_recv_buffer (fst cs))) (\<lambda>rb.
          on_receive_internal on_receive (int (length bs))
            ((fst cs)\<lparr>m_recv_buffer := rb\<rparr>, snd cs)))
      | Inl err \<Rightarrow> on_remote_close (log_io Uv_close (fst cs), snd cs))"

section \<open>Lemmas\<close>

named_theorems core_simps \<open>projections of updated connections\<close>

lemma log_io_fields [simp, core_simps]:
  "m_recv_buffer (log_io a c) = m_recv_buffer c" "m_disconnect (log_io a c) = m_disconnect c"
  "m_loop (log_io a c) = m_loop c" "m_state (log_io a c) = m_state c"
  "m_peer_info (log_io a c) = m_peer_info c" "m_socket (log_io a c) = m_socket c"
  "stream_data (log_io a c) = stream_data c" "io_log (log_io a c) = io_log c @ [a]"
  "core.more (log_io a c) = core.more c"
  by (simp_all add: log_io_def)

text \<open>
  A connection is ready for a read when its window is fully advanced and its chunk is the
  free tail of the receive buffer.
\<close>

definition ready :: "'a core_scheme \<Rightarrow> byte list \<Rightarrow> bool" where
  "ready c w =
     (rb_holds (m_recv_buffer c) w \<and> m_recv_start (m_recv_buffer c) = 0 \<and>
      m_recv_pos (m_recv_buffer c) = int (length w) \<and>
      0 < m_message_size (m_recv_buffer c) \<and> m_socket c \<and>
      (\<exists>n. stream_data c = Some (m_recv_end (m_recv_buffer c), n) \<and> 0 < n \<and>
           m_recv_end (m_recv_buffer c) + n \<le> rb_cap (m_recv_buffer c)))"

lemma ready_cap: "ready c w \<Longrightarrow> 0 < rb_cap (m_recv_buffer c)"
  by (auto simp: ready_def rb_holds_def)

text \<open>
  A full buffer in the middle of a message is smaller than the message, so the first call of
  \<open>grow\<close> makes it as large as the message and the second adds half of that. The product in
  \<open>grow\<close> is an \<open>int\<close>: messages above a third of \<open>INT_MAX\<close> overflow it.
\<close>

lemma grow_twice_holds:
  assumes "rb_holds rb w" "0 < rb_cap rb" "rb_cap rb = int (length w)"
    "int (length w) < m_message_size rb" "m_message_size rb * 3 \<le> int_max"
  shows "\<exists>rb1 rb2. grow rb = Inr rb1 \<and> grow rb1 = Inr rb2 \<and> rb_holds rb2 w \<and>
           m_recv_start rb2 = m_recv_start rb \<and> m_recv_end rb2 = m_recv_end rb \<and>
           m_recv_pos rb2 = m_recv_pos rb \<and> m_message_size rb2 = m_message_size rb \<and>
           rb_cap rb2 = m_message_size rb * 3 div 2"
proof -
  obtain rb1 where rb1: "grow rb = Inr rb1" "rb_holds rb1 w" "m_recv_start rb1 = m_recv_start rb"
    "m_recv_end rb1 = m_recv_end rb" "m_recv_pos rb1 = m_recv_pos rb"
    "m_message_size rb1 = m_message_size rb" "rb_cap rb1 = m_message_size rb"
    using grow_holds [OF assms(1,2)] assms(3,4) by auto
  with assms have "0 < rb_cap rb1" "rb_cap rb1 * 3 \<le> int_max" by auto
  with grow_holds [OF rb1(2)] rb1 show ?thesis by auto
qed

lemma setup_receive_ready:
  assumes "rb_holds (m_recv_buffer c) w" "m_recv_pos (m_recv_buffer c) = int (length w)"
    "int (length w) < m_message_size (m_recv_buffer c)" "m_socket c" "stream_data c \<noteq> None"
    "0 < rb_cap (m_recv_buffer c)" "m_message_size (m_recv_buffer c) * 3 \<le> int_max"
  shows "\<exists>c'. setup_receive c = Inr c' \<and> ready c' w \<and>
           c' = c\<lparr>m_recv_buffer := m_recv_buffer c', stream_data := stream_data c',
                 io_log := io_log c @ [Uv_read_start]\<rparr> \<and>
           m_message_size (m_recv_buffer c') = m_message_size (m_recv_buffer c)"
proof -
  obtain rb0 where rb0: "clean (m_recv_buffer c) = Inr rb0" "rb_holds rb0 w" "m_recv_start rb0 = 0"
    "m_recv_end rb0 = int (length w)" "m_recv_pos rb0 = int (length w)"
    "m_message_size rb0 = m_message_size (m_recv_buffer c)"
    "rb_cap rb0 = rb_cap (m_recv_buffer c)"
    using clean_holds [OF assms(1)] assms(2) by auto
  let ?full = "rb_cap rb0 - int (length w) = 0"
  have max0: "max_receive rb0 = Inr (rb_cap rb0 - int (length w))"
    using max_receive_holds [OF rb0(2)] rb0(4) by simp
  have le: "int (length w) \<le> rb_cap rb0" using rb0(2,4) by (auto simp: rb_holds_def)
  have "\<exists>rb1 rb2. (if ?full then grow rb0 else Inr rb0) = Inr rb1 \<and>
      (if ?full then grow rb1 else Inr rb1) = Inr rb2 \<and>
      rb_holds rb2 w \<and> m_recv_start rb2 = 0 \<and> m_recv_end rb2 = int (length w) \<and>
      m_recv_pos rb2 = int (length w) \<and> m_message_size rb2 = m_message_size rb0 \<and>
      int (length w) < rb_cap rb2"
    using rb0 le assms(3,6,7) grow_twice_holds [OF rb0(2)] by (cases ?full) auto
  then obtain rb1 rb2 where
    g: "(if ?full then grow rb0 else Inr rb0) = Inr rb1"
      "(if ?full then grow rb1 else Inr rb1) = Inr rb2"
    and rb2: "rb_holds rb2 w" "m_recv_start rb2 = 0" "m_recv_end rb2 = int (length w)"
      "m_recv_pos rb2 = int (length w)" "m_message_size rb2 = m_message_size rb0"
      "int (length w) < rb_cap rb2"
    by blast
  have max1: "max_receive rb2 = Inr (rb_cap rb2 - int (length w))"
    using max_receive_holds [OF rb2(1)] rb2(3) by simp
  have res: "reserve (rb_cap rb2 - int (length w)) rb2 =
      Inr ((int (length w), rb_cap rb2 - int (length w)), rb2)"
    using reserve_holds [OF rb2(1,2), of "rb_cap rb2 - int (length w)"] rb2 rb_holds_cap [OF rb2(1)]
    by auto
  let ?c = "c\<lparr>m_recv_buffer := rb2,
              stream_data := Some (int (length w), rb_cap rb2 - int (length w)),
              io_log := io_log c @ [Uv_read_start]\<rparr>"
  have "setup_receive c = Inr ?c"
    using rb0(1) max0 g max1 res assms(4,5) rb2
    by (simp add: setup_receive_def pos_at_end_def log_io_def)
  then show ?thesis
    using rb2 assms rb0 by (auto simp: ready_def)
qed

section \<open>Properties\<close>

text \<open>C33: a connection that is started towards an IPv4 address and then connected sends the 68-byte handshake of its
  digest and id, and is ready for the first read with an empty window, waiting for the 20
  bytes of the protocol identifier.\<close>

theorem connect_sends_handshake:
  assumes "m_recv_buffer c = recv_buffer_default" "m_info_hash (m_peer_info c) = Some h"
    "length h = 20" "length (m_id (m_peer_info c)) = 20" "0 \<le> status"
    "conv (m_remote_port (m_peer_info c)) = Inr port"
    "ip_ver (m_remote_ip (m_peer_info c)) = 4"
  shows "\<exists>c1 c2. core_start conv ip_ver True c = Inr c1 \<and> on_connect status c1 = Inr c2 \<and>
           ready c2 [] \<and> m_state c2 = Some READ_PROTOCOL_ID \<and>
           m_message_size (m_recv_buffer c2) = 20 \<and>
           io_log c2 = io_log c @
             [Uv_tcp_connect 4 (m_remote_ip (m_peer_info c)) port,
              Uv_write ([19] @ protocol_id @ replicate 8 0 @ h @ m_id (m_peer_info c)),
              Uv_read_start]"
proof -
  have d: "m_recv_start recv_buffer_default = 0" "m_recv_end recv_buffer_default = 0"
    "m_recv_pos recv_buffer_default = 0" "m_message_size recv_buffer_default = 0"
    by (simp_all add: recv_buffer_default_def)
  obtain rb1 where rb1: "reserve 16384 recv_buffer_default = Inr ((0, 16384), rb1)"
    "rb_holds rb1 []" "m_recv_start rb1 = 0" "m_recv_end rb1 = 0" "m_recv_pos rb1 = 0"
    "m_message_size rb1 = 0" "16384 \<le> rb_cap rb1"
    using reserve_holds [OF rb_holds_default, of 16384] d by auto
  have r2: "reserve 16384 rb1 = Inr ((0, 16384), rb1)"
    using reserve_holds [OF rb1(2), of 16384] rb1 by auto
  obtain rb2 where rb2: "reset 20 rb1 = Inr rb2" "rb_holds rb2 []" "m_recv_pos rb2 = 0"
    "m_message_size rb2 = 20" "rb_cap rb2 = rb_cap rb1"
    using reset_holds [OF rb1(2), of 20] rb1 by auto
  have rb2': "m_recv_start rb2 = 0" "m_recv_end rb2 = 0"
    using rb2(1) rb1 by (auto simp: reset_def)
  have "core_start conv ip_ver True c =
      Inr (log_io (Uv_tcp_connect 4 (m_remote_ip (m_peer_info c)) port)
            (c\<lparr>m_loop := True, m_recv_buffer := rb1\<rparr>))" (is "_ = Inr ?c1")
    using assms rb1(1) by (simp add: core_start_def)
  moreover have "on_connect status ?c1 =
      Inr (?c1\<lparr>m_socket := True, m_recv_buffer := rb2, stream_data := Some (0, 16384),
               m_state := Some READ_PROTOCOL_ID,
               io_log := io_log ?c1 @
                 [Uv_write ([19] @ protocol_id @ replicate 8 0 @ h @ m_id (m_peer_info c)),
                  Uv_read_start]\<rparr>)" (is "_ = Inr ?c2")
    using assms r2 rb2(1)
    by (simp add: on_connect_def send_handshake_def create_handshake_eq log_io_def)
  moreover have "ready ?c2 []"
    using rb2 rb2' rb1(7) by (simp add: ready_def)
  ultimately show ?thesis using rb2(4) by auto
qed

definition sample_info :: peer_info where
  "sample_info = \<lparr>m_remote_id = replicate 20 2, m_remote_ip = ''10.0.0.1'', m_remote_port = ''80'',
     m_id = replicate 20 1, m_info_hash = Some (replicate 20 3)\<rparr>"

definition sample_core :: core where
  "sample_core = \<lparr>m_recv_buffer = recv_buffer_default, m_disconnect = False, m_loop = False,
     m_state = None, m_peer_info = sample_info, m_socket = False, stream_data = None, io_log = []\<rparr>"

theorem connect_sends_handshake_witness:
  "\<exists>c1 c2. core_start (\<lambda>_. Inr 80) (\<lambda>_. 4) True sample_core = Inr c1 \<and>
     on_connect 0 c1 = Inr c2 \<and> ready c2 [] \<and> m_state c2 = Some READ_PROTOCOL_ID \<and>
     m_message_size (m_recv_buffer c2) = 20 \<and>
     io_log c2 = io_log sample_core @
       [Uv_tcp_connect 4 (m_remote_ip (m_peer_info sample_core)) 80,
        Uv_write ([19] @ protocol_id @ replicate 8 0 @ replicate 20 3 @
                  m_id (m_peer_info sample_core)),
        Uv_read_start]"
  by (rule connect_sends_handshake) (simp_all add: sample_core_def sample_info_def)

end
