(* ===== verification/Bitfield.thy ===== *)
theory Bitfield
  imports Prelude "HOL-Library.Signed_Division"
begin

unbundle bit_operations_syntax

text \<open>
  \<open>src/bitfield.cpp\<close>: the set of pieces a peer has, as the bytes of its bitfield message.
  \<open>m_bitfield\<close> is \<open>None\<close> for a null pointer. A \<open>malloc\<close> of more than \<open>PTRDIFF_MAX\<close> bytes
  fails, as it does on every platform the client runs on.
\<close>

section \<open>State and operations\<close>

record bitfield =
  m_bitfield :: "cell list option"
  bf_size :: int

definition bitfield_default :: bitfield where
  "bitfield_default = \<lparr>m_bitfield = None, bf_size = 0\<rparr>"

text \<open>\<open>bitfield(begin, size)\<close>: \<open>src\<close> are the cells from \<open>begin\<close> on; \<open>n\<close> is a \<open>size_t\<close>.\<close>

definition bitfield_new :: "cell list \<Rightarrow> int \<Rightarrow> bitfield res" where
  "bitfield_new src n =
     bindE (assertE (n > 0)) (\<lambda>_.
     if address_space \<le> n then Inl (Throw Bad_alloc)
     else bindE (mem_get src 0 n) (\<lambda>cs. Inr \<lparr>m_bitfield = Some cs, bf_size = n\<rparr>))"

definition bitfield_empty :: "bitfield \<Rightarrow> bool" where
  "bitfield_empty b = (m_bitfield b = None)"

text \<open>
  \<open>has_piece\<close>: quotient and remainder are those of C++ (towards zero), a shift by a negative
  amount is undefined, the byte is a signed \<open>char\<close>.
\<close>

definition has_piece :: "bitfield \<Rightarrow> int \<Rightarrow> bool res" where
  "has_piece b piece_index =
     (case m_bitfield b of
        None \<Rightarrow> Inr False
      | Some m \<Rightarrow>
          let byte_offset = piece_index sdiv 8; bit_offset = piece_index smod 8 in
          bindE (read_bytes m byte_offset 1) (\<lambda>bs.
          bindE (ensure (0 \<le> bit_offset)) (\<lambda>_.
          Inr (drop_bit (nat bit_offset) (sint (hd bs)) AND 1 = 1))))"

text \<open>Move assignment and move construction: the new object and what is left of the other.\<close>

definition bitfield_move :: "bitfield \<Rightarrow> bitfield \<Rightarrow> bitfield \<times> bitfield" where
  "bitfield_move this other =
     (this\<lparr>m_bitfield := m_bitfield other, bf_size := bf_size other\<rparr>,
      other\<lparr>m_bitfield := None, bf_size := 0\<rparr>)"

text \<open>\<open>x = std::move(x)\<close>: the same object is read and then cleared.\<close>

definition bitfield_self_move :: "bitfield \<Rightarrow> bitfield" where
  "bitfield_self_move this =
     (let t = this\<lparr>m_bitfield := m_bitfield this, bf_size := bf_size this\<rparr> in
      t\<lparr>m_bitfield := None, bf_size := 0\<rparr>)"

text \<open>
  Copy assignment copies \<open>m_size\<close> bytes of the object representation, starting at the pointer
  member (8 bytes, followed by the 8 bytes of \<open>m_size\<close>): nothing for size 0, a part of the
  pointer below 8, the whole pointer (then shared by the two objects) up to 16, past the end
  of the object above.
\<close>

definition bitfield_copy_assign :: "bitfield \<Rightarrow> bitfield \<Rightarrow> bitfield res" where
  "bitfield_copy_assign this other =
     (let n = bf_size other; t = this\<lparr>bf_size := n\<rparr> in
      if n = 0 then Inr t
      else if 8 \<le> n \<and> n \<le> 16 then Inr (t\<lparr>m_bitfield := m_bitfield other\<rparr>)
      else Inl Undefined)"

section \<open>Lemmas\<close>

definition bf_holds :: "bitfield \<Rightarrow> byte list \<Rightarrow> bool" where
  "bf_holds b bs = (m_bitfield b = Some (map Some bs) \<and> bf_size b = int (length bs))"

lemma bitfield_new_holds:
  assumes "bs \<noteq> []" "take (length bs) src = map Some bs" "int (length bs) \<le> int_max"
  shows "\<exists>b. bitfield_new src (int (length bs)) = Inr b \<and> bf_holds b bs"
proof -
  have "length (take (length bs) src) = length bs" using assms(2) by simp
  then have "length bs \<le> length src" by (simp split: if_splits)
  with assms show ?thesis
    by (auto simp: bitfield_new_def mem_get_def bf_holds_def)
qed

lemma sint_byte_bit: "n < 8 \<Longrightarrow> (drop_bit n (sint (b :: byte)) AND 1 = 1) = bit b n"
  by (auto simp: and_one_eq odd_iff_mod_2_eq_one [symmetric] bit_iff_odd_drop_bit [symmetric]
      bit_sint_iff min_def)

lemma sdiv_smod_nonneg:
  assumes "0 \<le> (i :: int)"
  shows "i sdiv 8 = i div 8" "i smod 8 = i mod 8"
  using assms by (simp_all add: signed_divide_int_def signed_modulo_int_def sgn_if)

text \<open>on a bitfield of \<open>bs\<close>, \<open>has_piece\<close> of an index inside it reads bit \<open>i mod 8\<close> of byte
  \<open>i div 8\<close>, counted from the least significant bit; an index outside reads past the
  allocation.\<close>

theorem has_piece_bit:
  assumes "bf_holds b bs" "0 \<le> i"
  shows "has_piece b i =
    (if i < 8 * int (length bs) then Inr (bit (bs ! nat (i div 8)) (nat (i mod 8)))
     else Inl Undefined)"
proof (cases "i < 8 * int (length bs)")
  case True
  with assms(2) have q: "0 \<le> i div 8" "i div 8 + 1 \<le> int (length bs)" by linarith+
  then have lt: "nat (i div 8) < length bs" by linarith
  have "take 1 (drop (nat (i div 8)) (map Some bs)) = [Some (bs ! nat (i div 8))]"
    using lt by (simp add: take_Suc_conv_app_nth)
  with q have "read_bytes (map Some bs) (i div 8) 1 = Inr [bs ! nat (i div 8)]"
    by (simp add: read_bytes_eq)
  moreover have "nat (i mod 8) < 8" by simp
  ultimately show ?thesis
    using assms True
    by (simp add: has_piece_def bf_holds_def sdiv_smod_nonneg sint_byte_bit)
next
  case False
  with assms(2) have "\<not> i div 8 + 1 \<le> int (length bs)" by linarith
  with False assms show ?thesis
    by (simp add: has_piece_def bf_holds_def sdiv_smod_nonneg read_bytes_def mem_get_def)
qed

theorem has_piece_bit_witness:
  "has_piece \<lparr>m_bitfield = Some [Some 5], bf_size = 1\<rparr> 2 = Inr True"
  using has_piece_bit [of "\<lparr>m_bitfield = Some [Some 5], bf_size = 1\<rparr>" "[5]" 2]
  by (simp add: bf_holds_def bit_numeral_rec)

text \<open>\<open>has_piece\<close> orders the bits of a byte from the least significant one, so for the
  bitfield byte 128, which by the protocol announces piece 0 only, it answers piece 7.\<close>

theorem has_piece_bit_order:
  assumes "bf_holds b [128]" "0 \<le> i" "i < 8"
  shows "has_piece b i = Inr (i = 7)"
proof -
  have "bit (128 :: byte) n \<longleftrightarrow> n = 7" if "n < 8" for n
    using that by (auto simp: less_Suc_eq numeral_eq_Suc bit_0 bit_Suc)
  with assms show ?thesis by (simp add: has_piece_bit) linarith
qed

theorem has_piece_bit_order_witness:
  "has_piece \<lparr>m_bitfield = Some (map Some [128]), bf_size = 1\<rparr> 0 = Inr (0 = (7::int))"
  by (rule has_piece_bit_order) (simp_all add: bf_holds_def)

end
