(* ===== verification/Text.thy ===== *)
theory Text
  imports Prelude
begin

text \<open>
  Byte strings: the literals of the source as bytes, the search for a pattern that two functions of
  the source write out, and what it finds.

  \<^item> \<open>ascii\<close> is a string literal as a list of bytes.
  \<^item> \<open>matches_at\<close> and \<open>first_match\<close> specify a first occurrence.
  \<^item> the locale \<open>naive_search\<close> is the contract of a search loop: from position \<open>i\<close> with \<open>j\<close>
    characters of the pattern matched it either advances, stops behind a full match, or goes back to
    the position after the one where the partial match began. Its lemma says that the loop finds the
    first occurrence that ends before its bound.
\<close>

definition ascii :: "string \<Rightarrow> byte list" where
  "ascii s = map of_char s"

text \<open>The other direction, for bytes that become a \<open>std::string\<close> of the peer information.\<close>

definition text_of :: "byte list \<Rightarrow> string" where
  "text_of bs = map (\<lambda>b. char_of (unat b)) bs"

lemma ascii_simps [simp]: "ascii [] = []" "ascii (c # cs) = of_char c # ascii cs" "length (ascii s) = length s"
  by (simp_all add: ascii_def)

lemma length_text_of [simp]: "length (text_of bs) = length bs"
  by (simp add: text_of_def)

lemma unat_of_char: "unat (of_char c :: byte) = of_char c"
proof -
  have "(of_char c :: byte) = of_nat (of_char c)" by (simp only: of_nat_of_char)
  then show ?thesis using of_char_mod_256 [of c, where 'a = nat] by (simp add: unat_of_nat)
qed

lemma text_of_ascii [simp]: "text_of (ascii s) = s"
  by (induction s) (simp_all add: text_of_def ascii_def unat_of_char)

section \<open>Decimal numbers\<close>

definition isdigit :: "byte \<Rightarrow> bool" where
  "isdigit c = (48 \<le> c \<and> c \<le> 57)"

text \<open>Decimal digits, as the encoders of the formats write them, and \<open>std::to_string\<close>.\<close>

fun digits :: "nat \<Rightarrow> byte list" where
  "digits n = (if n < 10 then [of_nat (48 + n)] else digits (n div 10) @ [of_nat (48 + n mod 10)])"

declare digits.simps [simp del]

definition to_string :: "int \<Rightarrow> byte list" where
  "to_string v = (if v < 0 then 45 # digits (nat (- v)) else digits (nat v))"

text \<open>
  \<open>std::stoi\<close>: white space, a sign and the digits that follow; no digit throws, and so does a value
  outside \<open>int\<close>.
\<close>

definition isspace :: "byte \<Rightarrow> bool" where
  "isspace c = (c = 32 \<or> (9 \<le> c \<and> c \<le> 13))"

definition value_of :: "int \<Rightarrow> byte list \<Rightarrow> int" where
  "value_of v cs = foldl (\<lambda>v c. v * 10 + (sint c - 48)) v cs"

definition stoi :: "byte list \<Rightarrow> int res" where
  "stoi s =
     (let t = dropWhile isspace s;
          neg = (t \<noteq> [] \<and> hd t = 45);
          u = (if t \<noteq> [] \<and> (hd t = 45 \<or> hd t = 43) then tl t else t);
          ds = takeWhile isdigit u;
          v = (if neg then - value_of 0 ds else value_of 0 ds) in
      if ds = [] then Inl (Throw (Invalid_argument ''stoi''))
      else if - int_max - 1 \<le> v \<and> v \<le> int_max then Inr v
      else Inl (Throw Out_of_range))"

text \<open>The characters of the digits.\<close>

lemma digit_char:
  assumes "n < 10"
  shows "isdigit (of_nat (48 + n))" "sint (of_nat (48 + n) :: byte) = int (48 + n)"
    "(of_nat (48 + n) :: byte) \<noteq> 101" "(of_nat (48 + n) :: byte) \<noteq> 58"
    "(of_nat (48 + n) :: byte) \<noteq> 255" "(of_nat (48 + n) :: byte) \<noteq> 105"
    "(of_nat (48 + n) :: byte) \<noteq> 108" "(of_nat (48 + n) :: byte) \<noteq> 100"
proof -
  from assms have "n \<in> {0, 1, 2, 3, 4, 5, 6, 7, 8, 9}" by auto
  then show "isdigit (of_nat (48 + n))" "sint (of_nat (48 + n) :: byte) = int (48 + n)"
    "(of_nat (48 + n) :: byte) \<noteq> 101" "(of_nat (48 + n) :: byte) \<noteq> 58"
    "(of_nat (48 + n) :: byte) \<noteq> 255" "(of_nat (48 + n) :: byte) \<noteq> 105"
    "(of_nat (48 + n) :: byte) \<noteq> 108" "(of_nat (48 + n) :: byte) \<noteq> 100"
    by (auto simp: isdigit_def)
qed

lemma digits_nonempty: "digits n \<noteq> []"
  by (subst digits.simps) simp

lemma digits_head: "\<exists>k < 10. \<exists>cs. digits n = of_nat (48 + k) # cs"
proof (induction n rule: digits.induct)
  case (1 n)
  then show ?case by (subst digits.simps, cases "n < 10") auto
qed

lemma isdigit_cases:
  assumes "isdigit c"
  shows "c \<in> {48, 49, 50, 51, 52, 53, 54, 55, 56, 57}"
proof -
  have "48 \<le> unat c" "unat c \<le> 57" using assms by (auto simp: isdigit_def word_le_nat_alt)
  then have "unat c = 48 \<or> unat c = 49 \<or> unat c = 50 \<or> unat c = 51 \<or> unat c = 52 \<or>
      unat c = 53 \<or> unat c = 54 \<or> unat c = 55 \<or> unat c = 56 \<or> unat c = 57"
    by presburger
  then show ?thesis by (auto simp: word_unat_eq_iff)
qed

lemma digit_sint: "isdigit c \<Longrightarrow> 48 \<le> sint c \<and> sint c \<le> 57"
  by (drule isdigit_cases) auto

lemma value_of_digits: "value_of 0 (digits n) = int n"
proof (induction n rule: digits.induct)
  case (1 n)
  show ?case
  proof (cases "n < 10")
    case True
    then show ?thesis using digit_char(2) [of n] by (subst digits.simps) (simp add: value_of_def)
  next
    case False
    have "value_of 0 (digits (n div 10) @ [of_nat (48 + n mod 10)]) = int (n div 10) * 10 + int (n mod 10)"
      using "1.IH" [OF False] digit_char(2) [of "n mod 10"] by (simp add: value_of_def)
    then show ?thesis using False by (subst digits.simps) (simp add: zdiv_int zmod_int)
  qed
qed

lemma digits_isdigit: "list_all isdigit (digits n)"
proof (induction n rule: digits.induct)
  case (1 n)
  then show ?case using digit_char(1) [of n] digit_char(1) [of "n mod 10"] by (subst digits.simps) auto
qed

lemma stoi_digits:
  assumes "int n \<le> int_max"
  shows "stoi (digits n) = Inr (int n)"
proof -
  obtain c cs where c: "digits n = c # cs" using digits_nonempty [of n] by (cases "digits n") auto
  have d: "isdigit c" using digits_isdigit [of n] by (simp add: c)
  then have "\<not> isspace c" "c \<noteq> 45" "c \<noteq> 43" by (auto dest!: isdigit_cases simp: isspace_def)
  moreover have "takeWhile isdigit (digits n) = digits n"
    using digits_isdigit [of n] by (simp add: takeWhile_eq_all_conv list_all_iff)
  ultimately show ?thesis using value_of_digits [of n] assms by (simp add: stoi_def c)
qed

section \<open>Parts of a buffer\<close>

text \<open>Reading a buffer whose rest is known.\<close>

lemma drop_eq_parts:
  assumes "drop i b = xs @ ys" "i \<le> length b"
  shows "i + length xs \<le> length b" "drop (i + length xs) b = ys"
    "\<And>k. k < length xs \<Longrightarrow> b ! (i + k) = xs ! k"
proof -
  have "length b - i = length xs + length ys" using arg_cong [OF assms(1), of length] by simp
  then show "i + length xs \<le> length b" using assms(2) by simp
  have "drop (length xs) (drop i b) = ys" by (simp add: assms(1))
  then show "drop (i + length xs) b = ys" by (simp add: add.commute)
  show "b ! (i + k) = xs ! k" if "k < length xs" for k
    using that assms by (metis nth_append nth_drop)
qed

section \<open>First occurrence of a pattern\<close>

definition matches_at :: "'a list \<Rightarrow> 'a list \<Rightarrow> nat \<Rightarrow> bool" where
  "matches_at pat b k = (k + length pat \<le> length b \<and> take (length pat) (drop k b) = pat)"

text \<open>The first match in \<open>b\<close> starts at \<open>k\<close>.\<close>

definition first_match :: "'a list \<Rightarrow> 'a list \<Rightarrow> nat \<Rightarrow> bool" where
  "first_match pat b k = (matches_at pat b k \<and> (\<forall>l < k. \<not> matches_at pat b l))"

lemma matches_at_nth:
  "matches_at pat b k \<longleftrightarrow> k + length pat \<le> length b \<and> (\<forall>t < length pat. b ! (k + t) = pat ! t)"
  by (auto simp: matches_at_def list_eq_iff_nth_eq)

lemma matches_at_append: "matches_at pat (xs @ pat @ ys) (length xs)"
  by (simp add: matches_at_def)

lemma matches_at_take: "matches_at pat (take n b) k \<longleftrightarrow> matches_at pat b k \<and> k + length pat \<le> n"
  by (auto simp: matches_at_nth)

text \<open>For closed terms.\<close>

lemma first_match_upt: "first_match pat b k \<longleftrightarrow> matches_at pat b k \<and> list_all (\<lambda>l. \<not> matches_at pat b l) [0..<k]"
  by (auto simp: first_match_def list_all_iff)

lemma first_match_unique: "first_match pat b k \<Longrightarrow> first_match pat b l \<Longrightarrow> k = l"
  by (metis first_match_def linorder_neqE_nat)

section \<open>The search loop\<close>

text \<open>
  \<open>run n i j\<close> is the result of the loop at index \<open>i\<close> with \<open>j\<close> matched characters, up to index
  \<open>n\<close>; \<open>found e\<close> is its result for a match that ends at index \<open>e\<close>, \<open>missing\<close> for none.
\<close>

locale naive_search =
  fixes run :: "'a list \<Rightarrow> 'a list \<Rightarrow> nat \<Rightarrow> nat \<Rightarrow> nat \<Rightarrow> 'r"
    and found :: "'a list \<Rightarrow> nat \<Rightarrow> 'r"
    and missing :: 'r
  assumes stop: "n \<le> i \<Longrightarrow> run b pat n i j = missing"
    and full: "i < n \<Longrightarrow> j \<le> i \<Longrightarrow> i < length b \<Longrightarrow> j < length pat \<Longrightarrow> b ! i = pat ! j \<Longrightarrow> Suc j = length pat \<Longrightarrow>
      run b pat n i j = found pat i"
    and advance: "i < n \<Longrightarrow> j \<le> i \<Longrightarrow> i < length b \<Longrightarrow> j < length pat \<Longrightarrow> b ! i = pat ! j \<Longrightarrow> Suc j < length pat \<Longrightarrow>
      run b pat n i j = run b pat n (Suc i) (Suc j)"
    and retreat: "i < n \<Longrightarrow> j \<le> i \<Longrightarrow> i < length b \<Longrightarrow> j < length pat \<Longrightarrow> b ! i \<noteq> pat ! j \<Longrightarrow>
      run b pat n i j = run b pat n (Suc i - j) 0"
begin

lemma run_from:
  assumes "n \<le> length b" "j < length pat" "\<forall>t < j. b ! (s + t) = pat ! t"
    "\<forall>l < s. \<not> matches_at pat (take n b) l"
  shows "(\<exists>k. first_match pat (take n b) k \<and> run b pat n (s + j) j = found pat (k + length pat - 1)) \<or>
    (\<forall>k. \<not> matches_at pat (take n b) k) \<and> run b pat n (s + j) j = missing"
  using assms
proof (induction "(n - s, length pat - j)" arbitrary: s j rule: wf_induct_rule [OF wf_lex_prod [OF wf_less_than wf_less_than]])
  case (1 s j)
  show ?case
  proof (cases "s + j < n")
    case False
    have "\<not> matches_at pat (take n b) k" for k
      using "1.prems" False by (cases "k < s") (auto simp: matches_at_def)
    then show ?thesis using False stop by simp
  next
    case True
    then have i: "s + j < n" "j \<le> s + j" "s + j < length b" using "1.prems"(1) by auto
    show ?thesis
    proof (cases "b ! (s + j) = pat ! j")
      case eq: True
      then have upto: "\<forall>t < Suc j. b ! (s + t) = pat ! t" using "1.prems"(3) less_Suc_eq by auto
      show ?thesis
      proof (cases "Suc j = length pat")
        case last: True
        have "first_match pat (take n b) s"
          using "1.prems" upto last i(1) unfolding first_match_def matches_at_nth by auto
        moreover have "s + j = s + length pat - 1" using last by auto
        ultimately show ?thesis using full [OF i "1.prems"(2) eq last] by auto
      next
        case False
        then have j: "Suc j < length pat" using "1.prems"(2) by simp
        have "((n - s, length pat - Suc j), (n - s, length pat - j)) \<in> less_than <*lex*> less_than"
          using j by auto
        with "1.hyps" [of s "Suc j"] "1.prems"(1,4) j upto advance [OF i "1.prems"(2) eq j]
        show ?thesis by simp
      qed
    next
      case ne: False
      have "\<not> matches_at pat (take n b) s" using ne i "1.prems"(2) by (auto simp: matches_at_nth)
      then have none: "\<forall>l < Suc s. \<not> matches_at pat (take n b) l" using "1.prems"(4) less_Suc_eq by auto
      have "((n - Suc s, length pat - 0), (n - s, length pat - j)) \<in> less_than <*lex*> less_than"
        using i(1) by auto
      moreover have "pat \<noteq> []" using "1.prems"(2) by auto
      ultimately show ?thesis
        using "1.hyps" [of "Suc s" 0] "1.prems"(1,2) none retreat [OF i "1.prems"(2) ne]
        by (simp add: Suc_diff_le)
    qed
  qed
qed

lemma run_first:
  assumes "n \<le> length b" "pat \<noteq> []"
  shows "(\<exists>k. first_match pat (take n b) k \<and> run b pat n 0 0 = found pat (k + length pat - 1)) \<or>
    (\<forall>k. \<not> matches_at pat (take n b) k) \<and> run b pat n 0 0 = missing"
  using run_from [of n b 0 pat 0] assms by simp

lemma run_found:
  assumes "n \<le> length b" "pat \<noteq> []" "first_match pat (take n b) k"
  shows "run b pat n 0 0 = found pat (k + length pat - 1)"
  using run_first [OF assms(1,2)] assms(3) first_match_unique by (metis first_match_def)

lemma run_missing:
  assumes "n \<le> length b" "pat \<noteq> []" "\<forall>k. \<not> matches_at pat (take n b) k"
  shows "run b pat n 0 0 = missing"
  using run_first [OF assms(1,2)] assms(3) by (auto simp: first_match_def)

end

end
