(* ===== verification/Single.thy ===== *)
theory Single
  imports Prelude Complex_Main
begin

text \<open>
  The type \<open>float\<close> of the source: IEEE single precision with rounding to the nearest value, ties to
  even. A value is its rational number; the numbers of the source stay far from the limits of the
  exponent, which are left out. \<open>single\<close> rounds, and every operation of the source is the rational
  operation followed by \<open>single\<close>.
\<close>

section \<open>Rounding\<close>

fun bit_length :: "nat \<Rightarrow> nat" where
  "bit_length n = (if n = 0 then 0 else Suc (bit_length (n div 2)))"

declare bit_length.simps [simp del]

definition two_to :: "int \<Rightarrow> rat" where
  "two_to k = (if 0 \<le> k then 2 ^ nat k else 1 / 2 ^ nat (- k))"

definition round_even :: "rat \<Rightarrow> int" where
  "round_even q =
     (let f = \<lfloor>q\<rfloor>; r = q - of_int f in
      if r < 1 / 2 then f else if 1 / 2 < r then f + 1 else if even f then f else f + 1)"

text \<open>The exponent of the last place of a number that is not zero: 24 places are kept.\<close>

definition last_place :: "rat \<Rightarrow> int" where
  "last_place x =
     (let (n, d) = quotient_of \<bar>x\<bar>; e = int (bit_length (nat n)) - int (bit_length (nat d)) - 24 in
      if \<bar>x\<bar> < two_to (e + 24) then e else e + 1)"

definition single :: "rat \<Rightarrow> rat" where
  "single x = (if x = 0 then 0 else of_int (round_even (x / two_to (last_place x))) * two_to (last_place x))"

text \<open>The conversion to \<open>int\<close> drops the fraction.\<close>

definition chop :: "rat \<Rightarrow> int" where
  "chop x = (if 0 \<le> x then \<lfloor>x\<rfloor> else \<lceil>x\<rceil>)"

section \<open>Exact numbers\<close>

lemma two_to_pos [simp]: "0 < two_to k"
  by (simp add: two_to_def)

lemma two_to_add: "two_to (a + b) = two_to a * two_to b"
proof -
  have eq: "two_to k = 2 powi k" for k by (simp add: two_to_def power_int_def inverse_eq_divide power_divide)
  show ?thesis unfolding eq by (simp add: power_int_add)
qed

lemma two_to_diff: "two_to (a - b) = two_to a / two_to b"
  using two_to_add [of "a - b" b] two_to_pos [of b] by (simp add: less_imp_neq [symmetric])

lemma two_to_nat [simp]: "two_to (int n) = 2 ^ n"
  by (simp add: two_to_def)

lemma two_to_less: "two_to a < two_to b \<longleftrightarrow> a < b"
proof -
  have eq: "two_to k = 2 powi k" for k by (simp add: two_to_def power_int_def inverse_eq_divide power_divide)
  show ?thesis
    unfolding eq
    using power_int_strict_increasing [of a b "2 :: rat"] power_int_increasing [of b a "2 :: rat"]
    by (cases "a < b") auto
qed

lemma bit_length_bounds:
  assumes "0 < n"
  shows "2 ^ (bit_length n - 1) \<le> n \<and> n < 2 ^ bit_length n \<and> 0 < bit_length n"
  using assms
proof (induction n rule: bit_length.induct)
  case (1 n)
  show ?case
  proof (cases "n div 2 = 0")
    case True
    with "1.prems" have "n = 1" by linarith
    then show ?thesis by (simp add: bit_length.simps)
  next
    case False
    with 1 have ih: "2 ^ (bit_length (n div 2) - 1) \<le> n div 2" "n div 2 < 2 ^ bit_length (n div 2)"
      "0 < bit_length (n div 2)"
      by auto
    have b: "bit_length n = Suc (bit_length (n div 2))" using "1.prems" by (subst bit_length.simps) simp
    have "2 ^ bit_length (n div 2) = 2 * (2 :: nat) ^ (bit_length (n div 2) - 1)"
      using ih(3) by (cases "bit_length (n div 2)") simp_all
    with ih b show ?thesis by simp linarith
  qed
qed

text \<open>A number is between 23 and 24 places above its last place.\<close>

lemma last_place_bounds:
  assumes "x \<noteq> 0"
  shows "two_to (last_place x + 23) \<le> \<bar>x\<bar>" "\<bar>x\<bar> < two_to (last_place x + 24)"
proof -
  obtain n d where q: "quotient_of \<bar>x\<bar> = (n, d)" by force
  then have d: "0 < d" "\<bar>x\<bar> = of_int n / of_int d" by (auto dest: quotient_of_denom_pos quotient_of_div)
  have "0 < \<bar>x\<bar>" using assms by simp
  then have n: "0 < n" using d by (simp add: zero_less_divide_iff)
  let ?a = "bit_length (nat n)" and ?b = "bit_length (nat d)"
  let ?e = "int ?a - int ?b - 24"
  have a: "2 ^ (?a - 1) \<le> n" "n < 2 ^ ?a" "0 < ?a"
    using bit_length_bounds [of "nat n"] n by (simp_all add: nat_less_iff le_nat_iff)
  have b: "2 ^ (?b - 1) \<le> d" "d < 2 ^ ?b" "0 < ?b"
    using bit_length_bounds [of "nat d"] d(1) by (simp_all add: nat_less_iff le_nat_iff)
  have "of_int n < (of_int (2 ^ ?a) :: rat)" "of_int (2 ^ (?a - 1)) \<le> (of_int n :: rat)"
    "of_int d < (of_int (2 ^ ?b) :: rat)" "of_int (2 ^ (?b - 1)) \<le> (of_int d :: rat)"
    using a b by (simp_all only: of_int_less_iff of_int_le_iff)
  then have nd: "of_int n < two_to (int ?a)" "two_to (int ?a - 1) \<le> of_int n" "of_int d < two_to (int ?b)"
    "two_to (int ?b - 1) \<le> of_int d"
    using a(3) b(3) two_to_nat [of "?a - 1"] two_to_nat [of "?b - 1"] by (simp_all add: of_nat_diff)
  have "\<bar>x\<bar> < two_to (int ?a) / two_to (int ?b - 1)"
    unfolding d(2) using nd two_to_pos n by (intro frac_less) simp_all
  then have up: "\<bar>x\<bar> < two_to (?e + 25)" by (simp add: two_to_diff [symmetric] algebra_simps del: two_to_nat)
  have "two_to (int ?a - 1) / two_to (int ?b) \<le> \<bar>x\<bar>"
    unfolding d(2) using nd two_to_pos d(1) n by (intro frac_le) simp_all
  then have low: "two_to (?e + 23) \<le> \<bar>x\<bar>" by (simp add: two_to_diff [symmetric] algebra_simps del: two_to_nat)
  have l: "last_place x = (if \<bar>x\<bar> < two_to (?e + 24) then ?e else ?e + 1)"
    by (simp add: last_place_def q Let_def)
  show "two_to (last_place x + 23) \<le> \<bar>x\<bar>" "\<bar>x\<bar> < two_to (last_place x + 24)"
    unfolding l using up low by (auto simp: algebra_simps)
qed

lemma round_even_int [simp]: "round_even (of_int z) = z"
  by (simp add: round_even_def)

text \<open>What fits into 24 places is not rounded.\<close>

lemma single_exact:
  assumes "\<bar>m\<bar> < 2 ^ 24"
  shows "single (of_int m * two_to k) = of_int m * two_to k"
proof (cases "m = 0")
  case False
  let ?x = "of_int m * two_to k :: rat"
  define l where "l = last_place ?x"
  have "\<bar>of_int m\<bar> < (2 ^ 24 :: rat)"
    using assms of_int_less_iff [of "\<bar>m\<bar>" "2 ^ 24", where 'a = rat] by simp
  then have "\<bar>of_int m\<bar> < two_to 24" by (simp add: two_to_def)
  from mult_strict_right_mono [OF this two_to_pos [of k]] have "\<bar>?x\<bar> < two_to 24 * two_to k"
    by (simp add: abs_mult abs_of_pos)
  moreover have nz: "?x \<noteq> 0" using False by (simp add: less_imp_neq [symmetric])
  ultimately have "two_to (l + 23) < two_to (24 + k)"
    using last_place_bounds(1) [OF nz] by (simp only: two_to_add l_def)
  then have "k = int (nat (k - l)) + l" by (simp add: two_to_less)
  then obtain j where "k = int j + l" by blast
  then have x: "?x = of_int (m * 2 ^ j) * two_to l" by (simp add: two_to_add)
  have "?x / two_to l = of_int (m * 2 ^ j)" unfolding x by (simp add: less_imp_neq [symmetric])
  then have "round_even (?x / two_to l) = m * 2 ^ j" by (simp only: round_even_int)
  moreover have "single ?x = of_int (round_even (?x / two_to l)) * two_to l"
    using nz by (simp only: single_def l_def if_False)
  ultimately show ?thesis using x by (simp only:)
qed (simp add: single_def)

text \<open>Rounding at most doubles a number.\<close>

lemma round_even_bounds: "q - 1 \<le> of_int (round_even q) \<and> of_int (round_even q) \<le> q + 1"
proof -
  have "of_int \<lfloor>q\<rfloor> \<le> q" "q < of_int \<lfloor>q\<rfloor> + 1" by linarith+
  then have "q - 1 \<le> of_int f \<and> of_int f \<le> q + 1" if "f = \<lfloor>q\<rfloor> \<or> f = \<lfloor>q\<rfloor> + 1" for f
    using that by (elim disjE) (simp_all, linarith+)
  moreover have "round_even q = \<lfloor>q\<rfloor> \<or> round_even q = \<lfloor>q\<rfloor> + 1" by (simp add: round_even_def Let_def)
  ultimately show ?thesis by blast
qed

lemma single_bounds:
  assumes "0 \<le> x"
  shows "0 \<le> single x" "single x \<le> 2 * x"
proof -
  have "0 \<le> single x \<and> single x \<le> 2 * x"
  proof (cases "x = 0")
    case False
    let ?l = "last_place x"
    let ?q = "x / two_to ?l"
    have "two_to ?l * 1 \<le> two_to ?l * two_to 23" using two_to_pos by (intro mult_left_mono) (simp_all add: two_to_def)
    also have "\<dots> \<le> x" using last_place_bounds(1) [OF False] assms by (simp add: two_to_add)
    finally have q: "1 \<le> ?q" by simp
    then have "0 \<le> (of_int (round_even ?q) :: rat)" "of_int (round_even ?q) \<le> 2 * ?q"
      using round_even_bounds [of ?q] by linarith+
    then have "0 \<le> of_int (round_even ?q) * two_to ?l" "of_int (round_even ?q) * two_to ?l \<le> 2 * ?q * two_to ?l"
      using less_imp_le [OF two_to_pos [of ?l]] by (blast intro: mult_nonneg_nonneg mult_right_mono)+
    moreover have "2 * ?q * two_to ?l = 2 * x" by (simp add: less_imp_neq [symmetric])
    ultimately show ?thesis using False by (simp add: single_def)
  qed (simp add: single_def)
  then show "0 \<le> single x" "single x \<le> 2 * x" by simp_all
qed

end
