(* ===== verification/Piece.thy ===== *)
theory Piece
  imports Info_Hash Text Single "HOL-Library.Signed_Division"
begin

text \<open>
  \<open>src/piece.cpp\<close>, \<open>include/piece.h\<close>, \<open>include/block.h\<close>: one piece of the torrent, assembled
  from the blocks received. \<open>m_data\<close> is \<open>None\<close> for a null pointer; a peer pointer is a
  number. What \<open>log_progress\<close> prints is its first result; \<open>m_progress\<close> is the value of the \<open>float\<close>.
\<close>

section \<open>State and operations\<close>

record block =
  b_data :: "cell list"
  b_index :: int
  b_offset :: int
  b_size :: int

record piece =
  m_backlog :: int
  m_total_requested :: int
  m_index :: int
  m_piece_length :: int
  m_count :: int
  m_block_size :: int
  m_piece_hash :: info_hash
  m_received_count :: int
  m_received_bytes :: int
  m_data :: "cell list option"
  m_progress :: rat
  m_peers :: "nat list"

text \<open>
  A default-constructed piece; the members without an initialiser (\<open>m_index\<close>,
  \<open>m_piece_length\<close>, \<open>m_count\<close>, \<open>m_block_size\<close>, \<open>m_received_count\<close>) are given 0 here, and are
  assigned by \<open>piece_move_assign\<close> before anything reads them.
\<close>

definition piece_default :: piece where
  "piece_default =
     \<lparr>m_backlog = 0, m_total_requested = 0, m_index = 0, m_piece_length = 0, m_count = 0,
      m_block_size = 0, m_piece_hash = info_hash_default, m_received_count = 0,
      m_received_bytes = 0, m_data = None, m_progress = 0, m_peers = []\<rparr>"

text \<open>A negative length is a \<open>size_t\<close> above \<open>PTRDIFF_MAX\<close>; for it, and for more bytes than can be addressed,
  \<open>malloc\<close> fails.\<close>

definition piece_new :: "int \<Rightarrow> info_hash \<Rightarrow> int \<Rightarrow> piece res" where
  "piece_new index piece_hash piece_length =
     bindE (hash_copy piece_hash) (\<lambda>h.
     if piece_length < 0 \<or> address_space \<le> piece_length then Inl (Throw Bad_alloc)
     else Inr (piece_default
       \<lparr>m_index := index, m_piece_hash := h, m_count := 0, m_block_size := 1024 * 16,
        m_piece_length := piece_length, m_received_count := 0,
        m_data := Some (replicate (nat piece_length) (Some 0)), m_received_bytes := 0\<rparr>))"

text \<open>Move assignment; \<open>m_peers\<close>, \<open>m_backlog\<close>, \<open>m_total_requested\<close> and \<open>m_progress\<close> are not transferred.\<close>

definition piece_move_assign :: "piece \<Rightarrow> piece \<Rightarrow> piece" where
  "piece_move_assign this other =
     this\<lparr>m_index := m_index other, m_piece_length := m_piece_length other,
          m_count := m_count other, m_block_size := m_block_size other,
          m_piece_hash := fst (hash_move (m_piece_hash other)),
          m_received_count := m_received_count other, m_data := m_data other,
          m_received_bytes := m_received_bytes other\<rparr>"

text \<open>
  The copy constructor. \<open>m_data\<close> of the new object is the null pointer of its initialiser, and
  \<open>memcpy\<close> writes through it; \<open>m_backlog\<close> and \<open>m_total_requested\<close> are not copied.
\<close>

definition piece_copy :: "piece \<Rightarrow> piece res" where
  "piece_copy other =
     bindE (hash_copy (m_piece_hash other)) (\<lambda>h.
     let this = piece_default\<lparr>m_index := m_index other, m_piece_length := m_piece_length other,
           m_count := m_count other, m_block_size := m_block_size other, m_piece_hash := h,
           m_peers := m_peers other, m_received_count := m_received_count other\<rparr> in
     case (m_data this, m_data other) of
       (Some d, Some d') \<Rightarrow>
         bindE (mem_get d' 0 (m_piece_length other)) (\<lambda>cs.
         bindE (mem_put d 0 cs) (\<lambda>e.
         Inr (this\<lparr>m_data := Some e, m_received_bytes := m_received_bytes other\<rparr>)))
     | _ \<Rightarrow> Inl Undefined)"

definition piece_length :: "piece \<Rightarrow> int" where
  "piece_length p = narrow32 (m_piece_length p)"

definition add_peer :: "nat \<Rightarrow> piece \<Rightarrow> piece res" where
  "add_peer peer p =
     bindE (i32 (m_count p + 1)) (\<lambda>c. Inr (p\<lparr>m_peers := m_peers p @ [peer], m_count := c\<rparr>))"

definition download_finished :: "piece \<Rightarrow> bool" where
  "download_finished p = (m_received_count p = 16)"

definition verify_integrity :: "(byte list \<Rightarrow> byte list) \<Rightarrow> piece \<Rightarrow> bool res" where
  "verify_integrity sha1 p =
     (case m_data p of
        None \<Rightarrow> Inl Undefined
      | Some d \<Rightarrow>
          bindE (info_hash_of sha1 d (m_received_bytes p)) (\<lambda>received_hash.
          Inr (hash_eq (m_piece_hash p) received_hash)))"

text \<open>
  \<open>log_progress\<close>: the bar of 70 columns shows the progress before this block, which counts for
  its share of 256 KiB whatever the length of the piece is. \<open>static_cast\<close> to \<open>int\<close> and the product
  \<open>received * 100\<close> are checked.
\<close>

definition progress_line :: "piece \<Rightarrow> int \<Rightarrow> byte list" where
  "progress_line p pos =
     ascii ''['' @
     map (\<lambda>i. if int i < pos then of_char (CHR ''='') else if int i = pos then of_char (CHR ''>'') else of_char (CHR '' ''))
       [0..<70] @
     ascii ''] '' @
     ascii '' '' @ to_string (m_received_bytes p sdiv 1024) @ ascii '' kb / '' @
     to_string (narrow32 (m_piece_length p sdiv 1024)) @ ascii '' kb'' @ [13]"

definition log_progress :: "int \<Rightarrow> piece \<Rightarrow> (byte list \<times> piece) res" where
  "log_progress received p =
     (if m_progress p < 1 then
        bindE (i32 (chop (single (70 * m_progress p)))) (\<lambda>pos.
        bindE (i32 (received * 100)) (\<lambda>x.
        let tmp = single (single (of_int x) / single (of_int (256 * 1024))) in
        Inr (progress_line p pos, p\<lparr>m_progress := single (m_progress p + single (tmp / 100))\<rparr>)))
      else Inr ([10], p))"

definition incoming_block :: "block \<Rightarrow> piece \<Rightarrow> piece res" where
  "incoming_block b p =
     bindE (i32 (m_received_bytes p + b_size b)) (\<lambda>rb.
     case m_data p of
       None \<Rightarrow> Inl Undefined
     | Some d \<Rightarrow>
         bindE (mem_get (b_data b) 0 (b_size b)) (\<lambda>cs.
         bindE (mem_put d (b_offset b) cs) (\<lambda>d'.
         bindE (log_progress (b_size b) (p\<lparr>m_received_bytes := rb, m_data := Some d'\<rparr>)) (\<lambda>(_, p).
         bindE (i32 (m_received_count p + 1)) (\<lambda>c. Inr (p\<lparr>m_received_count := c\<rparr>))))))"

definition piece_reset :: "piece \<Rightarrow> piece res" where
  "piece_reset p =
     (case m_data p of
        None \<Rightarrow> Inl Undefined
      | Some d \<Rightarrow>
          bindE (ensure (0 \<le> m_received_bytes p)) (\<lambda>_.
          bindE (mem_put d 0 (replicate (nat (m_received_bytes p)) (Some 0))) (\<lambda>d'.
          Inr (p\<lparr>m_progress := 0, m_received_count := 0, m_backlog := 0, m_total_requested := 0,
                 m_data := Some d', m_received_bytes := 0\<rparr>))))"

section \<open>Invariant\<close>

definition piece_ok :: "piece \<Rightarrow> bool" where
  "piece_ok p =
     (0 \<le> m_piece_length p \<and> m_piece_length p \<le> int_max \<and>
      0 \<le> m_received_bytes p \<and> 0 \<le> m_received_count p \<and> 0 \<le> m_progress p \<and>
      0 \<le> m_total_requested p \<and> m_total_requested p \<le> m_piece_length p \<and>
      (\<exists>d. m_piece_hash p = Some d \<and> length d = 20) \<and>
      (\<exists>bs. m_data p = Some (map Some bs) \<and> int (length bs) = m_piece_length p))"

named_theorems piece_defs \<open>definitions of the piece operations\<close>

lemmas [piece_defs] = piece_ok_def incoming_block_def piece_reset_def piece_new_def
  piece_default_def piece_move_assign_def hash_move_def

lemma piece_ok_new:
  assumes "length h = 20" "0 \<le> len" "len \<le> int_max"
  shows "\<exists>p. piece_new i (Some h) len = Inr p \<and> piece_ok (piece_move_assign piece_default p) \<and>
           m_index (piece_move_assign piece_default p) = i \<and>
           m_piece_length (piece_move_assign piece_default p) = len \<and>
           m_piece_hash (piece_move_assign piece_default p) = Some h \<and>
           m_backlog (piece_move_assign piece_default p) = 0 \<and>
           m_total_requested (piece_move_assign piece_default p) = 0 \<and>
           m_received_count (piece_move_assign piece_default p) = 0 \<and>
           m_received_bytes (piece_move_assign piece_default p) = 0"
proof -
  have "replicate (nat len) (Some (0 :: byte)) = map Some (replicate (nat len) 0)" by simp
  with assms show ?thesis
    by (auto simp: piece_defs hash_copy_Some simp del: map_replicate
        intro!: exI [of _ "replicate (nat len) 0"])
qed

lemma log_progress_keeps:
  assumes "log_progress n p = Inr (out, q)" "0 \<le> m_progress p" "0 \<le> n"
  shows "q = p\<lparr>m_progress := m_progress q\<rparr>" "0 \<le> m_progress q"
  using assms by (auto simp: log_progress_def Let_def single_bounds split: if_splits)

lemma log_progress_ok:
  assumes "0 \<le> m_progress p" "0 \<le> n" "n * 100 \<le> int_max"
  shows "\<exists>out q. log_progress n p = Inr (out, q)"
proof (cases "m_progress p < 1")
  case True
  let ?x = "single (70 * m_progress p)"
  have "0 \<le> ?x" "?x \<le> 140"
    using single_bounds [of "70 * m_progress p"] assms(1) True by linarith+
  then have "0 \<le> chop ?x" "chop ?x \<le> 140" by (simp_all add: chop_def floor_le_iff)
  with True assms(2,3) show ?thesis by (auto simp: log_progress_def Let_def i32_def)
qed (simp add: log_progress_def)

lemma incoming_block_ok:
  assumes "piece_ok p" "b_data b = map Some bs @ rest" "b_size b = int (length bs)"
    "0 \<le> b_offset b" "b_offset b + b_size b \<le> m_piece_length p"
    "m_received_bytes p + b_size b \<le> int_max" "m_received_count p < int_max" "b_size b * 100 \<le> int_max"
    "m_data p = Some (map Some d)"
  obtains pr where
    "incoming_block b p = Inr (p\<lparr>m_received_bytes := m_received_bytes p + b_size b,
       m_received_count := m_received_count p + 1,
       m_data := Some (map Some (take (nat (b_offset b)) d @ bs @ drop (nat (b_offset b) + length bs) d)),
       m_progress := pr\<rparr>)"
    "piece_ok (p\<lparr>m_received_bytes := m_received_bytes p + b_size b,
       m_received_count := m_received_count p + 1,
       m_data := Some (map Some (take (nat (b_offset b)) d @ bs @ drop (nat (b_offset b) + length bs) d)),
       m_progress := pr\<rparr>)"
proof -
  have len: "int (length d) = m_piece_length p"
    using assms(1,9) by (auto simp: piece_ok_def inj_map_eq_map)
  have g: "mem_get (b_data b) 0 (b_size b) = Inr (map Some bs)"
    using assms by (simp add: mem_get_def)
  let ?d = "take (nat (b_offset b)) d @ bs @ drop (nat (b_offset b) + length bs) d"
  have p: "mem_put (map Some d) (b_offset b) (map Some bs) = Inr (map Some ?d)"
    using assms len by (simp add: mem_put_def take_map drop_map)
  have "length ?d = length d" using assms len by simp
  let ?p = "p\<lparr>m_received_bytes := m_received_bytes p + b_size b, m_data := Some (map Some ?d)\<rparr>"
  have "0 \<le> m_progress ?p" using assms(1) by (simp add: piece_ok_def)
  from log_progress_ok [OF this _ assms(8)] obtain out q where q: "log_progress (b_size b) ?p = Inr (out, q)"
    using assms(3) by auto
  define pr where "pr = m_progress q"
  have q': "q = ?p\<lparr>m_progress := pr\<rparr>" "0 \<le> pr"
    using log_progress_keeps [OF q \<open>0 \<le> m_progress ?p\<close>] assms(3) by (simp_all add: pr_def)
  let ?q = "p\<lparr>m_received_bytes := m_received_bytes p + b_size b,
      m_received_count := m_received_count p + 1, m_data := Some (map Some ?d), m_progress := pr\<rparr>"
  have "incoming_block b p = Inr ?q"
    using assms g p q by (simp add: incoming_block_def piece_ok_def i32_def q'(1))
  moreover have "piece_ok ?q"
    using assms(1,3,9) \<open>length ?d = length d\<close> len q'(2)
    by (auto simp: piece_ok_def inj_map_eq_map simp del: map_append)
  ultimately show ?thesis by (rule that)
qed

lemma piece_reset_ok:
  assumes "piece_ok p" "m_received_bytes p \<le> m_piece_length p"
  shows "\<exists>p'. piece_reset p = Inr p' \<and> piece_ok p' \<and> m_received_count p' = 0 \<and>
           m_received_bytes p' = 0 \<and> m_backlog p' = 0 \<and> m_total_requested p' = 0 \<and>
           m_index p' = m_index p \<and> m_piece_length p' = m_piece_length p \<and>
           m_piece_hash p' = m_piece_hash p"
proof -
  from assms(1) obtain bs where bs: "m_data p = Some (map Some bs)" "int (length bs) = m_piece_length p"
    by (auto simp: piece_ok_def)
  let ?n = "nat (m_received_bytes p)"
  let ?bs = "replicate ?n 0 @ drop ?n bs"
  have "mem_put (map Some bs) 0 (replicate ?n (Some 0)) = Inr (map Some ?bs)"
    using assms bs by (auto simp: mem_put_def piece_ok_def drop_map)
  moreover have "length ?bs = length bs" using assms bs by (auto simp: piece_ok_def)
  ultimately show ?thesis
    using assms bs by (auto simp: piece_reset_def piece_ok_def intro: exI [of _ ?bs])
qed

text \<open>No piece can be copied: pieces are only moved.\<close>

lemma piece_copy_undefined: "piece_copy p = Inl Undefined"
  by (cases "m_piece_hash p") (simp_all add: piece_copy_def hash_copy_def piece_default_def)

section \<open>Assembling a piece\<close>

text \<open>Receiving a list of blocks, stopping at the first fault.\<close>

fun incoming_blocks :: "block list \<Rightarrow> piece \<Rightarrow> piece res" where
  "incoming_blocks [] p = Inr p"
| "incoming_blocks (b # bs) p = bindE (incoming_block b p) (incoming_blocks bs)"

text \<open>Block \<open>k\<close> of a content, in blocks of \<open>n\<close> bytes.\<close>

definition block_of :: "nat \<Rightarrow> byte list \<Rightarrow> nat \<Rightarrow> block" where
  "block_of n content k =
     \<lparr>b_data = map Some (take n (drop (n * k) content)), b_index = 0,
      b_offset = int (n * k), b_size = int n\<rparr>"

definition agrees :: "nat \<Rightarrow> byte list \<Rightarrow> nat set \<Rightarrow> byte list \<Rightarrow> bool" where
  "agrees n content K d \<longleftrightarrow>
     (\<forall>k\<in>K. take n (drop (n * k) d) = take n (drop (n * k) content))"

lemma agrees_put:
  assumes "agrees n content K d" "k \<notin> K" "length d = length content" "n * Suc k \<le> length content"
  shows "agrees n content (insert k K)
           (take (n * k) d @ take n (drop (n * k) content) @ drop (n * k + n) d)"
    (is "agrees _ _ _ ?d")
  unfolding agrees_def
proof
  fix j
  assume j: "j \<in> insert k K"
  have len: "n * k + n \<le> length d" "n * k + n \<le> length content" using assms(3,4) by auto
  show "take n (drop (n * j) ?d) = take n (drop (n * j) content)"
  proof (cases "j = k")
    case True
    with len show ?thesis by simp
  next
    case False
    with j assms have old: "take n (drop (n * j) d) = take n (drop (n * j) content)"
      by (auto simp: agrees_def)
    show ?thesis
    proof (cases "j < k")
      case True
      then have "n * Suc j \<le> n * k" by (intro mult_le_mono2) simp
      then have "n * j + n \<le> n * k" by simp
      then have "take n (drop (n * j) ?d) = take n (drop (n * j) d)"
        using len by (simp add: drop_take)
      with old show ?thesis by simp
    next
      case False
      with \<open>j \<noteq> k\<close> have "n * Suc k \<le> n * j" by (intro mult_le_mono2) simp
      then obtain r where r: "n * j = n * k + n + r" by (auto simp: le_iff_add)
      have "drop (n * j) ?d = drop (n * j) d"
        using len r by (simp add: add.commute add.left_commute)
      with old show ?thesis by simp
    qed
  qed
qed

lemma agrees_all:
  assumes "agrees n content {..<m} d" "length d = n * m" "length content = n * m"
  shows "d = content"
proof -
  have "take (n * k) d = take (n * k) content" if "k \<le> m" for k
    using that
  proof (induction k)
    case (Suc k)
    then have "take n (drop (n * k) d) = take n (drop (n * k) content)"
      using assms(1) by (auto simp: agrees_def)
    with Suc show ?case by (simp add: add.commute [of n] take_add)
  qed simp
  from this [of m] assms(2,3) show ?thesis by simp
qed

lemma incoming_blocks_agree:
  assumes "piece_ok p" "m_data p = Some (map Some d)" "agrees n content K d"
    "m_piece_length p = int (length content)" "distinct ks" "set ks \<inter> K = {}"
    "\<forall>k\<in>set ks. n * Suc k \<le> length content"
    "m_received_bytes p + int (n * length ks) \<le> int_max"
    "m_received_count p + int (length ks) \<le> int_max" "int n * 100 \<le> int_max"
  shows "\<exists>p' d'. incoming_blocks (map (block_of n content) ks) p = Inr p' \<and> piece_ok p' \<and>
           m_data p' = Some (map Some d') \<and> agrees n content (K \<union> set ks) d' \<and>
           m_received_bytes p' = m_received_bytes p + int (n * length ks) \<and>
           m_received_count p' = m_received_count p + int (length ks) \<and>
           m_piece_length p' = m_piece_length p \<and> m_piece_hash p' = m_piece_hash p"
  using assms
proof (induction ks arbitrary: p d K)
  case Nil
  then show ?case by auto
next
  case (Cons k ks)
  let ?bs = "take n (drop (n * k) content)" and ?b = "block_of n content k"
  have k: "n * k + n \<le> length content" using Cons.prems(7) by simp
  then have kk: "int (n * k) + int n \<le> int (length content)"
    by (simp only: of_nat_add [symmetric] of_nat_le_iff)
  have lb: "length ?bs = n" using k by simp
  have ld: "length d = length content"
    using Cons.prems(1,2,4) by (auto simp: piece_ok_def inj_map_eq_map)
  have "int (n * length (k # ks)) = int n + int (n * length ks)" by (simp add: algebra_simps)
  moreover from Cons.prems(9) have "m_received_count p < int_max" by simp
  ultimately have i32: "m_received_bytes p + int n \<le> int_max" "m_received_count p < int_max"
    using Cons.prems(8) by linarith+
  let ?d = "take (n * k) d @ ?bs @ drop (n * k + n) d"
  let ?p1 = "\<lambda>pr. p\<lparr>m_received_bytes := m_received_bytes p + int n,
      m_received_count := m_received_count p + 1, m_data := Some (map Some ?d), m_progress := pr\<rparr>"
  have b: "b_data ?b = map Some ?bs @ []" "b_size ?b = int (length ?bs)" "b_offset ?b = int (n * k)" "b_size ?b = int n"
    using lb by (simp_all add: block_of_def)
  obtain pr where "incoming_block ?b p = Inr (?p1 pr)" "piece_ok (?p1 pr)"
    by (rule incoming_block_ok [OF Cons.prems(1) b(1,2) _ _ _ i32(2) _ Cons.prems(2), unfolded b(3,4) nat_int lb])
      (use Cons.prems(4,10) i32(1) kk in simp_all)
  then obtain p1 where p1: "incoming_block ?b p = Inr p1" "piece_ok p1" "p1 = ?p1 pr" by blast
  have ag: "agrees n content (insert k K) ?d"
    using agrees_put [OF Cons.prems(3) _ ld, of k] Cons.prems(6) k by simp
  have step: "m_data p1 = Some (map Some ?d)" "m_piece_length p1 = int (length content)"
    "distinct ks" "set ks \<inter> insert k K = {}" "\<forall>k\<in>set ks. n * Suc k \<le> length content"
    "m_received_bytes p1 + int (n * length ks) \<le> int_max"
    "m_received_count p1 + int (length ks) \<le> int_max"
    using Cons.prems p1(3) by (auto simp: algebra_simps)
  obtain p' d' where "incoming_blocks (map (block_of n content) ks) p1 = Inr p'" "piece_ok p'"
    "m_data p' = Some (map Some d')" "agrees n content (insert k K \<union> set ks) d'"
    "m_received_bytes p' = m_received_bytes p1 + int (n * length ks)"
    "m_received_count p' = m_received_count p1 + int (length ks)"
    "m_piece_length p' = m_piece_length p1" "m_piece_hash p' = m_piece_hash p1"
    using Cons.IH [OF p1(2) step(1) ag step(2-7) Cons.prems(10)] by blast
  with p1 show ?case by (auto simp: algebra_simps)
qed

section \<open>The progress bar\<close>






section \<open>Properties\<close>

text \<open>C23: a piece of 16 blocks that receives each block of a content once, in any order and
  with any interleaving, is finished, holds exactly that content, and passes the integrity
  check if and only if the content has the digest of the torrent.\<close>

theorem piece_assembled_any_order:
  assumes "0 < n" "length content = n * 16" "int (length content) \<le> int_max" "int n * 100 \<le> int_max"
    "length h = 20" "\<forall>bs. length (sha1 bs) = 20"
    "distinct ks" "set ks = {..<16}"
    "piece_new i (Some h) (int (length content)) = Inr p0"
  shows "\<exists>p. incoming_blocks (map (block_of n content) ks) (piece_move_assign piece_default p0) = Inr p \<and>
           download_finished p \<and> m_data p = Some (map Some content) \<and>
           verify_integrity sha1 p = Inr (h = sha1 content)"
proof -
  let ?p = "piece_move_assign piece_default p0"
  have p: "piece_ok ?p" "m_piece_length ?p = int (length content)" "m_piece_hash ?p = Some h"
    using piece_ok_new [OF assms(5), of "int (length content)" i] assms(3,9) by auto
  have zero: "m_received_bytes ?p = 0" "m_received_count ?p = 0"
    using assms(9) by (auto simp: piece_defs split: if_splits)
  obtain d where d: "m_data ?p = Some (map Some d)" using p(1) by (auto simp: piece_ok_def)
  have len: "length ks = 16"
    using distinct_card [OF assms(7)] assms(8) by simp
  have rng: "\<forall>k\<in>set ks. n * Suc k \<le> length content"
  proof
    fix k assume "k \<in> set ks"
    then have "Suc k \<le> 16" using assms(8) by simp
    then show "n * Suc k \<le> length content" unfolding assms(2) by (rule mult_le_mono2)
  qed
  have bnd: "m_received_bytes ?p + int (n * length ks) \<le> int_max"
    "m_received_count ?p + int (length ks) \<le> int_max"
    using assms(2,3) zero len by auto
  have ag: "agrees n content {} d" by (simp add: agrees_def)
  from incoming_blocks_agree [OF p(1) d ag p(2) assms(7) _ rng bnd assms(4)] obtain p' d' where
    r: "incoming_blocks (map (block_of n content) ks) ?p = Inr p'" "piece_ok p'"
      "m_data p' = Some (map Some d')" "agrees n content (set ks) d'"
      "m_received_bytes p' = int (n * length ks)" "m_received_count p' = int (length ks)"
      "m_piece_length p' = m_piece_length ?p" "m_piece_hash p' = m_piece_hash ?p"
    using zero by auto
  have "length d' = n * 16"
    using r(2,3,7) p(2) assms(2) by (auto simp: piece_ok_def inj_map_eq_map)
  then have dc: "d' = content"
    using agrees_all [of n content 16 d'] r(4) assms(2,8) by simp
  have "info_hash_of sha1 (map Some content) (m_received_bytes p') = Inr (Some (sha1 content))"
    using r(5) len assms(2) by (simp add: info_hash_of_def read_bytes_eq mult.commute)
  then have "verify_integrity sha1 p' = Inr (h = sha1 content)"
    using r(3,8) dc p(3) assms(5,6) by (simp add: verify_integrity_def)
  moreover have "download_finished p'" using r(6) len by (simp add: download_finished_def)
  ultimately show ?thesis using r(1,3) dc by blast
qed

text \<open>a block whose range leaves the piece is written past the allocation: no operation
  checks offset and size against the piece length.\<close>

theorem incoming_block_out_of_range:
  assumes "piece_ok p" "b_offset b < 0 \<or> b_offset b + b_size b > m_piece_length p"
    "0 \<le> b_size b" "b_size b \<le> int (length (b_data b))"
  shows "incoming_block b p = Inl Undefined"
proof -
  obtain bs where "m_data p = Some (map Some bs)" "int (length bs) = m_piece_length p"
    using assms(1) by (auto simp: piece_ok_def)
  moreover from assms have "mem_get (b_data b) 0 (b_size b) = Inr (take (nat (b_size b)) (b_data b))"
    by (simp add: mem_get_def)
  ultimately show ?thesis
    using assms by (auto simp: incoming_block_def mem_put_def i32_def)
qed

text \<open>a piece is finished when 16 blocks were counted, not when its bytes are there: the
  same block received 16 times finishes a piece of 16 blocks with only that block's bytes in it.\<close>

theorem duplicate_blocks_finish:
  assumes "0 < n" "n \<le> 65536" "length content = n * 16" "length h = 20"
    "piece_new i (Some h) (int (length content)) = Inr p0"
  shows "\<exists>p. incoming_blocks (replicate 16 (block_of n content 0))
             (piece_move_assign piece_default p0) = Inr p \<and>
           download_finished p \<and>
           m_data p = Some (map Some (take n content @ replicate (n * 15) 0))"
proof -
  let ?p = "piece_move_assign piece_default p0" and ?b = "block_of n content 0"
  let ?d = "take n content @ replicate (n * 15) 0"
  have p: "piece_ok ?p" "m_piece_length ?p = int (n * 16)"
    using piece_ok_new [OF assms(4), of "int (length content)" i] assms(2,3,5) by auto
  have init: "m_received_bytes ?p = 0" "m_received_count ?p = 0"
    "m_data ?p = Some (map Some (replicate (n * 16) 0))"
    using assms(3,5) by (auto simp: piece_defs nat_mult_distrib split: if_splits)
  have rep: "\<exists>p'. incoming_blocks (replicate k ?b) q = Inr p' \<and>
        m_received_count p' = m_received_count q + int k \<and>
        m_data p' = Some (map Some (if k = 0 then d else ?d))"
    if "piece_ok q" "m_piece_length q = int (n * 16)" "m_data q = Some (map Some d)"
      "drop n d = replicate (n * 15) 0" "m_received_count q + int k \<le> 16"
      "m_received_bytes q + int (n * k) \<le> int (n * 16)" for k q d
    using that
  proof (induction k arbitrary: q d)
    case (Suc k)
    have "int (n * Suc k) = int n + int (n * k)" "int (n * 16) \<le> 1048576"
      using assms(2) by (auto simp: algebra_simps)
    then have bnd: "m_received_bytes q + int n \<le> int_max" "m_received_count q < int_max"
      using Suc.prems(5,6) by linarith+
    have b: "b_data ?b = map Some (take n content) @ []" "b_size ?b = int (length (take n content))" "b_offset ?b = 0"
      "b_size ?b = int n" "length (take n content) = n"
      using assms(3) by (simp_all add: block_of_def)
    let ?q = "\<lambda>pr. q\<lparr>m_received_bytes := m_received_bytes q + int n,
        m_received_count := m_received_count q + 1, m_data := Some (map Some ?d), m_progress := pr\<rparr>"
    obtain pr where q: "incoming_block ?b q = Inr (?q pr)" "piece_ok (?q pr)"
      by (rule incoming_block_ok [OF Suc.prems(1) b(1,2) _ _ _ bnd(2) _ Suc.prems(3), unfolded b(3,4,5)])
        (use Suc.prems(2,4) assms(2) bnd(1) in simp_all)
    have "drop n ?d = replicate (n * 15) 0" using assms(3) by simp
    from Suc.IH [OF q(2) _ _ this] Suc.prems q(1) show ?case
      by (auto simp: algebra_simps)
  qed simp
  from rep [OF p init(3), of 16] init(1,2) show ?thesis
    by (auto simp: download_finished_def)
qed


section \<open>Witnesses\<close>

definition sample_sha1 :: "byte list \<Rightarrow> byte list" where
  "sample_sha1 bs = replicate 20 (of_nat (length bs))"

theorem piece_assembled_any_order_witness:
  "\<exists>p. incoming_blocks (map (block_of 1 [0, 1, 2, 3, 4, 5, 6, 7, 8, 9, 10, 11, 12, 13, 14, 15])
       (rev [0..<16])) (piece_move_assign piece_default
         (piece_default\<lparr>m_index := 3, m_piece_hash := Some (replicate 20 16), m_count := 0,
            m_block_size := 1024 * 16, m_piece_length := 16, m_received_count := 0,
            m_data := Some (replicate (nat 16) (Some 0)), m_received_bytes := 0\<rparr>)) = Inr p \<and>
     download_finished p \<and>
     m_data p = Some (map Some [0, 1, 2, 3, 4, 5, 6, 7, 8, 9, 10, 11, 12, 13, 14, 15]) \<and>
     verify_integrity sample_sha1 p =
       Inr (replicate 20 16 = sample_sha1 [0, 1, 2, 3, 4, 5, 6, 7, 8, 9, 10, 11, 12, 13, 14, 15])"
  by (rule piece_assembled_any_order [where i = 3])
     (auto simp: sample_sha1_def piece_new_def hash_copy_def)

theorem incoming_block_out_of_range_witness:
  "incoming_block \<lparr>b_data = [Some 1, Some 2], b_index = 0, b_offset = 3, b_size = 2\<rparr>
     (piece_default\<lparr>m_piece_hash := Some (replicate 20 0), m_piece_length := 4,
        m_data := Some (map Some [0, 0, 0, 0])\<rparr>) = Inl Undefined"
  by (rule incoming_block_out_of_range)
    (auto simp: piece_ok_def piece_default_def intro!: exI [of _ "[0, 0, 0, 0]"])

theorem duplicate_blocks_finish_witness:
  "\<exists>p. incoming_blocks (replicate 16 (block_of 1 (replicate 16 7) 0))
       (piece_move_assign piece_default
         (piece_default\<lparr>m_index := 3, m_piece_hash := Some (replicate 20 16), m_count := 0,
            m_block_size := 1024 * 16, m_piece_length := 16, m_received_count := 0,
            m_data := Some (replicate (nat 16) (Some 0)), m_received_bytes := 0\<rparr>)) = Inr p \<and>
     download_finished p \<and>
     m_data p = Some (map Some (take 1 (replicate 16 7) @ replicate (1 * 15) 0))"
  by (rule duplicate_blocks_finish [where i = 3 and h = "replicate 20 16"])
     (simp_all add: piece_new_def hash_copy_def)


end
