(* ===== verification/Piece_Manager.thy ===== *)
theory Piece_Manager
  imports Piece
begin

text \<open>
  \<open>src/piece_manager.cpp\<close>: the pieces of the torrent and the queue of pieces to fetch. A
  reference returned by \<open>get_piece\<close> is the piece itself; a change through it is \<open>put_piece\<close>.
  \<open>std::queue\<close> is a list, oldest first; \<open>front\<close> and \<open>pop\<close> of an empty queue are undefined.
\<close>

section \<open>The work queue\<close>

type_synonym work_queue = "int list"

definition queue_front :: "work_queue \<Rightarrow> int res" where
  "queue_front q = (case q of [] \<Rightarrow> Inl Undefined | x # _ \<Rightarrow> Inr x)"

definition queue_pop :: "work_queue \<Rightarrow> work_queue res" where
  "queue_pop q = (case q of [] \<Rightarrow> Inl Undefined | _ # r \<Rightarrow> Inr r)"

definition queue_push :: "int \<Rightarrow> work_queue \<Rightarrow> work_queue" where
  "queue_push x q = q @ [x]"

lemma queue_simps [simp]:
  "queue_front [] = Inl Undefined" "queue_front (x # q) = Inr x"
  "queue_pop [] = Inl Undefined" "queue_pop (x # q) = Inr q"
  "set (queue_push x q) = insert x (set q)"
  by (simp_all add: queue_front_def queue_pop_def queue_push_def)

section \<open>State and operations\<close>

record piece_manager =
  m_pieces :: "piece list"
  m_work_queue :: work_queue

text \<open>One turn of the constructor's first loop: piece \<open>i\<close> from the digest at \<open>offset\<close>.\<close>

definition build_piece :: "int \<Rightarrow> cell list \<Rightarrow> nat \<Rightarrow> piece res" where
  "build_piece piece_len piece_hashes i =
     bindE (mem_get piece_hashes (int (20 * i)) (int (length piece_hashes) - int (20 * i))) (\<lambda>src.
     bindE (hash_set src 20 info_hash_default) (\<lambda>piece_hash.
     bindE (piece_new (int i) (fst (hash_move piece_hash)) piece_len) (\<lambda>p.
     Inr (piece_move_assign piece_default p))))"

fun build_pieces :: "int \<Rightarrow> cell list \<Rightarrow> nat \<Rightarrow> nat \<Rightarrow> piece list res" where
  "build_pieces piece_len piece_hashes i 0 = Inr []"
| "build_pieces piece_len piece_hashes i (Suc k) =
     bindE (build_piece piece_len piece_hashes i) (\<lambda>p.
     bindE (build_pieces piece_len piece_hashes (Suc i) k) (\<lambda>ps. Inr (p # ps)))"

definition piece_manager_new :: "int \<Rightarrow> byte list \<Rightarrow> piece_manager res" where
  "piece_manager_new piece_len piece_hashes =
     bindE (build_pieces piece_len (map Some piece_hashes) 0 (length piece_hashes div 20)) (\<lambda>ps.
     Inr \<lparr>m_pieces = ps, m_work_queue = map m_index ps\<rparr>)"

text \<open>Move assignment: the two members are taken over.\<close>

definition piece_manager_default :: piece_manager where
  "piece_manager_default = \<lparr>m_pieces = [], m_work_queue = []\<rparr>"

definition piece_manager_move_assign :: "piece_manager \<Rightarrow> piece_manager \<Rightarrow> piece_manager" where
  "piece_manager_move_assign this other =
     this\<lparr>m_pieces := m_pieces other, m_work_queue := m_work_queue other\<rparr>"

definition get_piece :: "int \<Rightarrow> piece_manager \<Rightarrow> piece res" where
  "get_piece index pm =
     bindE (assertE (index \<ge> 0 \<and> index \<le> int (length (m_pieces pm)))) (\<lambda>_.
     bindE (ensure (nat index < length (m_pieces pm))) (\<lambda>_.
     Inr (m_pieces pm ! nat index)))"

definition put_piece :: "int \<Rightarrow> piece \<Rightarrow> piece_manager \<Rightarrow> piece_manager" where
  "put_piece index p pm = pm\<lparr>m_pieces := (m_pieces pm)[nat index := p]\<rparr>"

section \<open>Invariant\<close>

lemma piece_manager_move_assign_eq [simp]: "piece_manager_move_assign this other = other"
  by (cases this; cases other) (simp add: piece_manager_move_assign_def)

abbreviation n_pieces :: "piece_manager \<Rightarrow> int" where
  "n_pieces pm \<equiv> int (length (m_pieces pm))"

definition pm_ok :: "piece_manager \<Rightarrow> bool" where
  "pm_ok pm =
     ((\<forall>i < length (m_pieces pm). piece_ok (m_pieces pm ! i) \<and> m_index (m_pieces pm ! i) = int i) \<and>
      (\<forall>x \<in> set (m_work_queue pm). 0 \<le> x \<and> x < n_pieces pm))"

lemma get_piece_eq:
  "get_piece i pm = Inr p \<longleftrightarrow> 0 \<le> i \<and> i < n_pieces pm \<and> p = m_pieces pm ! nat i"
  by (auto simp: get_piece_def)

lemma get_put_piece:
  assumes "0 \<le> i" "i < n_pieces pm" "0 \<le> j"
  shows "get_piece j (put_piece i p pm) = (if j = i then Inr p else get_piece j pm)"
proof (cases "j < n_pieces pm")
  case True
  with assms show ?thesis
    by (auto simp: get_piece_def put_piece_def nth_list_update)
next
  case False
  with assms show ?thesis by (auto simp: get_piece_def put_piece_def bind_assertE bind_ensure)
qed

lemma n_pieces_put [simp]: "length (m_pieces (put_piece i p pm)) = length (m_pieces pm)"
  by (simp add: put_piece_def)

lemma queue_put [simp]: "m_work_queue (put_piece i p pm) = m_work_queue pm"
  by (simp add: put_piece_def)

lemma pm_ok_get: "pm_ok pm \<Longrightarrow> get_piece i pm = Inr p \<Longrightarrow> piece_ok p \<and> m_index p = i"
  by (auto simp: pm_ok_def get_piece_eq)

lemma pm_ok_put:
  "pm_ok pm \<Longrightarrow> 0 \<le> i \<Longrightarrow> piece_ok p \<Longrightarrow> m_index p = i \<Longrightarrow> pm_ok (put_piece i p pm)"
  by (cases "nat i < length (m_pieces pm)")
    (auto simp: pm_ok_def put_piece_def nth_list_update list_update_beyond)

lemma pm_ok_push:
  "pm_ok pm \<Longrightarrow> 0 \<le> i \<Longrightarrow> i < n_pieces pm \<Longrightarrow>
   pm_ok (pm\<lparr>m_work_queue := queue_push i (m_work_queue pm)\<rparr>)"
  by (auto simp: pm_ok_def)

lemma pm_ok_pop:
  "pm_ok pm \<Longrightarrow> queue_pop (m_work_queue pm) = Inr q \<Longrightarrow> pm_ok (pm\<lparr>m_work_queue := q\<rparr>)"
  by (cases "m_work_queue pm") (auto simp: pm_ok_def)

lemma queue_front_range:
  "pm_ok pm \<Longrightarrow> queue_front (m_work_queue pm) = Inr i \<Longrightarrow> 0 \<le> i \<and> i < n_pieces pm"
  by (cases "m_work_queue pm") (auto simp: pm_ok_def)

section \<open>The interface of the connections\<close>

text \<open>
  A connection looks a piece up, changes it, and stores it back; it never sees the vector.
\<close>

locale piece_store =
  fixes inv :: "'m \<Rightarrow> bool"
    and valid :: "'m \<Rightarrow> int \<Rightarrow> bool"
    and ok :: "int \<Rightarrow> 'p \<Rightarrow> bool"
    and lookup :: "int \<Rightarrow> 'm \<Rightarrow> 'p res"
    and store :: "int \<Rightarrow> 'p \<Rightarrow> 'm \<Rightarrow> 'm"
  assumes lookup_valid: "valid m i \<Longrightarrow> \<exists>p. lookup i m = Inr p"
    and lookup_ok: "inv m \<Longrightarrow> lookup i m = Inr p \<Longrightarrow> ok i p"
    and lookup_store: "valid m i \<Longrightarrow> valid m j \<Longrightarrow>
      lookup j (store i p m) = (if j = i then Inr p else lookup j m)"
    and valid_store: "valid (store i p m) j = valid m j"
    and inv_store: "inv m \<Longrightarrow> valid m i \<Longrightarrow> ok i p \<Longrightarrow> inv (store i p m)"
begin

definition modify :: "int \<Rightarrow> ('p \<Rightarrow> 'p res) \<Rightarrow> 'm \<Rightarrow> 'm res" where
  "modify i f m = bindE (lookup i m) (\<lambda>p. bindE (f p) (\<lambda>p'. Inr (store i p' m)))"

lemma modify_inv:
  assumes "inv m" "valid m i" "\<And>p p'. ok i p \<Longrightarrow> f p = Inr p' \<Longrightarrow> ok i p'"
    "modify i f m = Inr m'"
  shows "inv m'" "\<And>j. valid m' j = valid m j"
    "\<And>j. valid m j \<Longrightarrow> j \<noteq> i \<Longrightarrow> lookup j m' = lookup j m"
proof -
  obtain p p' where p: "lookup i m = Inr p" "f p = Inr p'" "m' = store i p' m"
    using assms(4) by (auto simp: modify_def)
  then have "ok i p'" using assms(1,3) lookup_ok by blast
  with p assms(1,2) show "inv m'" by (simp add: inv_store)
  show "valid m' j = valid m j" for j using p by (simp add: valid_store)
  show "lookup j m' = lookup j m" if "valid m j" "j \<noteq> i" for j
    using p that assms(2) by (simp add: lookup_store)
qed

end

interpretation pm: piece_store pm_ok "\<lambda>m i. 0 \<le> i \<and> i < n_pieces m"
  "\<lambda>i p. 0 \<le> i \<and> piece_ok p \<and> m_index p = i" get_piece put_piece
proof unfold_locales
  fix m i p
  assume "pm_ok m" "get_piece i m = Inr p"
  then show "0 \<le> i \<and> piece_ok p \<and> m_index p = i"
    using pm_ok_get by (auto simp: get_piece_eq)
qed (auto simp: get_piece_eq get_put_piece pm_ok_put)

section \<open>Construction\<close>

definition digest_at :: "byte list \<Rightarrow> nat \<Rightarrow> byte list" where
  "digest_at hashes i = take 20 (drop (20 * i) hashes)"

lemma build_piece_ok:
  assumes "20 * i + 20 \<le> length hashes" "0 \<le> len" "len \<le> int_max"
  shows "\<exists>p. build_piece len (map Some hashes) i = Inr p \<and> piece_ok p \<and> m_index p = int i \<and>
           m_piece_length p = len \<and> m_piece_hash p = Some (digest_at hashes i) \<and>
           m_backlog p = 0 \<and> m_total_requested p = 0 \<and> m_received_count p = 0 \<and> m_received_bytes p = 0"
proof -
  let ?src = "drop (20 * i) (map Some hashes)"
  have g: "mem_get (map Some hashes) (int (20 * i)) (int (length hashes) - int (20 * i)) = Inr ?src"
    using assms(1) by (simp add: mem_get_def nat_mult_distrib nat_diff_distrib)
  have l: "length (digest_at hashes i) = 20" using assms(1) by (simp add: digest_at_def)
  have "take 20 ?src = map Some (digest_at hashes i)"
    by (simp add: digest_at_def drop_map take_map)
  then have h: "hash_set ?src 20 info_hash_default = Inr (Some (digest_at hashes i))"
    using l by (intro hash_set_prefix) auto
  show ?thesis
    using g h piece_ok_new [OF l assms(2,3), of "int i"]
    by (auto simp: build_piece_def hash_move_def simp del: drop_map of_nat_mult)
qed

lemma build_pieces_ok:
  assumes "20 * (i + k) \<le> length hashes" "0 \<le> len" "len \<le> int_max"
  shows "\<exists>ps. build_pieces len (map Some hashes) i k = Inr ps \<and> length ps = k \<and>
           (\<forall>j < k. piece_ok (ps ! j) \<and> m_index (ps ! j) = int (i + j) \<and>
              m_piece_length (ps ! j) = len \<and>
              m_piece_hash (ps ! j) = Some (digest_at hashes (i + j)) \<and>
              m_backlog (ps ! j) = 0 \<and> m_total_requested (ps ! j) = 0 \<and>
              m_received_count (ps ! j) = 0 \<and> m_received_bytes (ps ! j) = 0)"
  using assms(1)
proof (induction k arbitrary: i)
  case (Suc k)
  then obtain p where p: "build_piece len (map Some hashes) i = Inr p" "piece_ok p"
    "m_index p = int i" "m_piece_length p = len" "m_piece_hash p = Some (digest_at hashes i)"
    "m_backlog p = 0" "m_total_requested p = 0" "m_received_count p = 0" "m_received_bytes p = 0"
    using build_piece_ok [of i hashes len] assms by auto
  from Suc have "20 * (Suc i + k) \<le> length hashes" by simp
  from Suc.IH [OF this] obtain ps where
    ps: "build_pieces len (map Some hashes) (Suc i) k = Inr ps" "length ps = k"
    "\<forall>j < k. piece_ok (ps ! j) \<and> m_index (ps ! j) = int (Suc i + j) \<and>
       m_piece_length (ps ! j) = len \<and> m_piece_hash (ps ! j) = Some (digest_at hashes (Suc i + j)) \<and>
       m_backlog (ps ! j) = 0 \<and> m_total_requested (ps ! j) = 0 \<and>
       m_received_count (ps ! j) = 0 \<and> m_received_bytes (ps ! j) = 0"
    by blast
  with p show ?case by (auto simp: nth_Cons split: nat.splits)
qed simp

lemma piece_manager_new_ok:
  assumes "0 \<le> len" "len \<le> int_max"
  shows "\<exists>pm. piece_manager_new len hashes = Inr pm \<and> pm_ok pm \<and>
           length (m_pieces pm) = length hashes div 20 \<and>
           m_work_queue pm = map int [0..<length hashes div 20] \<and>
           (\<forall>i < length hashes div 20.
              m_piece_hash (m_pieces pm ! i) = Some (take 20 (drop (20 * i) hashes)) \<and>
              m_piece_length (m_pieces pm ! i) = len \<and>
              m_backlog (m_pieces pm ! i) = 0 \<and> m_total_requested (m_pieces pm ! i) = 0 \<and>
              m_received_count (m_pieces pm ! i) = 0 \<and> m_received_bytes (m_pieces pm ! i) = 0)"
proof -
  have "20 * (0 + length hashes div 20) \<le> length hashes" by simp
  from build_pieces_ok [OF this assms] obtain ps where
    ps: "build_pieces len (map Some hashes) 0 (length hashes div 20) = Inr ps"
      "length ps = length hashes div 20"
      "\<forall>j < length hashes div 20. piece_ok (ps ! j) \<and> m_index (ps ! j) = int j \<and>
         m_piece_length (ps ! j) = len \<and> m_piece_hash (ps ! j) = Some (digest_at hashes j) \<and>
         m_backlog (ps ! j) = 0 \<and> m_total_requested (ps ! j) = 0 \<and>
         m_received_count (ps ! j) = 0 \<and> m_received_bytes (ps ! j) = 0"
    by auto
  have q: "map m_index ps = map int [0..<length hashes div 20]"
    using ps(2,3) by (intro nth_equalityI) auto
  then have "set (map m_index ps) = int ` {..<length ps}"
    using ps(2) by (simp add: lessThan_atLeast0)
  then show ?thesis
    using ps q by (auto simp: piece_manager_new_def pm_ok_def digest_at_def)
qed

text \<open>for \<open>n\<close> digests of 20 bytes the constructor builds \<open>n\<close> well-formed pieces, piece \<open>i\<close>
  with index \<open>i\<close>, digest \<open>i\<close> and the given length, and queues every index once, in order;
  bytes after the last full digest are ignored.\<close>

theorem piece_manager_new_pieces:
  assumes "0 \<le> len" "len \<le> int_max"
  shows "\<exists>pm. piece_manager_new len hashes = Inr pm \<and> pm_ok pm \<and>
           length (m_pieces pm) = length hashes div 20 \<and>
           m_work_queue pm = map int [0..<length hashes div 20] \<and>
           (\<forall>i < length hashes div 20.
              m_piece_hash (m_pieces pm ! i) = Some (take 20 (drop (20 * i) hashes)) \<and>
              m_piece_length (m_pieces pm ! i) = len)"
  using piece_manager_new_ok [OF assms, of hashes] by auto

theorem piece_manager_new_pieces_witness:
  "\<exists>pm. piece_manager_new 4 (replicate 47 9) = Inr pm \<and> pm_ok pm \<and>
     length (m_pieces pm) = length (replicate 47 (9::byte)) div 20 \<and>
     m_work_queue pm = map int [0..<length (replicate 47 (9::byte)) div 20] \<and>
     (\<forall>i < length (replicate 47 (9::byte)) div 20.
        m_piece_hash (m_pieces pm ! i) = Some (take 20 (drop (20 * i) (replicate 47 9))) \<and>
        m_piece_length (m_pieces pm ! i) = 4)"
  by (rule piece_manager_new_pieces) simp_all

text \<open>the bound of \<open>get_piece\<close> is off by one: for the index equal to the number of pieces
  the assertion passes and the access is past the end of the vector.\<close>

theorem get_piece_bound:
  shows "get_piece i pm =
    (if i < 0 \<or> n_pieces pm < i then Inl Abort
     else if i = n_pieces pm then Inl Undefined else Inr (m_pieces pm ! nat i))"
  by (auto simp: get_piece_def bind_assertE bind_ensure)

end
