(* ===== verification/Peer_Connection.thy ===== *)
theory Peer_Connection
  imports Peer_Core Bitfield Piece_Manager
begin

text \<open>
  \<open>src/peer_connection.cpp\<close>: the protocol half of a connection. \<open>peer\<close> extends the core
  record as \<open>peer_connection\<close> extends \<open>peer_connection_core\<close>. What the connections of a
  session share is \<open>shared\<close>: the piece manager and the one \<open>uv_async_t\<close> handle, whose data
  pointer is \<open>async_data\<close> and whose pending wake-up is \<open>async_pending\<close> (\<open>libuv\<close> coalesces
  several \<open>uv_async_send\<close> into one callback). Pointers to the piece manager, the work queue
  and the session are the shared state; a peer pointer is the peer's number.

  \<open>m_msg_len\<close> is never read and \<open>m_total\<close> only copied; they are left out.
\<close>

section \<open>State\<close>

record send_params =
  sp_index :: int
  sp_peer :: nat
  sp_loop :: bool

record shared =
  p_manager :: piece_manager
  async_data :: "send_params option"
  async_pending :: bool

record peer = core +
  self :: nat
  m_choked :: bool
  peer_bitfield :: bitfield
  m_async :: bool
  m_curr_piece :: int
  m_active :: bool
  m_session :: bool

text \<open>
  The constructor, for a peer stored at index \<open>i\<close>; handle and session are not null. \<open>peer_over\<close> adds
  the members of the class to the core, \<open>peer_fresh\<close> is the object with its member initialisers.
\<close>

definition peer_over :: "nat \<Rightarrow> core \<Rightarrow> peer" where
  "peer_over i c = core.extend c (peer.fields i True bitfield_default True (-1) False True)"

definition peer_fresh :: "nat \<Rightarrow> peer_info \<Rightarrow> peer" where
  "peer_fresh i info = peer_over i (core_fresh info)"

definition peer_new :: "nat \<Rightarrow> peer_info \<Rightarrow> peer res" where
  "peer_new i info = bindE (core_new info) (\<lambda>c. Inr (peer_over i c))"

text \<open>
  The move constructor, for a new object stored at index \<open>i\<close>: \<open>m_curr_piece\<close> is not taken over, and
  \<open>m_bitfield\<close> is moved from the new object itself.
\<close>

definition peer_move :: "nat \<Rightarrow> peer \<Rightarrow> peer res" where
  "peer_move i other =
     bindE (core_move other) (\<lambda>c.
     Inr (core.extend c (peer.fields i (m_choked other) (bitfield_self_move bitfield_default) (m_async other)
            (-1) (m_active other) (m_session other))))"

lemma peer_fresh_eq:
  "peer_fresh i info =
     \<lparr>m_recv_buffer = recv_buffer_default, m_disconnect = False, m_loop = False, m_state = None,
      m_peer_info = info, m_socket = False, stream_data = None, io_log = [],
      self = i, m_choked = True, peer_bitfield = bitfield_default, m_async = True,
      m_curr_piece = -1, m_active = False, m_session = True\<rparr>"
  by (simp add: peer_fresh_def peer_over_def core_fresh_def core.defs peer.defs)

lemma peer_new_eq:
  "peer_new i info =
     bindE (hash_copy (m_info_hash info)) (\<lambda>h. Inr (peer_fresh i (info\<lparr>m_info_hash := h\<rparr>)))"
  by (simp add: peer_new_def core_new_def peer_info_assign_def peer_fresh_def bindE_assoc)

lemma peer_move_eq:
  "peer_move i other =
     bindE (hash_copy (m_info_hash (m_peer_info other))) (\<lambda>h.
     Inr (other\<lparr>m_recv_buffer := fst (recv_buffer_move recv_buffer_default (m_recv_buffer other)),
                m_disconnect := False, m_state := None,
                m_peer_info := (m_peer_info other)\<lparr>m_info_hash := h\<rparr>,
                self := i, m_curr_piece := -1,
                peer_bitfield := bitfield_self_move bitfield_default\<rparr>))"
  by (cases other) (simp add: peer_move_def core_move_def core_fresh_def peer_info_assign_def bindE_assoc
      core.defs peer.defs)

text \<open>Copy assignment: the base class, \<open>m_choked\<close> and \<open>m_curr_piece\<close> keep their values.\<close>

definition peer_copy_assign :: "peer \<Rightarrow> peer \<Rightarrow> peer res" where
  "peer_copy_assign this other =
     bindE (bitfield_copy_assign (peer_bitfield this) (peer_bitfield other)) (\<lambda>bf.
     Inr (this\<lparr>peer_bitfield := bf, m_async := m_async other, m_active := m_active other,
               m_session := m_session other\<rparr>))"

section \<open>Message handlers\<close>

text \<open>Waking the main loop: the handle's data pointer is overwritten, then \<open>uv_async_send\<close>.\<close>

definition async_send :: "send_params \<Rightarrow> shared \<Rightarrow> shared" where
  "async_send params sh = sh\<lparr>async_data := Some params, async_pending := True\<rparr>"

definition next_length :: "peer \<Rightarrow> peer res" where
  "next_length p =
     bindE (reset 4 (m_recv_buffer p)) (\<lambda>rb.
     Inr (p\<lparr>m_state := Some READ_MESSAGE_SIZE, m_recv_buffer := rb\<rparr>))"

definition handle_unchoke :: "peer \<times> shared \<Rightarrow> (peer \<times> shared) res" where
  "handle_unchoke ps =
     (let (p, sh) = ps; pm = p_manager sh in
      bindE (assertE (m_async p)) (\<lambda>_.
      bindE (queue_front (m_work_queue pm)) (\<lambda>index.
      let params = \<lparr>sp_index = index, sp_peer = self p, sp_loop = m_loop p\<rparr>;
          sh = async_send params sh in
      bindE (queue_pop (m_work_queue pm)) (\<lambda>q.
      let sh = sh\<lparr>p_manager := pm\<lparr>m_work_queue := q\<rparr>\<rparr> in
      bindE (next_length (p\<lparr>m_choked := False\<rparr>)) (\<lambda>p'. Inr (p', sh))))))"

definition handle_choke :: "peer \<times> shared \<Rightarrow> (peer \<times> shared) res" where
  "handle_choke ps =
     bindE (next_length ((fst ps)\<lparr>m_choked := True\<rparr>)) (\<lambda>p'. Inr (p', snd ps))"

text \<open>
  \<open>handle_bitfield\<close>: the message starts at its identifier, the bitfield is taken from byte 5 on,
  with a length of \<open>size - 5\<close> in \<open>size_t\<close>. A peer that is not choked keeps the message.
\<close>

definition handle_bitfield :: "peer \<times> shared \<Rightarrow> (peer \<times> shared) res" where
  "handle_bitfield ps =
     (let (p, sh) = ps in
      bindE (get (m_recv_buffer p)) (\<lambda>(chunk, sz).
      bindE (ensure (chunk \<noteq> None)) (\<lambda>_.
      bindE (bitfield_new (drop 5 (the chunk)) (usize (sz - 5))) (\<lambda>bf.
      let p = p\<lparr>peer_bitfield := fst (bitfield_move (peer_bitfield p) bf)\<rparr> in
      if m_choked p then
        bindE create_interested_message (\<lambda>msg.
        bindE (ensure (m_socket p)) (\<lambda>_.
        bindE (next_length (log_io (Uv_write msg) p)) (\<lambda>p'. Inr (p', sh))))
      else Inr (p, sh)))))"

text \<open>
  \<open>handle_piece\<close>: index and offset are read after the identifier, the block is the rest of the
  message. \<open>modify_piece\<close> is the update through the reference returned by \<open>get_piece\<close>.
\<close>

definition modify_piece :: "int \<Rightarrow> (piece \<Rightarrow> piece res) \<Rightarrow> piece_manager \<Rightarrow> piece_manager res" where
  "modify_piece i f pm =
     bindE (get_piece i pm) (\<lambda>p. bindE (f p) (\<lambda>p'. Inr (put_piece i p' pm)))"

definition take_block :: "block \<Rightarrow> piece \<Rightarrow> piece res" where
  "take_block b p =
     bindE (incoming_block b p) (\<lambda>p'.
     bindE (i32 (m_backlog p' - 1)) (\<lambda>k. Inr (p'\<lparr>m_backlog := k\<rparr>)))"

definition handle_piece :: "peer \<times> shared \<Rightarrow> (peer \<times> shared) res" where
  "handle_piece ps =
     (let (p, sh) = ps in
      bindE (get (m_recv_buffer p)) (\<lambda>(chunk, sz).
      bindE (ensure (chunk \<noteq> None)) (\<lambda>_.
      let block_size = narrow32 (usize (sz - 9)) in
      bindE (deserialize_int (drop 1 (the chunk)) 4) (\<lambda>index.
      bindE (deserialize_int (drop 5 (the chunk)) 4) (\<lambda>offset.
      let new_block = \<lparr>b_data = drop 9 (the chunk), b_index = index, b_offset = offset,
                       b_size = block_size\<rparr> in
      bindE (modify_piece index (take_block new_block) (p_manager sh)) (\<lambda>pm.
      let params = \<lparr>sp_index = index, sp_peer = self p, sp_loop = m_loop p\<rparr> in
      bindE (ensure (m_async p)) (\<lambda>_.
      let sh = async_send params (sh\<lparr>p_manager := pm\<rparr>) in
      bindE (next_length p) (\<lambda>p'. Inr (p', sh)))))))))"

definition do_message :: "peer \<times> shared \<Rightarrow> (peer \<times> shared) res" where
  "do_message ps =
     (let (p, sh) = ps in
      bindE (get (m_recv_buffer p)) (\<lambda>(msg_buff, payload_len).
      bindE (ensure (msg_buff \<noteq> None)) (\<lambda>_.
      bindE (read_bytes (the msg_buff) 0 1) (\<lambda>b.
      case to_message_id (hd b) of
        Some BITFIELD \<Rightarrow> handle_bitfield ps
      | Some UNCHOKE \<Rightarrow> handle_unchoke ps
      | Some CHOKE \<Rightarrow> handle_choke ps
      | Some PIECE \<Rightarrow> handle_piece ps
      | _ \<Rightarrow> bindE (next_length p) (\<lambda>p'. Inr (p', sh))))))"

section \<open>The receive state machine\<close>

text \<open>
  \<open>on_receive\<close> is a chain of \<open>if\<close> statements, one per state, each of which may return. A
  statement is a function to a flag (\<open>True\<close>: return) and the state; \<open>chain\<close> runs the next
  statement when the flag is \<open>False\<close>.
\<close>

definition chain ::
  "(bool \<times> 'c) res \<Rightarrow> ('c \<Rightarrow> (bool \<times> 'c) res) \<Rightarrow> (bool \<times> 'c) res" where
  "chain r f = bindE r (\<lambda>(ret, c). if ret then Inr (True, c) else f c)"

definition read_protocol_id :: "peer \<Rightarrow> (bool \<times> peer) res" where
  "read_protocol_id p =
     (if m_state p \<noteq> Some READ_PROTOCOL_ID then Inr (False, p)
      else if \<not> is_message_finished (m_recv_buffer p) then Inr (True, p)
      else
        bindE (assertE (m_message_size (m_recv_buffer p) = 20)) (\<lambda>_.
        bindE (get (m_recv_buffer p)) (\<lambda>(chunk, sz).
        bindE (assertE (sz = 20)) (\<lambda>_.
        bindE (ensure (chunk \<noteq> None)) (\<lambda>_.
        bindE (read_bytes (the chunk) 0 1) (\<lambda>c0.
        let protocol_size = sint (hd c0) in
        bindE (if protocol_size \<noteq> 19 then Inr True
               else bindE (read_bytes (the chunk) 1 19) (\<lambda>bs. Inr (bs \<noteq> protocol_id))) (\<lambda>bad.
        if bad then Inr (True, p\<lparr>m_disconnect := True\<rparr>)
        else
          bindE (reset 28 (m_recv_buffer p)) (\<lambda>rb.
          Inr (False, p\<lparr>m_state := Some READ_INFO_HASH, m_recv_buffer := rb\<rparr>)))))))))"

definition read_info_hash :: "peer \<Rightarrow> (bool \<times> peer) res" where
  "read_info_hash p =
     (if m_state p \<noteq> Some READ_INFO_HASH then Inr (False, p)
      else
        bindE (assertE (m_message_size (m_recv_buffer p) = 28)) (\<lambda>_.
        if \<not> is_message_finished (m_recv_buffer p) then Inr (True, p)
        else
          bindE (get (m_recv_buffer p)) (\<lambda>(chunk, sz).
          bindE (assertE (sz = 28)) (\<lambda>_.
          bindE (ensure (chunk \<noteq> None)) (\<lambda>_.
          bindE (hash_set (drop 8 (the chunk)) 20 info_hash_default) (\<lambda>received_hash.
          if hash_neq (m_info_hash (m_peer_info p)) received_hash
          then Inr (True, p\<lparr>m_disconnect := True\<rparr>)
          else
            bindE (reset 20 (m_recv_buffer p)) (\<lambda>rb.
            Inr (False, p\<lparr>m_state := Some READ_PEER_ID, m_recv_buffer := rb\<rparr>))))))))"

definition read_peer_id :: "peer \<Rightarrow> (bool \<times> peer) res" where
  "read_peer_id p =
     (if m_state p \<noteq> Some READ_PEER_ID then Inr (False, p)
      else
        bindE (assertE (m_message_size (m_recv_buffer p) = 20)) (\<lambda>_.
        if \<not> is_message_finished (m_recv_buffer p) then Inr (True, p)
        else
          bindE (get (m_recv_buffer p)) (\<lambda>(chunk, sz).
          bindE (assertE (sz = 20)) (\<lambda>_.
          bindE (ensure (chunk \<noteq> None)) (\<lambda>_.
          bindE (read_bytes (the chunk) 0 20) (\<lambda>bs.
          bindE (mem_get (m_remote_id (m_peer_info p)) 0 20) (\<lambda>rid.
          if bs \<noteq> rid then Inr (True, p\<lparr>m_disconnect := True\<rparr>)
          else
            bindE (reset 4 (m_recv_buffer p)) (\<lambda>rb.
            Inr (False, p\<lparr>m_active := True, m_state := Some READ_MESSAGE_SIZE,
                          m_recv_buffer := rb\<rparr>)))))))))"

definition get_length :: "cell list \<Rightarrow> int \<Rightarrow> int res" where
  "get_length buff n = deserialize_int buff n"

definition read_message_size :: "peer \<Rightarrow> (bool \<times> peer) res" where
  "read_message_size p =
     (if m_state p \<noteq> Some READ_MESSAGE_SIZE then Inr (False, p)
      else
        bindE (assertE (m_message_size (m_recv_buffer p) = 4)) (\<lambda>_.
        if \<not> is_message_finished (m_recv_buffer p) then Inr (True, p)
        else
          bindE (get (m_recv_buffer p)) (\<lambda>(chunk, sz).
          bindE (ensure (chunk \<noteq> None)) (\<lambda>_.
          bindE (get_length (the chunk) sz) (\<lambda>message_len.
          if message_len = 0 then Inr (True, p)
          else if message_len > 0 then
            bindE (reset message_len (m_recv_buffer p)) (\<lambda>rb.
            Inr (False, p\<lparr>m_recv_buffer := rb, m_state := Some READ_MESSAGE\<rparr>))
          else Inr (False, p))))))"

definition read_message :: "peer \<times> shared \<Rightarrow> (peer \<times> shared) res" where
  "read_message ps =
     (if m_state (fst ps) \<noteq> Some READ_MESSAGE then Inr ps
      else if \<not> is_message_finished (m_recv_buffer (fst ps)) then Inr ps
      else do_message ps)"

definition on_receive :: "int \<Rightarrow> peer \<times> shared \<Rightarrow> (peer \<times> shared) res" where
  "on_receive passed_bytes ps =
     bindE (ensure (m_state (fst ps) \<noteq> None)) (\<lambda>_.
     bindE (chain (chain (chain (read_protocol_id (fst ps)) read_info_hash) read_peer_id)
              read_message_size) (\<lambda>(ret, p).
     if ret then Inr (p, snd ps) else read_message (p, snd ps)))"

definition on_remote_close :: "peer \<times> shared \<Rightarrow> (peer \<times> shared) res" where
  "on_remote_close ps =
     (let (p, sh) = ps in
      if m_curr_piece p = -1 then Inr ps
      else
        bindE (modify_piece (m_curr_piece p) piece_reset (p_manager sh)) (\<lambda>pm.
        let pm = pm\<lparr>m_work_queue := queue_push (m_curr_piece p) (m_work_queue pm)\<rparr> in
        Inr (p\<lparr>m_active := False\<rparr>, sh\<lparr>p_manager := pm\<rparr>)))"

end
