(* ===== verification/Stream_Receiver.thy ===== *)
theory Stream_Receiver
  imports Peer_Core
begin

text \<open>
  The contract between the two halves of a connection. The transport half promises to call
  the virtual \<open>on_receive\<close> with the cursor advanced, the protocol half promises to leave an
  unfinished message alone and to consume a finished one. From the contract follows that
  the loop over a read, and any sequence of reads, implements a byte-at-a-time
  specification: how the stream is cut into reads does not matter.
\<close>

section \<open>The byte-at-a-time specification\<close>

abbreviation need :: "'a core_scheme \<Rightarrow> int" where
  "need p \<equiv> m_message_size (m_recv_buffer p)"

text \<open>
  \<open>want\<close> is the length of the message awaited and \<open>spec\<close> the effect of a complete message,
  undefined (\<open>None\<close>) where the program is not promised to go on.
\<close>

fun feed_with ::
  "('p \<Rightarrow> int) \<Rightarrow> (byte list \<Rightarrow> 'p \<times> 's \<Rightarrow> ('p \<times> 's) option) \<Rightarrow>
   byte list \<Rightarrow> byte list \<times> 'p \<times> 's \<Rightarrow> (byte list \<times> 'p \<times> 's) option" where
  "feed_with want spec [] st = Some st"
| "feed_with want spec (b # bs) (acc, ps) =
     (let acc' = acc @ [b] in
      if int (length acc') < want (fst ps) then feed_with want spec bs (acc', ps)
      else case spec acc' ps of None \<Rightarrow> None | Some ps' \<Rightarrow> feed_with want spec bs ([], ps'))"

lemma feed_append:
  "feed_with w d (xs @ ys) st = Option.bind (feed_with w d xs st) (feed_with w d ys)"
proof (induction xs arbitrary: st)
  case (Cons x xs)
  then show ?case by (cases st) (auto simp: Let_def split: option.splits)
qed simp

lemma feed_short:
  "int (length acc + length bs) < w (fst ps) \<Longrightarrow> feed_with w d bs (acc, ps) = Some (acc @ bs, ps)"
  by (induction bs arbitrary: acc) (auto simp: Let_def)

lemma feed_complete:
  assumes "int (length acc + length bs) = w (fst ps)" "bs \<noteq> []"
  shows "feed_with w d (bs @ rest) (acc, ps) =
    (case d (acc @ bs) ps of None \<Rightarrow> None | Some ps' \<Rightarrow> feed_with w d rest ([], ps'))"
  using assms
proof (induction bs arbitrary: acc)
  case (Cons b bs)
  show ?case
  proof (cases "bs = []")
    case True
    with Cons.prems show ?thesis by (simp add: Let_def)
  next
    case False
    with Cons.prems have "int (length (acc @ [b])) < w (fst ps)" by (cases bs) auto
    with Cons.IH [of "acc @ [b]"] Cons.prems False show ?thesis by (simp add: Let_def)
  qed
qed simp

section \<open>The contract\<close>

text \<open>A connection whose cursor has just reached the end of \<open>msg\<close>.\<close>

definition at_end :: "'a core_scheme \<Rightarrow> byte list \<Rightarrow> byte list \<Rightarrow> bool" where
  "at_end p msg rest =
     (rb_holds (m_recv_buffer p) (msg @ rest) \<and> msg \<noteq> [] \<and> need p = int (length msg) \<and>
      m_recv_pos (m_recv_buffer p) = need p)"

locale stream_receiver =
  fixes handler :: "int \<Rightarrow> 'a core_scheme \<times> 's \<Rightarrow> ('a core_scheme \<times> 's) res"
    and live :: "'a core_scheme \<Rightarrow> bool"
    and abs :: "'a core_scheme \<Rightarrow> 'p"
    and spec :: "byte list \<Rightarrow> 'p \<times> 's \<Rightarrow> ('p \<times> 's) option"
    and want :: "'p \<Rightarrow> int"
  assumes want_abs: "want (abs p) = need p"
    and live_bounds: "live p \<Longrightarrow> 0 < need p \<and> need p * 3 \<le> int_max \<and> m_socket p \<and> \<not> m_disconnect p"
    and live_buffer: "m_message_size rb = need p \<Longrightarrow> live (p\<lparr>m_recv_buffer := rb\<rparr>) = live p"
    and live_chunk: "live (p\<lparr>stream_data := d, io_log := l\<rparr>) = live p"
    and abs_buffer: "m_message_size rb = need p \<Longrightarrow> abs (p\<lparr>m_recv_buffer := rb\<rparr>) = abs p"
    and abs_chunk: "abs (p\<lparr>stream_data := d, io_log := io_log p @ [Uv_read_start]\<rparr>) = abs p"
    and unfinished: "live p \<Longrightarrow> \<not> is_message_finished (m_recv_buffer p) \<Longrightarrow> handler n (p, s) = Inr (p, s)"
    and finished: "at_end p msg rest \<Longrightarrow> live p \<Longrightarrow> spec msg (abs p, s) = Some (a, s') \<Longrightarrow>
      \<exists>p'. handler n (p, s) = Inr (p', s') \<and> abs p' = a \<and> live p' \<and>
           rb_holds (m_recv_buffer p') rest \<and> m_recv_pos (m_recv_buffer p') = 0 \<and>
           stream_data p' = stream_data p \<and> 0 < rb_cap (m_recv_buffer p')"
begin

text \<open>Between two reads: \<open>w\<close> is the part of the current message received so far.\<close>

definition idle :: "'a core_scheme \<Rightarrow> byte list \<Rightarrow> bool" where
  "idle p w = (ready p w \<and> live p \<and> int (length w) < need p)"

text \<open>Inside the loop: \<open>acc\<close> is advanced over, \<open>pend\<close> is not yet.\<close>

definition midway :: "'a core_scheme \<Rightarrow> byte list \<Rightarrow> byte list \<Rightarrow> bool" where
  "midway p acc pend =
     (rb_holds (m_recv_buffer p) (acc @ pend) \<and> m_recv_pos (m_recv_buffer p) = int (length acc) \<and>
      int (length acc) < need p \<and> live p \<and> 0 < rb_cap (m_recv_buffer p))"

lemma loop_short:
  assumes "midway p acc pend" "int (length acc + length pend) < need p"
  shows "\<exists>p'. receive_loop handler (int (length pend)) (p, s) = Inr (p', s) \<and> abs p' = abs p \<and>
           midway p' (acc @ pend) [] \<and> stream_data p' = stream_data p"
proof -
  obtain rb' where rb': "advance_pos (int (length pend)) (m_recv_buffer p) = Inr (int (length pend), rb')"
    "\<not> is_message_finished rb'" "rb_holds rb' (acc @ pend)"
    "m_recv_pos rb' = int (length (acc @ pend))" "m_message_size rb' = need p"
    using rb.incomplete [of "m_recv_buffer p" "acc @ pend" "int (length pend)"] assms
    by (auto simp: midway_def)
  have cap: "rb_cap rb' = rb_cap (m_recv_buffer p)"
    using rb'(1) by (auto simp: advance_pos_def rb_cap_def Let_def)
  let ?p = "p\<lparr>m_recv_buffer := rb'\<rparr>"
  have "live ?p" using assms(1) rb'(5) live_buffer by (auto simp: midway_def)
  then have "handler (int (length pend)) (?p, s) = Inr (?p, s)"
    using unfinished rb'(2) by simp
  with rb'(1) have "receive_loop handler (int (length pend)) (p, s) = Inr (?p, s)"
    by (simp add: receive_loop.simps)
  then show ?thesis
    using rb' \<open>live ?p\<close> assms abs_buffer cap by (auto simp: midway_def)
qed

lemma loop_message:
  assumes "midway p acc (bs @ rest)" "int (length acc + length bs) = need p" "bs \<noteq> []"
    "spec (acc @ bs) (abs p, s) = Some (a, s')"
  shows "\<exists>p'. abs p' = a \<and> stream_data p' = stream_data p \<and> midway p' [] rest \<and>
           receive_loop handler (int (length (bs @ rest))) (p, s) =
             (if rest = [] then Inr (p', s')
              else receive_loop handler (int (length rest)) (p', s'))"
proof -
  have m: "rb_holds (m_recv_buffer p) ((acc @ bs) @ rest)" "need p = int (length (acc @ bs))"
    "m_recv_pos (m_recv_buffer p) = int (length acc)" "live p" "0 < rb_cap (m_recv_buffer p)"
    using assms(1,2) by (auto simp: midway_def)
  have lt: "m_recv_pos (m_recv_buffer p) < need p" using m assms(3) by (cases bs) auto
  obtain rb' where rb':
    "advance_pos (int (length (bs @ rest))) (m_recv_buffer p) = Inr (int (length bs), rb')"
    "is_message_finished rb'" "rb_holds rb' ((acc @ bs) @ rest)" "m_message_size rb' = need p"
    "m_recv_pos rb' = need p"
    using rb.complete [OF m(1,2) _ lt, of "int (length (bs @ rest))"] assms(3) m(2,3) by auto
  let ?p = "p\<lparr>m_recv_buffer := rb'\<rparr>"
  have "at_end ?p (acc @ bs) rest"
    using rb' m(2) assms(3) by (simp add: at_end_def)
  moreover have "live ?p" "abs ?p = abs p"
    using m(4) rb'(4) live_buffer abs_buffer by auto
  ultimately obtain p' where p': "handler (int (length bs)) (?p, s) = Inr (p', s')" "abs p' = a"
    "live p'" "rb_holds (m_recv_buffer p') rest" "m_recv_pos (m_recv_buffer p') = 0"
    "stream_data p' = stream_data p" "0 < rb_cap (m_recv_buffer p')"
    using finished [of ?p "acc @ bs" rest s a s'] assms(4) by auto
  have "receive_loop handler (int (length (bs @ rest))) (p, s) =
      (if rest = [] then Inr (p', s') else receive_loop handler (int (length rest)) (p', s'))"
    using rb'(1) p'(1) assms(3) by (simp add: receive_loop.simps [of _ _ p s])
  then show ?thesis
    using p' live_bounds by (auto simp: midway_def)
qed

text \<open>The loop over the bytes of one read implements the specification on them.\<close>

lemma loop_feed:
  assumes "midway p acc pend" "feed_with want spec pend (acc, abs p, s) = Some (w, a, s')"
  shows "\<exists>p'. receive_loop handler (int (length pend)) (p, s) = Inr (p', s') \<and> abs p' = a \<and>
           midway p' w [] \<and> stream_data p' = stream_data p"
  using assms
proof (induction "length pend" arbitrary: p acc pend s rule: less_induct)
  case less
  show ?case
  proof (cases "int (length acc + length pend) < need p")
    case True
    then have "feed_with want spec pend (acc, abs p, s) = Some (acc @ pend, abs p, s)"
      by (simp add: feed_short want_abs)
    with less.prems(2) loop_short [OF less.prems(1) True, of s] show ?thesis by auto
  next
    case False
    have lt: "int (length acc) < need p" using less.prems(1) by (simp add: midway_def)
    let ?k = "nat (need p) - length acc"
    define bs rest where "bs = take ?k pend" and "rest = drop ?k pend"
    have k: "0 < ?k" "?k \<le> length pend" using lt False by auto
    have bs: "pend = bs @ rest" "bs \<noteq> []" "int (length acc + length bs) = need p"
      using k lt by (auto simp: bs_def rest_def)
    have "feed_with want spec (bs @ rest) (acc, abs p, s) =
        (case spec (acc @ bs) (abs p, s) of None \<Rightarrow> None | Some ps' \<Rightarrow> feed_with want spec rest ([], ps'))"
      using bs by (intro feed_complete) (auto simp: want_abs)
    with less.prems(2) bs(1) obtain b t where
      b: "spec (acc @ bs) (abs p, s) = Some (b, t)"
        "feed_with want spec rest ([], b, t) = Some (w, a, s')"
      by (auto split: option.splits)
    obtain q where q: "abs q = b" "stream_data q = stream_data p" "midway q [] rest"
      "receive_loop handler (int (length (bs @ rest))) (p, s) =
        (if rest = [] then Inr (q, t) else receive_loop handler (int (length rest)) (q, t))"
      using loop_message [of p acc bs rest s b t] less.prems(1) bs b(1) by auto
    show ?thesis
    proof (cases "rest = []")
      case True
      with q b bs show ?thesis by auto
    next
      case False
      have "length rest < length pend" using bs by simp
      from less.hyps [OF this q(3)] b(2) q False bs(1) show ?thesis by auto
    qed
  qed
qed

lemma internal_feed:
  assumes "rb_holds ((m_recv_buffer p)\<lparr>m_recv_end := m_recv_end (m_recv_buffer p) + int (length bs)\<rparr>)
      (w @ bs)" "m_recv_pos (m_recv_buffer p) = int (length w)" "int (length w) < need p" "live p"
    "stream_data p \<noteq> None" "0 < rb_cap (m_recv_buffer p)"
    "feed_with want spec bs (w, abs p, s) = Some (w', a, s')"
    "rb_holds (m_recv_buffer p) w"
  shows "\<exists>p'. on_receive_internal handler (int (length bs)) (p, s) = Inr (p', s') \<and> abs p' = a \<and>
           idle p' w'"
proof -
  let ?rb = "m_recv_buffer p"
  let ?rb1 = "?rb\<lparr>m_recv_end := m_recv_end ?rb + int (length bs)\<rparr>"
  have mx: "max_receive ?rb = Inr (rb_cap ?rb - m_recv_end ?rb)"
    using max_receive_holds [OF assms(8)] .
  have le: "int (length bs) \<le> rb_cap ?rb - m_recv_end ?rb"
    using assms(1) by (simp add: rb_holds_def rb_cap_def)
  have need: "0 < need p" using live_bounds [OF assms(4)] by simp
  have rcv: "received (int (length bs)) ?rb = Inr ?rb1"
    using received_holds [OF assms(1) need] .
  let ?p = "p\<lparr>m_recv_buffer := ?rb1\<rparr>"
  have mid: "midway ?p w bs"
    using assms live_buffer [of ?rb1 p] by (simp add: midway_def rb_cap_def)
  have abs1: "abs ?p = abs p" using abs_buffer [of ?rb1 p] by simp
  from loop_feed [OF mid, of s w' a s'] assms(7) abs1 obtain q where
    q: "receive_loop handler (int (length bs)) (?p, s) = Inr (q, s')" "abs q = a"
      "midway q w' []" "stream_data q = stream_data p"
    by auto
  have qb: "\<not> m_disconnect q" "m_socket q" "need q * 3 \<le> int_max" "stream_data q \<noteq> None"
    using q(3,4) assms(5) live_bounds [of q] by (auto simp: midway_def)
  obtain c' where c': "setup_receive q = Inr c'" "ready c' w'"
    "c' = q\<lparr>m_recv_buffer := m_recv_buffer c', stream_data := stream_data c',
           io_log := io_log q @ [Uv_read_start]\<rparr>"
    "need c' = need q"
    using setup_receive_ready [of q w'] q(3) qb by (auto simp: midway_def)
  let ?q = "q\<lparr>m_recv_buffer := m_recv_buffer c'\<rparr>"
  have c'': "c' = ?q\<lparr>stream_data := stream_data c', io_log := io_log ?q @ [Uv_read_start]\<rparr>"
    using c'(3) by simp
  have "abs c' = abs q"
    by (subst c'') (simp only: abs_chunk abs_buffer c'(4))
  moreover have "live c'"
    using q(3) by (subst c'') (simp only: live_chunk live_buffer c'(4) midway_def)
  moreover have "int (length w') < need c'"
    using q(3) c'(4) by (simp add: midway_def)
  ultimately have "abs c' = a" "idle c' w'"
    using q(2) c'(2) by (auto simp: idle_def)
  moreover have "on_receive_internal handler (int (length bs)) (p, s) = Inr (c', s')"
    using mx le rcv q(1) qb(1) c'(1) by (simp add: on_receive_internal_def)
  ultimately show ?thesis by blast
qed

lemma read_feed:
  assumes "idle p w" "stream_data p = Some (off, n)" "int (length bs) \<le> n"
    "feed_with want spec bs (w, abs p, s) = Some (w', a, s')"
  shows "\<exists>p'. on_read handler close (Inr bs) (p, s) = Inr (p', s') \<and> abs p' = a \<and> idle p' w'"
proof -
  let ?rb = "m_recv_buffer p"
  have r: "rb_holds ?rb w" "m_recv_pos ?rb = int (length w)" "off = m_recv_end ?rb"
    "m_recv_end ?rb + n \<le> rb_cap ?rb" "live p" "int (length w) < need p"
    using assms(1,2) by (auto simp: idle_def ready_def)
  have cap: "0 < rb_cap ?rb" using assms(1) ready_cap by (auto simp: idle_def)
  obtain rb1 where rb1: "socket_store (m_recv_end ?rb) bs ?rb = Inr rb1"
    "rb_holds (rb1\<lparr>m_recv_end := m_recv_end ?rb + int (length bs)\<rparr>) (w @ bs)"
    "rb_cap rb1 = rb_cap ?rb" "m_recv_end rb1 = m_recv_end ?rb" "m_recv_pos rb1 = m_recv_pos ?rb"
    "m_message_size rb1 = need p" "m_recv_start rb1 = m_recv_start ?rb"
    using socket_store_holds [OF r(1) cap, of bs] r(4) assms(3) by auto
  have hold: "rb_holds rb1 w"
  proof -
    have "take (length w) (drop (nat (m_recv_start rb1)) (rb_cells rb1)) = map Some w"
      using rb1(2) take_map_Some_prefix [of "length (w @ bs)" _ "w @ bs" "length w"]
      by (simp add: rb_holds_def rb_cells_def)
    then show ?thesis
      using rb1 r(1) by (simp add: rb_holds_def rb_cells_def rb_cap_def)
  qed
  let ?p = "p\<lparr>m_recv_buffer := rb1\<rparr>"
  have "live ?p" "abs ?p = abs p" using r(5) rb1(6) live_buffer abs_buffer by auto
  with internal_feed [of ?p bs w s w' a s'] rb1 r hold cap assms(2,4) obtain p' where
    "on_receive_internal handler (int (length bs)) (?p, s) = Inr (p', s')" "abs p' = a" "idle p' w'"
    by auto
  then show ?thesis
    using assms(2) rb1(1) r(3) by (auto simp: on_read_def alloc_cb_def)
qed

end

section \<open>Sequences of reads\<close>

fun run_reads ::
  "(int \<Rightarrow> 'a core_scheme \<times> 's \<Rightarrow> ('a core_scheme \<times> 's) res) \<Rightarrow>
   ('a core_scheme \<times> 's \<Rightarrow> ('a core_scheme \<times> 's) res) \<Rightarrow> byte list list \<Rightarrow>
   'a core_scheme \<times> 's \<Rightarrow> ('a core_scheme \<times> 's) res" where
  "run_reads f g [] cs = Inr cs"
| "run_reads f g (bs # bss) cs = bindE (on_read f g (Inr bs) cs) (run_reads f g bss)"

text \<open>Every read fits the chunk the connection offers at that time, as \<open>libuv\<close> guarantees.\<close>

fun reads_fit ::
  "(int \<Rightarrow> 'a core_scheme \<times> 's \<Rightarrow> ('a core_scheme \<times> 's) res) \<Rightarrow>
   ('a core_scheme \<times> 's \<Rightarrow> ('a core_scheme \<times> 's) res) \<Rightarrow> byte list list \<Rightarrow>
   'a core_scheme \<times> 's \<Rightarrow> bool" where
  "reads_fit f g [] cs = True"
| "reads_fit f g (bs # bss) cs =
     ((case stream_data (fst cs) of None \<Rightarrow> False | Some (off, n) \<Rightarrow> int (length bs) \<le> n) \<and>
      (case on_read f g (Inr bs) cs of Inl _ \<Rightarrow> True | Inr cs' \<Rightarrow> reads_fit f g bss cs'))"

context stream_receiver
begin

lemma reads_feed:
  assumes "idle p w" "reads_fit handler close bss (p, s)"
    "feed_with want spec (concat bss) (w, abs p, s) = Some (w', a, s')"
  shows "\<exists>p'. run_reads handler close bss (p, s) = Inr (p', s') \<and> abs p' = a \<and> idle p' w'"
  using assms
proof (induction bss arbitrary: p w s)
  case (Cons bs bss)
  from Cons.prems(3) obtain w1 a1 s1 where
    f: "feed_with want spec bs (w, abs p, s) = Some (w1, a1, s1)"
      "feed_with want spec (concat bss) (w1, a1, s1) = Some (w', a, s')"
    by (auto simp: feed_append Option.bind_eq_Some_conv)
  obtain off n where d: "stream_data p = Some (off, n)" "int (length bs) \<le> n"
    using Cons.prems(2) by (auto split: option.splits)
  from read_feed [OF Cons.prems(1) d f(1)] obtain p1 where
    p1: "on_read handler close (Inr bs) (p, s) = Inr (p1, s1)" "abs p1 = a1" "idle p1 w1" by blast
  moreover from this Cons.prems(2) have "reads_fit handler close bss (p1, s1)" by auto
  ultimately show ?case using Cons.IH [of p1 w1 s1] f(2) by auto
qed auto

end

end
