(* ===== verification/Peer_Spec.thy ===== *)
theory Peer_Spec
  imports Peer_Connection Stream_Receiver
begin

text \<open>
  What a connection promises about its input, without buffers: the bytes of the stream are
  collected one by one into the current message, and a complete message is delivered to the
  protocol. \<open>deliver\<close> is partial: it is \<open>None\<close> where the program disconnects, faults or stops
  making progress. The refinement says that as long as the specification is defined, the
  program does the same for every way the stream is cut into reads.

  \<open>strip\<close> is the abstraction of a connection: the receive buffer is reduced to the length of
  the message awaited, the chunk and the requests to read on are dropped.
\<close>

section \<open>Abstract state\<close>

definition awaiting :: "int \<Rightarrow> recv_buffer" where
  "awaiting n = recv_buffer_default\<lparr>m_message_size := n\<rparr>"

definition strip :: "peer \<Rightarrow> peer" where
  "strip p = p\<lparr>m_recv_buffer := awaiting (need p), stream_data := None,
               io_log := filter (\<lambda>a. a \<noteq> Uv_read_start) (io_log p)\<rparr>"

definition await :: "p_state \<Rightarrow> int \<Rightarrow> peer \<Rightarrow> peer" where
  "await st n p = p\<lparr>m_state := Some st, m_recv_buffer := awaiting n\<rparr>"

section \<open>The protocol\<close>

definition word_at :: "nat \<Rightarrow> byte list \<Rightarrow> int" where
  "word_at k msg = sint (be_word (take 4 (drop k msg)))"

definition block_of_message :: "byte list \<Rightarrow> block" where
  "block_of_message msg =
     \<lparr>b_data = map Some (drop 9 msg), b_index = word_at 1 msg, b_offset = word_at 5 msg,
      b_size = int (length msg) - 9\<rparr>"

definition wake :: "int \<Rightarrow> peer \<Rightarrow> shared \<Rightarrow> shared" where
  "wake i p sh = async_send \<lparr>sp_index = i, sp_peer = self p, sp_loop = m_loop p\<rparr> sh"

definition deliver_bitfield :: "byte list \<Rightarrow> peer \<Rightarrow> peer" where
  "deliver_bitfield msg p =
     log_io (Uv_write (be_bytes 1 @ [message_id_byte INTERESTED]))
       (p\<lparr>peer_bitfield := \<lparr>m_bitfield = Some (map Some (drop 5 msg)),
                           bf_size = int (length msg) - 5\<rparr>\<rparr>)"

definition deliver_piece :: "byte list \<Rightarrow> peer \<Rightarrow> shared \<Rightarrow> shared option" where
  "deliver_piece msg p sh =
     (case modify_piece (word_at 1 msg) (take_block (block_of_message msg)) (p_manager sh) of
        Inl _ \<Rightarrow> None
      | Inr pm \<Rightarrow> Some (wake (word_at 1 msg) p (sh\<lparr>p_manager := pm\<rparr>)))"

definition deliver_unchoke :: "peer \<Rightarrow> shared \<Rightarrow> shared option" where
  "deliver_unchoke p sh =
     (case m_work_queue (p_manager sh) of
        [] \<Rightarrow> None
      | i # q \<Rightarrow> Some (wake i p sh\<lparr>p_manager := (p_manager sh)\<lparr>m_work_queue := q\<rparr>\<rparr>))"

definition deliver_message :: "byte list \<Rightarrow> peer \<times> shared \<Rightarrow> (peer \<times> shared) option" where
  "deliver_message msg ps =
     (let (p, sh) = ps; next = await READ_MESSAGE_SIZE 4 in
      case to_message_id (hd msg) of
        Some BITFIELD \<Rightarrow>
          if m_choked p \<and> m_socket p \<and> 5 < length msg
          then Some (next (deliver_bitfield msg p), sh) else None
      | Some UNCHOKE \<Rightarrow>
          if m_async p
          then map_option (\<lambda>sh'. (next (p\<lparr>m_choked := False\<rparr>), sh')) (deliver_unchoke p sh)
          else None
      | Some CHOKE \<Rightarrow> Some (next (p\<lparr>m_choked := True\<rparr>), sh)
      | Some PIECE \<Rightarrow>
          if m_async p \<and> 9 \<le> length msg
          then map_option (\<lambda>sh'. (next p, sh')) (deliver_piece msg p sh) else None
      | _ \<Rightarrow> Some (next p, sh))"

definition deliver :: "byte list \<Rightarrow> peer \<times> shared \<Rightarrow> (peer \<times> shared) option" where
  "deliver msg ps =
     (let (p, sh) = ps in
      case m_state p of
        Some READ_PROTOCOL_ID \<Rightarrow>
          if msg = 19 # protocol_id then Some (await READ_INFO_HASH 28 p, sh) else None
      | Some READ_INFO_HASH \<Rightarrow>
          if m_info_hash (m_peer_info p) = Some (drop 8 msg)
          then Some (await READ_PEER_ID 20 p, sh) else None
      | Some READ_PEER_ID \<Rightarrow>
          if take 20 (m_remote_id (m_peer_info p)) = msg
          then Some (await READ_MESSAGE_SIZE 4 (p\<lparr>m_active := True\<rparr>), sh) else None
      | Some READ_MESSAGE_SIZE \<Rightarrow>
          if 0 < word_at 0 msg \<and> word_at 0 msg * 3 \<le> int_max
          then Some (await READ_MESSAGE (word_at 0 msg) p, sh) else None
      | Some READ_MESSAGE \<Rightarrow> deliver_message msg ps
      | _ \<Rightarrow> None)"

text \<open>The stream: the first component are the bytes of the current message so far.\<close>

definition feed :: "byte list \<Rightarrow> byte list \<times> peer \<times> shared \<Rightarrow> (byte list \<times> peer \<times> shared) option" where
  "feed = feed_with need deliver"

text \<open>The lengths that belong to the states.\<close>

definition framed :: "peer \<Rightarrow> bool" where
  "framed p =
     (\<not> m_disconnect p \<and> m_socket p \<and>
      (case m_state p of
         Some READ_PROTOCOL_ID \<Rightarrow> need p = 20
       | Some READ_INFO_HASH \<Rightarrow> need p = 28
       | Some READ_PEER_ID \<Rightarrow> need p = 20
       | Some READ_MESSAGE_SIZE \<Rightarrow> need p = 4
       | Some READ_MESSAGE \<Rightarrow> 0 < need p \<and> need p * 3 \<le> int_max
       | _ \<Rightarrow> False))"

section \<open>Lemmas on the specification\<close>

lemma need_await [simp]: "need (await st n p) = n"
  by (simp add: await_def awaiting_def)

lemma need_strip [simp]: "need (strip p) = need p"
  by (simp add: strip_def awaiting_def)

lemma strip_fields [simp]:
  "m_disconnect (strip p) = m_disconnect p" "m_loop (strip p) = m_loop p"
  "m_state (strip p) = m_state p" "m_peer_info (strip p) = m_peer_info p"
  "m_socket (strip p) = m_socket p" "self (strip p) = self p" "m_choked (strip p) = m_choked p"
  "peer_bitfield (strip p) = peer_bitfield p" "m_async (strip p) = m_async p"
  "m_curr_piece (strip p) = m_curr_piece p" "m_active (strip p) = m_active p"
  "m_session (strip p) = m_session p"
  by (simp_all add: strip_def)

lemma framed_strip [simp]: "framed (strip p) = framed p"
  by (auto simp: framed_def split: option.splits p_state.splits)

lemma framed_bounds: "framed p \<Longrightarrow> 0 < need p \<and> need p * 3 \<le> int_max"
  by (auto simp: framed_def split: option.splits p_state.splits)

lemma framed_await:
  assumes "framed p" "m_disconnect q = m_disconnect p" "m_socket q = m_socket p"
  shows "framed (await READ_INFO_HASH 28 q)" "framed (await READ_PEER_ID 20 q)"
    "framed (await READ_MESSAGE_SIZE 4 q)"
    "0 < n \<Longrightarrow> n * 3 \<le> int_max \<Longrightarrow> framed (await READ_MESSAGE n q)"
  using assms by (auto simp: framed_def await_def awaiting_def)

lemma deliver_message_framed:
  assumes "framed p" "deliver_message msg (p, sh) = Some (p', sh')"
  shows "framed p'"
  using assms
  by (auto simp: deliver_message_def deliver_bitfield_def Let_def intro!: framed_await(3) [of p]
      split: option.splits message_id.splits if_splits)

lemma deliver_framed:
  assumes "framed p" "deliver msg (p, sh) = Some (p', sh')"
  shows "framed p'"
  using assms deliver_message_framed [OF assms(1)]
  by (auto simp: deliver_def Let_def intro!: framed_await [of p]
      split: option.splits p_state.splits if_splits)

section \<open>One complete message\<close>

text \<open>The connection \<open>p'\<close> reached from \<open>p\<close> awaits the next message and implements \<open>a\<close>.\<close>

definition consumed :: "peer \<Rightarrow> peer \<Rightarrow> peer \<Rightarrow> byte list \<Rightarrow> bool" where
  "consumed p p' a rest =
     (strip p' = a \<and> rb_holds (m_recv_buffer p') rest \<and> m_recv_pos (m_recv_buffer p') = 0 \<and>
      stream_data p' = stream_data p \<and> 0 < rb_cap (m_recv_buffer p'))"

lemma at_end_finished: "at_end p msg rest \<Longrightarrow> is_message_finished (m_recv_buffer p)"
  by (simp add: at_end_def is_message_finished_def)

lemma at_end_get:
  assumes "at_end p msg rest"
  shows "\<exists>cs. get (m_recv_buffer p) = Inr (Some cs, int (length msg)) \<and>
           take (length msg) cs = map Some msg \<and> length msg \<le> length cs"
proof -
  from assms obtain cs where cs: "get (m_recv_buffer p) = Inr (Some cs, int (length msg))"
    "take (length (msg @ rest)) cs = map Some (msg @ rest)"
    using rb.fetch [of "m_recv_buffer p" "msg @ rest"] by (auto simp: at_end_def)
  from cs(2) have "take (length msg) cs = map Some msg"
    using take_map_Some_prefix [OF cs(2), of "length msg"] by simp
  moreover from this have "length (take (length msg) cs) = length msg" by simp
  then have "length msg \<le> length cs" by (simp split: if_splits)
  ultimately show ?thesis using cs(1) by blast
qed

lemma at_end_reset:
  assumes "at_end p msg rest" "0 < n" "n \<le> int_max"
  shows "\<exists>rb'. reset n (m_recv_buffer p) = Inr rb' \<and> rb_holds rb' rest \<and>
           m_recv_pos rb' = 0 \<and> m_message_size rb' = n \<and> 0 < rb_cap rb'"
proof -
  have "0 < rb_cap (m_recv_buffer p)"
    using assms(1) by (cases msg) (auto simp: at_end_def rb_holds_def)
  then show ?thesis
    using reset_holds [of "m_recv_buffer p" "msg @ rest" n] assms by (auto simp: at_end_def)
qed

lemma prefix_deserialize:
  assumes "take n cs = map Some bs" "n \<le> length cs" "k + 4 \<le> n" "4 \<le> d"
  shows "deserialize_int (drop k cs) d = Inr (word_at k bs)"
proof -
  have "take 4 (drop k cs) = map Some (take 4 (drop k bs))"
    using prefix_read [OF assms(1,2), of k 4] assms(3) by (simp add: read_bytes_eq)
  then show ?thesis
    using assms by (simp add: deserialize_prefix word_at_def)
qed

lemma next_length_consumed:
  assumes "at_end p msg rest" "m_recv_buffer q = m_recv_buffer p" "stream_data q = stream_data p"
  shows "\<exists>p'. next_length q = Inr p' \<and> consumed p p' (await READ_MESSAGE_SIZE 4 (strip q)) rest"
proof -
  from at_end_reset [OF assms(1), of 4] obtain rb' where
    "reset 4 (m_recv_buffer p) = Inr rb'" "rb_holds rb' rest" "m_recv_pos rb' = 0"
    "m_message_size rb' = 4" "0 < rb_cap rb'" by auto
  then show ?thesis
    using assms(2,3) by (auto simp: next_length_def consumed_def strip_def await_def)
qed

lemma strip_update:
  "strip (p\<lparr>m_choked := x\<rparr>) = (strip p)\<lparr>m_choked := x\<rparr>"
  "strip (p\<lparr>peer_bitfield := bf\<rparr>) = (strip p)\<lparr>peer_bitfield := bf\<rparr>"
  "strip (log_io (Uv_write m) p) = log_io (Uv_write m) (strip p)"
  by (simp_all add: strip_def log_io_def)

lemma incoming_block_prefix:
  assumes "b_offset b = b_offset b'" "b_size b = b_size b'"
    "b_data b' = map Some bs" "b_size b' = int (length bs)" "take (length bs) (b_data b) = map Some bs"
    "length bs \<le> length (b_data b)"
  shows "take_block b = take_block b'"
proof -
  have "mem_get (b_data b) 0 (b_size b) = mem_get (b_data b') 0 (b_size b')"
    using assms by (simp add: mem_get_def)
  then show ?thesis
    by (simp add: take_block_def incoming_block_def fun_eq_iff assms(1,2) cong: option.case_cong)
qed

lemma handle_unchoke_delivers:
  assumes "at_end p msg rest" "m_async p" "deliver_unchoke (strip p) sh = Some sh'"
  shows "\<exists>p'. handle_unchoke (p, sh) = Inr (p', sh') \<and>
           consumed p p' (await READ_MESSAGE_SIZE 4 ((strip p)\<lparr>m_choked := False\<rparr>)) rest"
proof -
  obtain i q where q: "m_work_queue (p_manager sh) = i # q"
    "sh' = wake i p sh\<lparr>p_manager := (p_manager sh)\<lparr>m_work_queue := q\<rparr>\<rparr>"
    using assms(3) by (auto simp: deliver_unchoke_def wake_def split: list.splits)
  from next_length_consumed [OF assms(1), of "p\<lparr>m_choked := False\<rparr>"] obtain p' where
    "next_length (p\<lparr>m_choked := False\<rparr>) = Inr p'"
    "consumed p p' (await READ_MESSAGE_SIZE 4 ((strip p)\<lparr>m_choked := False\<rparr>)) rest"
    by (auto simp: strip_update)
  then show ?thesis
    using q assms(2) by (auto simp: handle_unchoke_def wake_def async_send_def Let_def)
qed

lemma handle_choke_delivers:
  assumes "at_end p msg rest"
  shows "\<exists>p'. handle_choke (p, sh) = Inr (p', sh) \<and>
           consumed p p' (await READ_MESSAGE_SIZE 4 ((strip p)\<lparr>m_choked := True\<rparr>)) rest"
  using next_length_consumed [OF assms, of "p\<lparr>m_choked := True\<rparr>"]
  by (auto simp: handle_choke_def strip_update)

lemma handle_bitfield_delivers:
  assumes "at_end p msg rest" "m_choked p" "m_socket p" "5 < length msg"
  shows "\<exists>p'. handle_bitfield (p, sh) = Inr (p', sh) \<and>
           consumed p p' (await READ_MESSAGE_SIZE 4 (deliver_bitfield msg (strip p))) rest"
proof -
  obtain cs where cs: "get (m_recv_buffer p) = Inr (Some cs, int (length msg))"
    "take (length msg) cs = map Some msg" "length msg \<le> length cs"
    using at_end_get [OF assms(1)] by blast
  have len: "int (length msg) \<le> int_max"
    using assms(1) by (auto simp: at_end_def rb_holds_def)
  then have us: "usize (int (length msg) - 5) = int (length (drop 5 msg))"
    using assms(4) by (simp add: usize_def of_nat_diff)
  have "take (length (drop 5 msg)) (drop 5 cs) = map Some (drop 5 msg)"
    using drop_take_map_Some [OF cs(2), of 5] by simp
  with bitfield_new_holds [of "drop 5 msg" "drop 5 cs"] len assms(4) obtain bf where
    bf: "bitfield_new (drop 5 cs) (int (length (drop 5 msg))) = Inr bf" "bf_holds bf (drop 5 msg)"
    by auto
  have bf_eq: "fst (bitfield_move b bf) =
      \<lparr>m_bitfield = Some (map Some (drop 5 msg)), bf_size = int (length msg) - 5\<rparr>" for b
    using bf(2) assms(4) by (cases b; cases bf) (auto simp: bitfield_move_def bf_holds_def)
  let ?q = "log_io (Uv_write (be_bytes 1 @ [message_id_byte INTERESTED]))
      (p\<lparr>peer_bitfield := fst (bitfield_move (peer_bitfield p) bf)\<rparr>)"
  from next_length_consumed [OF assms(1), of ?q] obtain p' where
    "next_length ?q = Inr p'" "consumed p p' (await READ_MESSAGE_SIZE 4 (strip ?q)) rest"
    by auto
  then show ?thesis
    using cs us bf(1) bf_eq assms
    by (auto simp: handle_bitfield_def create_interested_eq strip_update deliver_bitfield_def Let_def)
qed

lemma handle_piece_eq:
  assumes "at_end p msg rest" "9 \<le> length msg"
  shows "handle_piece (p, sh) =
    bindE (modify_piece (word_at 1 msg) (take_block (block_of_message msg)) (p_manager sh)) (\<lambda>pm.
    bindE (ensure (m_async p)) (\<lambda>_.
    bindE (next_length p) (\<lambda>p'. Inr (p', wake (word_at 1 msg) p (sh\<lparr>p_manager := pm\<rparr>)))))"
proof -
  obtain cs where cs: "get (m_recv_buffer p) = Inr (Some cs, int (length msg))"
    "take (length msg) cs = map Some msg" "length msg \<le> length cs"
    using at_end_get [OF assms(1)] by blast
  have len: "int (length msg) \<le> int_max"
    using assms(1) by (auto simp: at_end_def rb_holds_def)
  then have bs: "narrow32 (usize (int (length msg) - 9)) = int (length msg) - 9"
    using assms(2) by (simp add: usize_id narrow32_id)
  have idx: "deserialize_int (drop 1 cs) 4 = Inr (word_at 1 msg)"
    "deserialize_int (drop 5 cs) 4 = Inr (word_at 5 msg)"
    using prefix_deserialize [OF cs(2,3), of 1 4] prefix_deserialize [OF cs(2,3), of 5 4] assms(2)
    by auto
  have blk: "take_block \<lparr>b_data = drop 9 cs, b_index = word_at 1 msg, b_offset = word_at 5 msg,
      b_size = int (length msg) - 9\<rparr> = take_block (block_of_message msg)"
    using drop_take_map_Some [OF cs(2), of 9] cs(3) assms(2)
    by (intro incoming_block_prefix [where bs = "drop 9 msg"]) (auto simp: block_of_message_def)
  show ?thesis
    using cs(1) bs idx blk by (simp add: handle_piece_def wake_def Let_def)
qed

lemma handle_piece_delivers:
  assumes "at_end p msg rest" "m_async p" "9 \<le> length msg"
    "deliver_piece msg (strip p) sh = Some sh'"
  shows "\<exists>p'. handle_piece (p, sh) = Inr (p', sh') \<and>
           consumed p p' (await READ_MESSAGE_SIZE 4 (strip p)) rest"
  using assms next_length_consumed [OF assms(1), of p]
  by (auto simp: handle_piece_eq deliver_piece_def wake_def split: sum.splits)

text \<open>The dispatch on the identifier.\<close>

lemma do_message_eq:
  assumes "at_end p msg rest"
  shows "do_message (p, sh) =
    (case to_message_id (hd msg) of
       Some BITFIELD \<Rightarrow> handle_bitfield (p, sh) | Some UNCHOKE \<Rightarrow> handle_unchoke (p, sh)
     | Some CHOKE \<Rightarrow> handle_choke (p, sh) | Some PIECE \<Rightarrow> handle_piece (p, sh)
     | _ \<Rightarrow> bindE (next_length p) (\<lambda>p'. Inr (p', sh)))"
proof -
  obtain cs where cs: "get (m_recv_buffer p) = Inr (Some cs, int (length msg))"
    "take (length msg) cs = map Some msg" "length msg \<le> length cs"
    using at_end_get [OF assms] by blast
  have "msg \<noteq> []" using assms by (simp add: at_end_def)
  then have "read_bytes cs 0 1 = Inr (take 1 msg)" "hd (take 1 msg) = hd msg"
    using prefix_read [OF cs(2,3), of 0 1] by (cases msg; simp)+
  with cs(1) show ?thesis by (simp add: do_message_def)
qed

lemma do_message_delivers:
  assumes "at_end p msg rest" "deliver_message msg (strip p, sh) = Some (a, sh')"
  shows "\<exists>p'. do_message (p, sh) = Inr (p', sh') \<and> consumed p p' a rest"
  unfolding do_message_eq [OF assms(1)]
  using assms(2) next_length_consumed [OF assms(1), of p]
    handle_bitfield_delivers [OF assms(1)] handle_unchoke_delivers [OF assms(1)]
    handle_choke_delivers [OF assms(1)] handle_piece_delivers [OF assms(1)]
  by (auto simp: deliver_message_def Let_def split: option.splits message_id.splits if_splits)

section \<open>One call of on_receive\<close>

lemma chain_simps [simp]:
  "chain (Inr (True, c)) f = Inr (True, c)" "chain (Inr (False, c)) f = f c"
  by (simp_all add: chain_def)

lemma stage_skip [simp]:
  "m_state p \<noteq> Some READ_PROTOCOL_ID \<Longrightarrow> read_protocol_id p = Inr (False, p)"
  "m_state p \<noteq> Some READ_INFO_HASH \<Longrightarrow> read_info_hash p = Inr (False, p)"
  "m_state p \<noteq> Some READ_PEER_ID \<Longrightarrow> read_peer_id p = Inr (False, p)"
  "m_state p \<noteq> Some READ_MESSAGE_SIZE \<Longrightarrow> read_message_size p = Inr (False, p)"
  by (simp_all add: read_protocol_id_def read_info_hash_def read_peer_id_def read_message_size_def)

lemma stage_wait:
  assumes "\<not> is_message_finished (m_recv_buffer p)"
  shows "m_state p = Some READ_PROTOCOL_ID \<Longrightarrow> read_protocol_id p = Inr (True, p)"
    "m_state p = Some READ_INFO_HASH \<Longrightarrow> need p = 28 \<Longrightarrow> read_info_hash p = Inr (True, p)"
    "m_state p = Some READ_PEER_ID \<Longrightarrow> need p = 20 \<Longrightarrow> read_peer_id p = Inr (True, p)"
    "m_state p = Some READ_MESSAGE_SIZE \<Longrightarrow> need p = 4 \<Longrightarrow> read_message_size p = Inr (True, p)"
    "read_message (p, sh) = Inr (p, sh)"
  using assms
  by (simp_all add: read_protocol_id_def read_info_hash_def read_peer_id_def read_message_size_def
      read_message_def)

lemma on_receive_incomplete:
  assumes "framed p" "\<not> is_message_finished (m_recv_buffer p)"
  shows "on_receive n (p, sh) = Inr (p, sh)"
proof (cases "m_state p")
  case None
  with assms(1) show ?thesis by (simp add: framed_def)
next
  case (Some st)
  with assms show ?thesis
    by (cases st) (auto simp: on_receive_def framed_def stage_wait)
qed

lemma consumed_unfinished:
  "consumed p p' a rest \<Longrightarrow> 0 < need a \<Longrightarrow> \<not> is_message_finished (m_recv_buffer p')"
  by (auto simp: consumed_def is_message_finished_def)

lemma consumed_fields:
  "consumed p p' a rest \<Longrightarrow> m_state p' = m_state a \<and> need p' = need a"
  by (auto simp: consumed_def)

lemma read_protocol_id_delivers:
  assumes "at_end p (19 # protocol_id) rest" "m_state p = Some READ_PROTOCOL_ID"
  shows "\<exists>p'. read_protocol_id p = Inr (False, p') \<and>
           consumed p p' (await READ_INFO_HASH 28 (strip p)) rest"
proof -
  let ?msg = "19 # protocol_id"
  have len: "length ?msg = 20" by simp
  obtain cs where cs: "get (m_recv_buffer p) = Inr (Some cs, int (length ?msg))"
    "take (length ?msg) cs = map Some ?msg" "length ?msg \<le> length cs"
    using at_end_get [OF assms(1)] by blast
  have rd: "read_bytes cs 0 1 = Inr [19]" "read_bytes cs 1 19 = Inr protocol_id"
    using prefix_read [OF cs(2,3), of 0 1] prefix_read [OF cs(2,3), of 1 19] by auto
  have need: "need p = 20" using assms(1) by (simp add: at_end_def)
  from at_end_reset [OF assms(1), of 28] obtain rb' where rb':
    "reset 28 (m_recv_buffer p) = Inr rb'" "rb_holds rb' rest" "m_recv_pos rb' = 0"
    "m_message_size rb' = 28" "0 < rb_cap rb'" by auto
  show ?thesis
    using cs(1) rd need rb' assms(2) at_end_finished [OF assms(1)]
    by (auto simp: read_protocol_id_def consumed_def strip_def await_def)
qed

lemma read_info_hash_delivers:
  assumes "at_end p msg rest" "m_state p = Some READ_INFO_HASH" "need p = 28"
    "m_info_hash (m_peer_info p) = Some (drop 8 msg)"
  shows "\<exists>p'. read_info_hash p = Inr (False, p') \<and>
           consumed p p' (await READ_PEER_ID 20 (strip p)) rest"
proof -
  have len: "length msg = 28" using assms by (simp add: at_end_def)
  obtain cs where cs: "get (m_recv_buffer p) = Inr (Some cs, int (length msg))"
    "take (length msg) cs = map Some msg" "length msg \<le> length cs"
    using at_end_get [OF assms(1)] by blast
  have "take 20 (drop 8 cs) = map Some (drop 8 msg)"
    using drop_take_map_Some [OF cs(2), of 8] len by simp
  then have h: "hash_set (drop 8 cs) 20 info_hash_default = Inr (Some (drop 8 msg))"
    using len by (intro hash_set_prefix) auto
  from at_end_reset [OF assms(1), of 20] obtain rb' where rb':
    "reset 20 (m_recv_buffer p) = Inr rb'" "rb_holds rb' rest" "m_recv_pos rb' = 0"
    "m_message_size rb' = 20" "0 < rb_cap rb'" by auto
  show ?thesis
    using cs(1) h rb' assms len at_end_finished [OF assms(1)]
    by (auto simp: read_info_hash_def consumed_def strip_def await_def hash_neq_def)
qed

lemma read_peer_id_delivers:
  assumes "at_end p msg rest" "m_state p = Some READ_PEER_ID" "need p = 20"
    "take 20 (m_remote_id (m_peer_info p)) = msg"
  shows "\<exists>p'. read_peer_id p = Inr (False, p') \<and>
           consumed p p' (await READ_MESSAGE_SIZE 4 ((strip p)\<lparr>m_active := True\<rparr>)) rest"
proof -
  have len: "length msg = 20" using assms by (simp add: at_end_def)
  obtain cs where cs: "get (m_recv_buffer p) = Inr (Some cs, int (length msg))"
    "take (length msg) cs = map Some msg" "length msg \<le> length cs"
    using at_end_get [OF assms(1)] by blast
  have rd: "read_bytes cs 0 20 = Inr msg"
    using prefix_read [OF cs(2,3), of 0 20] len by simp
  have "length (take 20 (m_remote_id (m_peer_info p))) = 20" using assms(4) len by simp
  then have "20 \<le> length (m_remote_id (m_peer_info p))" by (simp split: if_splits)
  then have rid: "mem_get (m_remote_id (m_peer_info p)) 0 20 = Inr msg"
    using assms(4) by (simp add: mem_get_def split: if_splits)
  from at_end_reset [OF assms(1), of 4] obtain rb' where rb':
    "reset 4 (m_recv_buffer p) = Inr rb'" "rb_holds rb' rest" "m_recv_pos rb' = 0"
    "m_message_size rb' = 4" "0 < rb_cap rb'" by auto
  show ?thesis
    using cs(1) rd rid rb' assms len at_end_finished [OF assms(1)]
    by (auto simp: read_peer_id_def consumed_def strip_def await_def)
qed

lemma read_message_size_delivers:
  assumes "at_end p msg rest" "m_state p = Some READ_MESSAGE_SIZE" "need p = 4"
    "0 < word_at 0 msg" "word_at 0 msg * 3 \<le> int_max"
  shows "\<exists>p'. read_message_size p = Inr (False, p') \<and>
           consumed p p' (await READ_MESSAGE (word_at 0 msg) (strip p)) rest"
proof -
  have len: "length msg = 4" using assms by (simp add: at_end_def)
  obtain cs where cs: "get (m_recv_buffer p) = Inr (Some cs, int (length msg))"
    "take (length msg) cs = map Some msg" "length msg \<le> length cs"
    using at_end_get [OF assms(1)] by blast
  have ln: "get_length cs 4 = Inr (word_at 0 msg)"
    using prefix_deserialize [OF cs(2,3), of 0 4] len by (simp add: get_length_def)
  from at_end_reset [OF assms(1), of "word_at 0 msg"] assms(4,5) obtain rb' where rb':
    "reset (word_at 0 msg) (m_recv_buffer p) = Inr rb'" "rb_holds rb' rest" "m_recv_pos rb' = 0"
    "m_message_size rb' = word_at 0 msg" "0 < rb_cap rb'" by auto
  show ?thesis
    using cs(1) ln rb' assms len at_end_finished [OF assms(1)]
    by (auto simp: read_message_size_def consumed_def strip_def await_def)
qed

lemma on_receive_delivers:
  assumes "at_end p msg rest" "framed p" "deliver msg (strip p, sh) = Some (a, sh')"
  shows "\<exists>p'. on_receive n (p, sh) = Inr (p', sh') \<and> consumed p p' a rest"
proof -
  have fin: "is_message_finished (m_recv_buffer p)" by (rule at_end_finished [OF assms(1)])
  have need_a: "0 < need a"
    using deliver_framed [OF _ assms(3)] assms(2) framed_bounds by simp
  obtain st where st: "m_state p = Some st"
    using assms(2) by (cases "m_state p") (auto simp: framed_def)
  note wait = stage_wait(2-4) [OF consumed_unfinished] stage_wait(5) [OF consumed_unfinished]
  show ?thesis
  proof (cases st)
    case READ_PROTOCOL_ID
    with assms(3) st have msg: "msg = 19 # protocol_id" "a = await READ_INFO_HASH 28 (strip p)"
      "sh' = sh" by (auto simp: deliver_def split: if_splits)
    from read_protocol_id_delivers [of p rest] assms(1) msg(1) st READ_PROTOCOL_ID
    obtain p' where p': "read_protocol_id p = Inr (False, p')" "consumed p p' a rest"
      unfolding msg(2) by auto
    moreover have "m_state p' = Some READ_INFO_HASH" "need p' = 28"
      using consumed_fields [OF p'(2)] msg(2) by (auto simp: await_def awaiting_def)
    ultimately show ?thesis
      using st msg(3) wait(1) [OF p'(2) need_a] by (auto simp: on_receive_def)
  next
    case READ_INFO_HASH
    with assms(3) st have msg: "m_info_hash (m_peer_info p) = Some (drop 8 msg)"
      "a = await READ_PEER_ID 20 (strip p)" "sh' = sh"
      by (auto simp: deliver_def split: if_splits)
    moreover have "need p = 28" using assms(2) st READ_INFO_HASH by (simp add: framed_def)
    ultimately obtain p' where p': "read_info_hash p = Inr (False, p')" "consumed p p' a rest"
      using read_info_hash_delivers [OF assms(1)] st READ_INFO_HASH by auto
    moreover have "m_state p' = Some READ_PEER_ID" "need p' = 20"
      using consumed_fields [OF p'(2)] msg(2) by (auto simp: await_def awaiting_def)
    ultimately show ?thesis
      using st READ_INFO_HASH msg(3) wait(2) [OF p'(2) need_a] by (auto simp: on_receive_def)
  next
    case READ_PEER_ID
    with assms(3) st have msg: "take 20 (m_remote_id (m_peer_info p)) = msg"
      "a = await READ_MESSAGE_SIZE 4 ((strip p)\<lparr>m_active := True\<rparr>)" "sh' = sh"
      by (auto simp: deliver_def split: if_splits)
    moreover have "need p = 20" using assms(2) st READ_PEER_ID by (simp add: framed_def)
    ultimately obtain p' where p': "read_peer_id p = Inr (False, p')" "consumed p p' a rest"
      using read_peer_id_delivers [OF assms(1)] st READ_PEER_ID by auto
    moreover have "m_state p' = Some READ_MESSAGE_SIZE" "need p' = 4"
      using consumed_fields [OF p'(2)] msg(2) by (auto simp: await_def awaiting_def)
    ultimately show ?thesis
      using st READ_PEER_ID msg(3) wait(3) [OF p'(2) need_a] by (auto simp: on_receive_def)
  next
    case READ_MESSAGE_SIZE
    with assms(3) st have msg: "0 < word_at 0 msg" "word_at 0 msg * 3 \<le> int_max"
      "a = await READ_MESSAGE (word_at 0 msg) (strip p)" "sh' = sh"
      by (auto simp: deliver_def split: if_splits)
    moreover have "need p = 4" using assms(2) st READ_MESSAGE_SIZE by (simp add: framed_def)
    ultimately obtain p' where p': "read_message_size p = Inr (False, p')" "consumed p p' a rest"
      using read_message_size_delivers [OF assms(1)] st READ_MESSAGE_SIZE by auto
    then show ?thesis
      using st READ_MESSAGE_SIZE msg(4) wait(4) [OF p'(2) need_a] by (auto simp: on_receive_def)
  next
    case READ_MESSAGE
    with assms(3) st have "deliver_message msg (strip p, sh) = Some (a, sh')"
      by (auto simp: deliver_def)
    with do_message_delivers [OF assms(1)] st READ_MESSAGE fin show ?thesis
      by (auto simp: on_receive_def read_message_def)
  next
    case NOT_IMPLEMENTED_YET
    with assms(2) st show ?thesis by (simp add: framed_def)
  qed
qed

section \<open>The refinement\<close>

lemma framed_live:
  "framed p \<Longrightarrow> 0 < need p \<and> need p * 3 \<le> int_max \<and> m_socket p \<and> \<not> m_disconnect p"
  using framed_bounds [of p] by (auto simp: framed_def)

lemma framed_cong:
  "m_disconnect q = m_disconnect p \<Longrightarrow> m_socket q = m_socket p \<Longrightarrow> m_state q = m_state p \<Longrightarrow>
   need q = need p \<Longrightarrow> framed q = framed p"
  by (auto simp: framed_def split: option.splits p_state.splits)

interpretation peer: stream_receiver on_receive framed strip deliver need
proof unfold_locales
  fix p :: peer and rb :: recv_buffer
  assume "m_message_size rb = need p"
  then show "strip (p\<lparr>m_recv_buffer := rb\<rparr>) = strip p" "framed (p\<lparr>m_recv_buffer := rb\<rparr>) = framed p"
    by (simp add: strip_def, intro framed_cong) auto
next
  fix p :: peer and d l
  show "framed (p\<lparr>stream_data := d, io_log := l\<rparr>) = framed p" by (rule framed_cong) auto
  show "strip (p\<lparr>stream_data := d, io_log := io_log p @ [Uv_read_start]\<rparr>) = strip p"
    by (simp add: strip_def)
next
  fix p :: peer and n and s :: shared
  assume "framed p" "\<not> is_message_finished (m_recv_buffer p)"
  then show "on_receive n (p, s) = Inr (p, s)" by (rule on_receive_incomplete)
next
  fix p :: peer and msg rest n and s s' :: shared and a
  assume a: "at_end p msg rest" "framed p" "deliver msg (strip p, s) = Some (a, s')"
  then obtain p' where "on_receive n (p, s) = Inr (p', s')" "consumed p p' a rest"
    using on_receive_delivers by blast
  moreover have "framed p'"
    using deliver_framed [of "strip p" msg s a s'] a(2,3) calculation(2)
    by (auto simp: consumed_def)
  ultimately show "\<exists>p'. on_receive n (p, s) = Inr (p', s') \<and> strip p' = a \<and> framed p' \<and>
      rb_holds (m_recv_buffer p') rest \<and> m_recv_pos (m_recv_buffer p') = 0 \<and>
      stream_data p' = stream_data p \<and> 0 < rb_cap (m_recv_buffer p')"
    by (auto simp: consumed_def)
qed (use framed_live in auto)

section \<open>Properties\<close>

text \<open>A connection waiting for the next length, with 8 free bytes in its buffer.\<close>

definition sample_peer :: peer where
  "sample_peer = (peer_fresh 0 sample_info)\<lparr>m_state := Some READ_MESSAGE_SIZE, m_socket := True,
     stream_data := Some (0, 8),
     m_recv_buffer := \<lparr>m_buff = \<lparr>m_begin = Some (replicate 8 None), m_size = 8\<rparr>, m_recv_start = 0,
       m_recv_end = 0, m_recv_pos = 0, m_message_size = 4\<rparr>\<rparr>"

definition sample_shared :: shared where
  "sample_shared = \<lparr>p_manager = \<lparr>m_pieces = [], m_work_queue = []\<rparr>, async_data = None,
     async_pending = False\<rparr>"

lemma sample_peer_ready:
  "ready sample_peer []" "framed sample_peer" "int (length []) < need sample_peer"
  by (simp_all add: sample_peer_def ready_def rb_defs buffer_ok_def buffer_cells_def framed_def)
     (simp add: peer_fresh_eq)

text \<open>C4: the receive path refines the byte-at-a-time specification. Whatever way the incoming
  bytes are cut into reads, as long as the specification is defined on them the program
  faults nowhere, ends in the specified connection and shared state with the same unfinished
  bytes in its window, and is ready for the next read.\<close>

theorem receive_refines_spec:
  assumes "ready p w" "framed p" "int (length w) < need p"
    "reads_fit on_receive on_remote_close chunks (p, sh)"
    "feed (concat chunks) (w, strip p, sh) = Some (w', a, sh')"
  shows "\<exists>p'. run_reads on_receive on_remote_close chunks (p, sh) = Inr (p', sh') \<and>
           strip p' = a \<and> ready p' w' \<and> framed p' \<and> int (length w') < need p'"
  using peer.reads_feed [of p w on_remote_close chunks sh w' a sh'] assms
  by (auto simp: peer.idle_def feed_def)

text \<open>A choke message with its length, read in two pieces.\<close>

lemma sample_fit:
  "reads_fit on_receive on_remote_close [[0, 0], [0, 1, 0]] (sample_peer, sample_shared)"
  by code_simp

lemma sample_fit_whole:
  "reads_fit on_receive on_remote_close [[0, 0, 0, 1, 0]] (sample_peer, sample_shared)"
  by code_simp

lemma sample_feed: "feed [0, 0, 0, 1, 0] ([], strip sample_peer, sample_shared) \<noteq> None"
proof -
  have "\<not> Option.is_none (feed [0, 0, 0, 1, 0] ([], strip sample_peer, sample_shared))"
    by code_simp
  then show ?thesis by (auto simp: Option.is_none_def)
qed

theorem receive_refines_spec_witness:
  "\<exists>p' a w' sh'. run_reads on_receive on_remote_close [[0, 0], [0, 1, 0]]
       (sample_peer, sample_shared) = Inr (p', sh') \<and>
     feed [0, 0, 0, 1, 0] ([], strip sample_peer, sample_shared) = Some (w', a, sh') \<and>
     strip p' = a \<and> ready p' w' \<and> framed p' \<and> int (length w') < need p'"
proof -
  obtain w' a sh' where "feed [0, 0, 0, 1, 0] ([], strip sample_peer, sample_shared) =
      Some (w', a, sh')"
    using sample_feed by auto
  then show ?thesis
    using receive_refines_spec [OF sample_peer_ready sample_fit, of w' a sh'] by auto
qed

text \<open>C5: where the byte-at-a-time specification is defined on the bytes (none of them makes the program
  fault, close the connection or stall on a keep-alive), two ways of cutting them into reads end in the
  same connection (up to the memory layout of the receive buffer), the same window and the same shared
  state. Elsewhere the cut may matter: a bad protocol identifier closes the connection or aborts.\<close>

theorem chunking_irrelevant:
  assumes "ready p w" "framed p" "int (length w) < need p"
    "reads_fit on_receive on_remote_close xs (p, sh)"
    "reads_fit on_receive on_remote_close ys (p, sh)" "concat xs = concat ys"
    "feed (concat xs) (w, strip p, sh) \<noteq> None"
  shows "\<exists>p1 p2 w' sh'. run_reads on_receive on_remote_close xs (p, sh) = Inr (p1, sh') \<and>
           run_reads on_receive on_remote_close ys (p, sh) = Inr (p2, sh') \<and>
           strip p1 = strip p2 \<and> ready p1 w' \<and> ready p2 w'"
proof -
  from assms(7) obtain w' a sh' where f: "feed (concat xs) (w, strip p, sh) = Some (w', a, sh')"
    by auto
  note r = peer.reads_feed [of p w on_remote_close _ sh w' a sh', unfolded peer.idle_def]
  from r [of xs] r [of ys] f assms show ?thesis
    unfolding feed_def by fastforce
qed

theorem chunking_irrelevant_witness:
  "\<exists>p1 p2 w' sh'.
     run_reads on_receive on_remote_close [[0, 0], [0, 1, 0]] (sample_peer, sample_shared) =
       Inr (p1, sh') \<and>
     run_reads on_receive on_remote_close [[0, 0, 0, 1, 0]] (sample_peer, sample_shared) =
       Inr (p2, sh') \<and> strip p1 = strip p2 \<and> ready p1 w' \<and> ready p2 w'"
  by (rule chunking_irrelevant [OF sample_peer_ready sample_fit sample_fit_whole])
     (use sample_feed in auto)

end
