(* ===== verification/Fetch.thy ===== *)
theory Fetch
  imports Peer_Spec
begin

text \<open>
  \<open>peer_connection::fetch_piece\<close> and \<open>send_have\<close> (\<open>src/peer_connection.cpp\<close>): the part of a
  connection that runs from the wake-up callback and needs the whole session. \<open>session\<close> is
  the vector of connections, what they share, the work handed to the thread pool (\<open>write_reqs\<close> waits
  for a thread, \<open>saving\<close> has opened the file and has not written yet) and the output file.

  The requests of a piece are a tiling of it: \<open>block_at\<close> gives the offset and size of the
  block that starts at an offset, and the loop emits a run of them.
\<close>

section \<open>State\<close>

record session =
  m_peer_connections :: "peer list"
  common :: shared
  write_reqs :: "int list"
  saving :: "int list"
  output_file :: "byte list option"

definition peer_at :: "nat \<Rightarrow> session \<Rightarrow> peer res" where
  "peer_at i s =
     bindE (ensure (i < length (m_peer_connections s))) (\<lambda>_. Inr (m_peer_connections s ! i))"

definition set_peer :: "nat \<Rightarrow> peer \<Rightarrow> session \<Rightarrow> session" where
  "set_peer i p s = s\<lparr>m_peer_connections := (m_peer_connections s)[i := p]\<rparr>"

definition set_manager :: "piece_manager \<Rightarrow> session \<Rightarrow> session" where
  "set_manager pm s = s\<lparr>common := (common s)\<lparr>p_manager := pm\<rparr>\<rparr>"

abbreviation manager :: "session \<Rightarrow> piece_manager" where
  "manager s \<equiv> p_manager (common s)"

definition push_work :: "int \<Rightarrow> session \<Rightarrow> session" where
  "push_work i s =
     set_manager ((manager s)\<lparr>m_work_queue := queue_push i (m_work_queue (manager s))\<rparr>) s"

section \<open>Announcing a piece\<close>

text \<open>\<open>send_have\<close> of the connection at \<open>me\<close>: every other connection with a socket gets the message.\<close>

definition send_have :: "nat \<Rightarrow> int \<Rightarrow> session \<Rightarrow> session res" where
  "send_have me index s =
     bindE (create_have_message index) (\<lambda>have_msg.
     bindE (peer_at me s) (\<lambda>p.
     bindE (assertE (m_session p)) (\<lambda>_.
     Inr (s\<lparr>m_peer_connections :=
             map (\<lambda>i. let q = m_peer_connections s ! i in
                       if i \<noteq> me \<and> m_socket q then log_io (Uv_write have_msg) q else q)
                 [0..<length (m_peer_connections s)]\<rparr>))))"

section \<open>Requesting blocks\<close>

abbreviation max_backlog :: int where "max_backlog \<equiv> 5"

abbreviation block_length :: int where "block_length \<equiv> 16384"

function request_blocks :: "int \<Rightarrow> piece \<times> peer \<Rightarrow> (piece \<times> peer) res" where
  "request_blocks len (p, c) =
     (if m_backlog p < max_backlog \<and> m_total_requested p < len then
        bindE (i32 (m_total_requested p + block_length)) (\<lambda>upto.
        bindE (if upto > len then i32 (len - m_total_requested p)
               else Inr block_length) (\<lambda>size.
        bindE (create_request_message (m_index p) (m_total_requested p) size) (\<lambda>msg.
        bindE (ensure (m_socket c)) (\<lambda>_.
        bindE (i32 (m_total_requested p + size)) (\<lambda>total.
        request_blocks len
          (p\<lparr>m_backlog := m_backlog p + 1, m_total_requested := total\<rparr>,
           log_io (Uv_write msg) c))))))
      else Inr (p, c))"
  by pat_completeness auto
termination
  by (relation "measure (\<lambda>(len, p, c). nat (max_backlog - m_backlog p))") auto

declare request_blocks.simps [simp del]

section \<open>Fetching a piece\<close>

text \<open>
  \<open>fetch_piece\<close>: the result is the index of a verified piece, or -1. \<open>sha1\<close> is the digest
  function of the piece's integrity check.
\<close>

definition fetch_piece :: "(byte list \<Rightarrow> byte list) \<Rightarrow> nat \<Rightarrow> int \<Rightarrow> session \<Rightarrow> (int \<times> session) res" where
  "fetch_piece sha1 me index s =
     bindE (peer_at me s) (\<lambda>c.
     let cur = m_curr_piece c; i = (if cur = -1 then index else cur) in
     bindE (get_piece i (manager s)) (\<lambda>p.
     let s = (if cur \<noteq> -1 then push_work index s else s);
         c = c\<lparr>m_curr_piece := if cur \<noteq> -1 then cur else index\<rparr>;
         s = set_peer me c s in
     bindE (if bitfield_empty (peer_bitfield c) then Inr True
            else has_piece (peer_bitfield c) (m_index p)) (\<lambda>has.
     if \<not> has then Inr (-1, s)
     else if m_backlog p = max_backlog then Inr (-1, s)
     else if download_finished p then
       bindE (verify_integrity sha1 p) (\<lambda>ok.
       bindE (if ok then bindE (send_have me (m_curr_piece c) s) (\<lambda>s. Inr (m_curr_piece c, s))
              else Inr (-1, push_work (m_curr_piece c) s)) (\<lambda>(ans, s).
       bindE (peer_at me s) (\<lambda>c. Inr (ans, set_peer me (c\<lparr>m_curr_piece := -1\<rparr>) s))))
     else
       bindE (request_blocks (piece_length p) (p, c)) (\<lambda>(p, c).
       bindE (setup_receive c) (\<lambda>c.
       Inr (-1, set_peer me c (set_manager (put_piece i p (manager s)) s)))))))"

section \<open>The tiling of a piece\<close>

definition block_at :: "int \<Rightarrow> int \<Rightarrow> int \<times> int" where
  "block_at len off = (off, min block_length (len - off))"

fun blocks_from :: "int \<Rightarrow> int \<Rightarrow> nat \<Rightarrow> (int \<times> int) list" where
  "blocks_from len off 0 = []"
| "blocks_from len off (Suc n) = block_at len off # blocks_from len (off + snd (block_at len off)) n"

text \<open>
  \<open>tiled len a b bs\<close>: the blocks \<open>bs\<close> are adjacent, cover \<open>a\<close> up to \<open>b\<close>, and are full blocks
  except for one that ends the piece.
\<close>

fun tiled :: "int \<Rightarrow> int \<Rightarrow> int \<Rightarrow> (int \<times> int) list \<Rightarrow> bool" where
  "tiled len a b [] = (a = b)"
| "tiled len a b ((off, n) # bs) =
     (off = a \<and> 0 < n \<and> (n = block_length \<or> n < block_length \<and> off + n = len) \<and>
      tiled len (a + n) b bs)"

lemma tiled_append:
  "tiled len a b xs \<Longrightarrow> tiled len b c ys \<Longrightarrow> tiled len a c (xs @ ys)"
  by (induction xs arbitrary: a) auto

lemma tiled_covers:
  "tiled len a b bs \<Longrightarrow> (\<Union>(off, n) \<in> set bs. {off ..< off + n}) = {a ..< b} \<and> a \<le> b"
proof (induction bs arbitrary: a)
  case (Cons blk bs)
  obtain off n where "blk = (off, n)" by (cases blk)
  with Cons.prems Cons.IH [of "a + n"] show ?case by auto
qed simp

lemma tiled_count:
  "tiled len a b bs \<Longrightarrow> b \<le> len \<Longrightarrow> int (length bs) * block_length < b - a + block_length"
proof (induction bs arbitrary: a)
  case (Cons blk bs)
  obtain off n where blk: "blk = (off, n)" by (cases blk)
  show ?case
  proof (cases "n = block_length")
    case True
    with Cons blk show ?thesis by (auto dest!: Cons.IH)
  next
    case False
    with Cons.prems blk have "tiled len len b bs" "a + n = len" by auto
    with tiled_covers [of len len b bs] Cons.prems(2) have "b = len" by auto
    moreover have "bs = []"
    proof (cases bs)
      case (Cons x xs)
      with \<open>tiled len len b bs\<close> tiled_covers [of len "len + snd x" b xs] \<open>b = len\<close> show ?thesis
        by (cases x) auto
    qed simp
    ultimately show ?thesis using blk Cons.prems by auto
  qed
qed simp

definition request_of :: "int \<Rightarrow> int \<times> int \<Rightarrow> byte list" where
  "request_of index blk =
     be_bytes 13 @ [message_id_byte REQUEST] @ be_bytes index @ be_bytes (fst blk) @
     be_bytes (snd blk)"

lemma request_of_fields:
  assumes "0 \<le> index" "index \<le> int_max" "0 \<le> fst blk" "fst blk \<le> int_max" "0 \<le> snd blk"
    "snd blk \<le> int_max"
  shows "field_at 5 (request_of index blk) = Inr index"
    "field_at 9 (request_of index blk) = Inr (fst blk)"
    "field_at 13 (request_of index blk) = Inr (snd blk)"
  using field_at_be_bytes [of index "be_bytes 13 @ [message_id_byte REQUEST]" 5]
    field_at_be_bytes [of "fst blk" "be_bytes 13 @ [message_id_byte REQUEST] @ be_bytes index" 9]
    field_at_be_bytes [of "snd blk"
      "be_bytes 13 @ [message_id_byte REQUEST] @ be_bytes index @ be_bytes (fst blk)" 13 "[]"] assms
  by (simp_all add: request_of_def)

lemma request_blocks_tiles:
  assumes "0 \<le> m_total_requested p" "m_total_requested p \<le> len" "len \<le> int_max - block_length"
    "m_socket c"
  shows "\<exists>bs total. tiled len (m_total_requested p) total bs \<and> total \<le> len \<and>
           (bs \<noteq> [] \<longrightarrow> m_backlog p + int (length bs) \<le> max_backlog) \<and>
           (max_backlog \<le> m_backlog p + int (length bs) \<or> total = len) \<and>
           request_blocks len (p, c) =
             Inr (p\<lparr>m_backlog := m_backlog p + int (length bs), m_total_requested := total\<rparr>,
                  c\<lparr>io_log := io_log c @ map (\<lambda>blk. Uv_write (request_of (m_index p) blk)) bs\<rparr>)"
  using assms
proof (induction "nat (max_backlog - m_backlog p)" arbitrary: p c rule: less_induct)
  case less
  show ?case
  proof (cases "m_backlog p < max_backlog \<and> m_total_requested p < len")
    case False
    then have "request_blocks len (p, c) = Inr (p, c)" by (subst request_blocks.simps) auto
    with False less.prems show ?thesis by (intro exI [of _ "[]"] exI [of _ "m_total_requested p"]) auto
  next
    case True
    let ?n = "min block_length (len - m_total_requested p)"
    let ?p = "p\<lparr>m_backlog := m_backlog p + 1, m_total_requested := m_total_requested p + ?n\<rparr>"
    let ?c = "log_io (Uv_write (request_of (m_index p) (m_total_requested p, ?n))) c"
    have up: "i32 (m_total_requested p + block_length) = Inr (m_total_requested p + block_length)"
      "(if m_total_requested p + block_length > len then i32 (len - m_total_requested p)
        else Inr block_length) = Inr ?n"
      "i32 (m_total_requested p + ?n) = Inr (m_total_requested p + ?n)"
      using True less.prems by (simp_all add: min_def)
    have step: "request_blocks len (p, c) = request_blocks len (?p, ?c)"
      unfolding request_blocks.simps [of len p c] up bindE_Inr create_request_eq
      using True less.prems up by (simp add: request_of_def)
    have "\<exists>bs total. tiled len (m_total_requested ?p) total bs \<and> total \<le> len \<and>
        (bs \<noteq> [] \<longrightarrow> m_backlog ?p + int (length bs) \<le> max_backlog) \<and>
        (max_backlog \<le> m_backlog ?p + int (length bs) \<or> total = len) \<and>
        request_blocks len (?p, ?c) =
          Inr (?p\<lparr>m_backlog := m_backlog ?p + int (length bs), m_total_requested := total\<rparr>,
               ?c\<lparr>io_log := io_log ?c @ map (\<lambda>blk. Uv_write (request_of (m_index ?p) blk)) bs\<rparr>)"
      using True less.prems
      by (intro less.hyps) auto
    then obtain bs total where IH: "tiled len (m_total_requested ?p) total bs" "total \<le> len"
      "bs \<noteq> [] \<longrightarrow> m_backlog ?p + int (length bs) \<le> max_backlog"
      "max_backlog \<le> m_backlog ?p + int (length bs) \<or> total = len"
      "request_blocks len (?p, ?c) =
          Inr (?p\<lparr>m_backlog := m_backlog ?p + int (length bs), m_total_requested := total\<rparr>,
               ?c\<lparr>io_log := io_log ?c @ map (\<lambda>blk. Uv_write (request_of (m_index ?p) blk)) bs\<rparr>)"
      by blast
    then show ?thesis
      using True step
      by (intro exI [of _ "(m_total_requested p, ?n) # bs"] exI [of _ total])
         (auto simp: log_io_def)
  qed
qed

section \<open>Lemmas on the session\<close>

named_theorems session_simps \<open>projections of updated sessions\<close>

lemma peer_at_eq [session_simps]:
  "peer_at i s = Inr c \<longleftrightarrow> i < length (m_peer_connections s) \<and> c = m_peer_connections s ! i"
  by (auto simp: peer_at_def)

lemma set_peer_fields [simp, session_simps]:
  "length (m_peer_connections (set_peer i p s)) = length (m_peer_connections s)"
  "m_peer_connections (set_peer i p s) = (m_peer_connections s)[i := p]"
  "common (set_peer i p s) = common s" "write_reqs (set_peer i p s) = write_reqs s"
  "saving (set_peer i p s) = saving s" "output_file (set_peer i p s) = output_file s"
  by (simp_all add: set_peer_def)

lemma set_manager_fields [simp, session_simps]:
  "m_peer_connections (set_manager pm s) = m_peer_connections s"
  "manager (set_manager pm s) = pm" "async_data (common (set_manager pm s)) = async_data (common s)"
  "async_pending (common (set_manager pm s)) = async_pending (common s)"
  "write_reqs (set_manager pm s) = write_reqs s" "saving (set_manager pm s) = saving s"
  "output_file (set_manager pm s) = output_file s"
  by (simp_all add: set_manager_def)

lemma push_work_fields [simp, session_simps]:
  "m_peer_connections (push_work i s) = m_peer_connections s"
  "m_pieces (manager (push_work i s)) = m_pieces (manager s)"
  "m_work_queue (manager (push_work i s)) = m_work_queue (manager s) @ [i]"
  "async_data (common (push_work i s)) = async_data (common s)"
  "async_pending (common (push_work i s)) = async_pending (common s)"
  "write_reqs (push_work i s) = write_reqs s" "saving (push_work i s) = saving s"
  "output_file (push_work i s) = output_file s"
  by (simp_all add: push_work_def queue_push_def)

lemma get_piece_push [simp, session_simps]:
  "get_piece i (manager (push_work j s)) = get_piece i (manager s)"
  by (simp add: get_piece_def)

text \<open>The connections after \<open>send_have\<close>.\<close>

definition announce :: "nat \<Rightarrow> int \<Rightarrow> peer list \<Rightarrow> peer list" where
  "announce me index ps =
     map (\<lambda>i. if i \<noteq> me \<and> m_socket (ps ! i)
              then log_io (Uv_write (be_bytes 5 @ [message_id_byte HAVE] @ be_bytes index)) (ps ! i)
              else ps ! i) [0..<length ps]"

lemma length_announce [simp]: "length (announce me index ps) = length ps"
  by (simp add: announce_def)

lemma send_have_eq:
  "send_have me index s = Inr s' \<longleftrightarrow>
     me < length (m_peer_connections s) \<and> m_session (m_peer_connections s ! me) \<and>
     s' = s\<lparr>m_peer_connections := announce me index (m_peer_connections s)\<rparr>"
  by (auto simp: send_have_def create_have_eq peer_at_eq announce_def Let_def)

lemma announce_nth:
  assumes "i < length ps"
  shows "announce me index ps ! i =
    (if i \<noteq> me \<and> m_socket (ps ! i)
     then log_io (Uv_write (be_bytes 5 @ [message_id_byte HAVE] @ be_bytes index)) (ps ! i)
     else ps ! i)"
  using assms by (simp add: announce_def)

text \<open>Between two reads the receive path may be set up once more.\<close>

lemma setup_receive_again:
  assumes "ready c w" "int (length w) < need c" "need c * 3 \<le> int_max"
  shows "\<exists>c'. setup_receive c = Inr c' \<and> ready c' w \<and> need c' = need c \<and>
           c' = c\<lparr>m_recv_buffer := m_recv_buffer c', stream_data := stream_data c',
                 io_log := io_log c @ [Uv_read_start]\<rparr>"
proof -
  have "stream_data c \<noteq> None" using assms(1) by (auto simp: ready_def)
  with assms setup_receive_ready [of c w] ready_cap [of c w] show ?thesis
    by (auto simp: ready_def)
qed

text \<open>The ways a call can end.\<close>

lemma fetch_piece_cases:
  assumes "fetch_piece sha1 me index s = Inr (ans, s')" "peer_at me s = Inr c"
    "i = (if m_curr_piece c = -1 then index else m_curr_piece c)"
    "s1 = (if m_curr_piece c = -1 then s else push_work index s)"
    "c1 = c\<lparr>m_curr_piece := i\<rparr>" "s2 = set_peer me c1 s1"
  obtains (idle) p where "get_piece i (manager s) = Inr p" "ans = -1" "s' = s2"
  | (verified) p x where "get_piece i (manager s) = Inr p" "download_finished p"
      "send_have me i s2 = Inr x" "ans = i"
      "s' = set_peer me ((m_peer_connections x ! me)\<lparr>m_curr_piece := -1\<rparr>) x"
  | (failed) p where "get_piece i (manager s) = Inr p" "download_finished p" "ans = -1"
      "s' = set_peer me (c1\<lparr>m_curr_piece := -1\<rparr>) (push_work i s2)"
  | (requested) p p' c' c'' where "get_piece i (manager s) = Inr p"
      "request_blocks (piece_length p) (p, c1) = Inr (p', c')" "setup_receive c' = Inr c''"
      "ans = -1" "s' = set_peer me c'' (set_manager (put_piece i p' (manager s2)) s2)"
proof -
  have me: "me < length (m_peer_connections s2)" "m_peer_connections s2 ! me = c1"
    using assms(2,4,6) by (auto simp: peer_at_eq)
  have e: "(if m_curr_piece c \<noteq> -1 then m_curr_piece c else index) = i" "m_curr_piece c1 = i"
    "(if m_curr_piece c \<noteq> -1 then push_work index s else s) = s1"
    using assms(3-5) by simp_all
  obtain p has where p: "get_piece i (manager s) = Inr p"
    "(if \<not> has then Inr (-1, s2)
      else if m_backlog p = max_backlog then Inr (-1, s2)
      else if download_finished p then
        bindE (verify_integrity sha1 p) (\<lambda>ok.
        bindE (if ok then bindE (send_have me i s2) (\<lambda>s. Inr (i, s)) else Inr (-1, push_work i s2))
          (\<lambda>(ans, s). bindE (peer_at me s) (\<lambda>c. Inr (ans, set_peer me (c\<lparr>m_curr_piece := -1\<rparr>) s))))
      else bindE (request_blocks (piece_length p) (p, c1)) (\<lambda>(p, c).
        bindE (setup_receive c) (\<lambda>c.
        Inr (-1, set_peer me c (set_manager (put_piece i p (manager s2)) s2))))) = Inr (ans, s')"
    using assms(1)
    unfolding fetch_piece_def assms(2) bindE_Inr Let_def e(1,3) assms(3) [symmetric]
      assms(5,6) [symmetric] e(2)
    by (simp split del: if_split) blast
  from p(2) me show ?thesis
    using idle [OF p(1)] verified [OF p(1)] failed [OF p(1)] requested [OF p(1)]
    by (auto simp: peer_at_eq split: if_splits)
qed

text \<open>The call on a piece whose 16 blocks have arrived.\<close>

lemma fetch_finished:
  assumes "peer_at me s = Inr c" "i = (if m_curr_piece c = -1 then index else m_curr_piece c)"
    "get_piece i (manager s) = Inr p" "m_index p = i"
    "bitfield_empty (peer_bitfield c) \<or> has_piece (peer_bitfield c) i = Inr True"
    "m_backlog p \<noteq> max_backlog" "download_finished p" "verify_integrity sha1 p = Inr ok"
    "m_session c" "s1 = (if m_curr_piece c = -1 then s else push_work index s)"
  shows "fetch_piece sha1 me index s =
    (if ok then Inr (i, s1\<lparr>m_peer_connections :=
                    (announce me i (m_peer_connections s))[me := c\<lparr>m_curr_piece := -1\<rparr>]\<rparr>)
     else Inr (-1, push_work i (set_peer me (c\<lparr>m_curr_piece := -1\<rparr>) s1)))"
proof -
  have me: "me < length (m_peer_connections s)" and c: "c = m_peer_connections s ! me"
    using assms(1) by (auto simp: peer_at_eq)
  let ?c = "c\<lparr>m_curr_piece := i\<rparr>"
  let ?s = "set_peer me ?c s1"
  have s1: "(if m_curr_piece c \<noteq> -1 then push_work index s else s) = s1"
    "m_peer_connections s1 = m_peer_connections s"
    using assms(10) by auto
  have has: "(if bitfield_empty (peer_bitfield ?c) then Inr True
      else has_piece (peer_bitfield ?c) (m_index p)) = Inr True"
    using assms(4,5) by auto
  have cur: "(if m_curr_piece c \<noteq> -1 then m_curr_piece c else index) = i"
    using assms(2) by simp
  have body: "fetch_piece sha1 me index s =
      bindE (if ok then bindE (send_have me i ?s) (\<lambda>s. Inr (i, s)) else Inr (-1, push_work i ?s))
        (\<lambda>(ans, s). bindE (peer_at me s) (\<lambda>c. Inr (ans, set_peer me (c\<lparr>m_curr_piece := -1\<rparr>) s)))"
    unfolding fetch_piece_def assms(1) bindE_Inr Let_def assms(2) [symmetric] assms(3) cur has s1(1)
    using assms(6-8) by simp
  have ann: "(announce me i ((m_peer_connections s)[me := ?c]))[me := x] =
      (announce me i (m_peer_connections s))[me := x]" for x
    using me by (intro nth_equalityI) (auto simp: announce_nth nth_list_update)
  have at: "announce me i ((m_peer_connections s)[me := ?c]) ! me = ?c"
    using me by (simp add: announce_nth)
  show ?thesis
    unfolding body using me s1(2) by (simp add: send_have_eq peer_at_eq assms(9) ann at set_peer_def
        push_work_def set_manager_def)
qed

text \<open>The call on a piece with blocks left to request.\<close>

lemma fetch_requests:
  assumes "peer_at me s = Inr c" "ready c w" "int (length w) < need c" "need c * 3 \<le> int_max"
    "i = (if m_curr_piece c = -1 then index else m_curr_piece c)"
    "get_piece i (manager s) = Inr p" "pm_ok (manager s)"
    "bitfield_empty (peer_bitfield c) \<or> has_piece (peer_bitfield c) i = Inr True"
    "m_backlog p < max_backlog" "\<not> download_finished p"
    "m_piece_length p \<le> int_max - block_length"
    "s1 = (if m_curr_piece c = -1 then s else push_work index s)"
  obtains c' bs total where
    "fetch_piece sha1 me index s = Inr (-1, set_peer me c' (set_manager (put_piece i
       (p\<lparr>m_backlog := m_backlog p + int (length bs), m_total_requested := total\<rparr>) (manager s1)) s1))"
    "ready c' w" "need c' = need c"
    "c' = c\<lparr>m_curr_piece := i, m_recv_buffer := m_recv_buffer c', stream_data := stream_data c',
       io_log := io_log c @ map (\<lambda>blk. Uv_write (request_of i blk)) bs @ [Uv_read_start]\<rparr>"
    "tiled (m_piece_length p) (m_total_requested p) total bs" "total \<le> m_piece_length p"
    "bs \<noteq> [] \<longrightarrow> m_backlog p + int (length bs) \<le> max_backlog"
    "max_backlog \<le> m_backlog p + int (length bs) \<or> total = m_piece_length p"
proof -
  have ok: "piece_ok p" "m_index p = i" using pm_ok_get [OF assms(7,6)] by auto
  then have len: "piece_length p = m_piece_length p"
    by (auto simp: piece_ok_def piece_length_def intro!: narrow32_id)
  let ?c = "c\<lparr>m_curr_piece := i\<rparr>"
  obtain bs total where bs: "tiled (m_piece_length p) (m_total_requested p) total bs"
    "total \<le> m_piece_length p" "bs \<noteq> [] \<longrightarrow> m_backlog p + int (length bs) \<le> max_backlog"
    "max_backlog \<le> m_backlog p + int (length bs) \<or> total = m_piece_length p"
    "request_blocks (m_piece_length p) (p, ?c) =
       Inr (p\<lparr>m_backlog := m_backlog p + int (length bs), m_total_requested := total\<rparr>,
            ?c\<lparr>io_log := io_log ?c @ map (\<lambda>blk. Uv_write (request_of (m_index p) blk)) bs\<rparr>)"
    using request_blocks_tiles [of p "m_piece_length p" ?c] ok assms(2,11)
    by (auto simp: piece_ok_def ready_def)
  let ?c1 = "?c\<lparr>io_log := io_log ?c @ map (\<lambda>blk. Uv_write (request_of (m_index p) blk)) bs\<rparr>"
  have "ready ?c1 w" using assms(2) by (simp add: ready_def)
  then obtain c' where c': "setup_receive ?c1 = Inr c'" "ready c' w" "need c' = need ?c1"
    "c' = ?c1\<lparr>m_recv_buffer := m_recv_buffer c', stream_data := stream_data c',
              io_log := io_log ?c1 @ [Uv_read_start]\<rparr>"
    using setup_receive_again [of ?c1 w] assms(3,4) by auto
  have has: "(if bitfield_empty (peer_bitfield ?c) then Inr True
      else has_piece (peer_bitfield ?c) (m_index p)) = Inr True"
    using assms(8) ok(2) by auto
  have cur: "(if m_curr_piece c \<noteq> -1 then m_curr_piece c else index) = i"
    "(if m_curr_piece c \<noteq> -1 then push_work index s else s) = s1"
    using assms(5,12) by simp_all
  have "fetch_piece sha1 me index s = Inr (-1, set_peer me c' (set_manager (put_piece i
       (p\<lparr>m_backlog := m_backlog p + int (length bs), m_total_requested := total\<rparr>) (manager s1)) s1))"
    unfolding fetch_piece_def assms(1) bindE_Inr Let_def assms(5) [symmetric] assms(6) cur has
    using assms(9,10) len bs(5) c'(1) by (simp add: set_peer_def set_manager_def)
  moreover have "c' = c\<lparr>m_curr_piece := i, m_recv_buffer := m_recv_buffer c', stream_data := stream_data c',
       io_log := io_log c @ map (\<lambda>blk. Uv_write (request_of i blk)) bs @ [Uv_read_start]\<rparr>"
    by (subst c'(4)) (simp add: ok(2))
  ultimately show ?thesis using bs(1-4) c'(2,3) by (intro that [of c' total bs]) simp_all
qed

text \<open>
  A session of two copies of a connection and one piece, of \<open>len\<close> zero bytes, of which \<open>n\<close> blocks
  and \<open>b\<close> bytes have arrived; \<open>h\<close> is its digest.
\<close>

definition sample_piece :: "nat \<Rightarrow> nat \<Rightarrow> nat \<Rightarrow> byte \<Rightarrow> piece" where
  "sample_piece len n b h = piece_default\<lparr>m_piece_length := int len, m_received_count := int n,
     m_received_bytes := int b, m_piece_hash := Some (replicate 20 h),
     m_data := Some (map Some (replicate len 0))\<rparr>"

definition sample_session :: "peer \<Rightarrow> piece \<Rightarrow> session" where
  "sample_session c p = \<lparr>m_peer_connections = [c, c],
     common = \<lparr>p_manager = \<lparr>m_pieces = [p], m_work_queue = []\<rparr>, async_data = None,
               async_pending = False\<rparr>, write_reqs = [], saving = [], output_file = None\<rparr>"

lemma sample_piece_fields [simp]:
  "m_index (sample_piece len n b h) = 0" "m_backlog (sample_piece len n b h) = 0"
  "m_total_requested (sample_piece len n b h) = 0"
  "m_piece_length (sample_piece len n b h) = int len"
  "download_finished (sample_piece len n b h) = (n = 16)"
  by (simp_all add: sample_piece_def piece_default_def download_finished_def)

lemma sample_session_ok:
  assumes "int len \<le> int_max"
  shows "pm_ok (manager (sample_session c (sample_piece len n b h)))"
proof -
  have "piece_ok (sample_piece len n b h)"
    using assms by (auto simp: sample_piece_def piece_ok_def piece_default_def
        intro!: exI [of _ "replicate len 0"])
  then show ?thesis by (simp add: pm_ok_def sample_session_def)
qed

lemma sample_session_at [simp]:
  "peer_at 0 (sample_session c p) = Inr c" "get_piece 0 (manager (sample_session c p)) = Inr p"
  by (simp_all add: sample_session_def peer_at_def get_piece_def)

lemma sample_bitfield: "bitfield_empty (peer_bitfield (sample_peer\<lparr>m_curr_piece := i\<rparr>))"
  by (simp add: sample_peer_def peer_fresh_eq bitfield_empty_def bitfield_default_def)

lemma sample_verify: "verify_integrity sample_sha1 (sample_piece 16 16 16 h) = Inr (h = 16)"
proof -
  have "verify_integrity sample_sha1 (sample_piece 16 16 16 h) =
      Inr (hash_eq (Some (replicate 20 h)) (Some (sample_sha1 (replicate 16 0))))"
    by (simp add: verify_integrity_def sample_piece_def info_hash_of_def read_bytes_def mem_get_def
        init_bytes_def)
  then show ?thesis by (simp add: sample_sha1_def)
qed

section \<open>Properties\<close>

text \<open>C17: a wake-up for a piece that is not complete requests the next run of blocks: adjacent,
  full except for the end of the piece, never more than five outstanding, and fewer only when
  the whole piece is requested. The connection stays ready for the next read.\<close>

theorem fetch_requests_next_blocks:
  assumes "peer_at me s = Inr c" "ready c w" "int (length w) < need c" "need c * 3 \<le> int_max"
    "i = (if m_curr_piece c = -1 then index else m_curr_piece c)"
    "get_piece i (manager s) = Inr p" "pm_ok (manager s)"
    "bitfield_empty (peer_bitfield c) \<or> has_piece (peer_bitfield c) i = Inr True"
    "0 \<le> m_backlog p" "m_backlog p < max_backlog" "\<not> download_finished p"
    "m_piece_length p \<le> int_max - block_length"
  shows "\<exists>s' c' p' bs. fetch_piece sha1 me index s = Inr (-1, s') \<and>
           peer_at me s' = Inr c' \<and> ready c' w \<and> m_curr_piece c' = i \<and>
           io_log c' = io_log c @ map (\<lambda>blk. Uv_write (request_of i blk)) bs @ [Uv_read_start] \<and>
           get_piece i (manager s') = Inr p' \<and>
           tiled (m_piece_length p) (m_total_requested p) (m_total_requested p') bs \<and>
           m_backlog p' = m_backlog p + int (length bs) \<and> m_backlog p' \<le> max_backlog \<and>
           (m_backlog p' = max_backlog \<or> m_total_requested p' = m_piece_length p)"
proof -
  have me: "me < length (m_peer_connections s)" using assms(1) by (simp add: peer_at_eq)
  let ?s = "if m_curr_piece c = -1 then s else push_work index s"
  obtain c' bs total where f:
    "fetch_piece sha1 me index s = Inr (-1, set_peer me c' (set_manager (put_piece i
       (p\<lparr>m_backlog := m_backlog p + int (length bs), m_total_requested := total\<rparr>) (manager ?s)) ?s))"
    "ready c' w"
    "c' = c\<lparr>m_curr_piece := i, m_recv_buffer := m_recv_buffer c', stream_data := stream_data c',
       io_log := io_log c @ map (\<lambda>blk. Uv_write (request_of i blk)) bs @ [Uv_read_start]\<rparr>"
    "tiled (m_piece_length p) (m_total_requested p) total bs" "total \<le> m_piece_length p"
    "bs \<noteq> [] \<longrightarrow> m_backlog p + int (length bs) \<le> max_backlog"
    "max_backlog \<le> m_backlog p + int (length bs) \<or> total = m_piece_length p"
    by (rule fetch_requests [OF assms(1-8,10-12) refl, of sha1])
  let ?p' = "p\<lparr>m_backlog := m_backlog p + int (length bs), m_total_requested := total\<rparr>"
  let ?s' = "set_peer me c' (set_manager (put_piece i ?p' (manager ?s)) ?s)"
  have "peer_at me ?s' = Inr c'" using me by (auto simp: peer_at_eq)
  moreover have "get_piece i (manager ?s') = Inr ?p'"
    using assms(6) get_put_piece [of i "manager ?s" i] by (auto simp: get_piece_eq)
  moreover have "m_curr_piece c' = i"
    "io_log c' = io_log c @ map (\<lambda>blk. Uv_write (request_of i blk)) bs @ [Uv_read_start]"
    by (subst f(3), simp)+
  ultimately show ?thesis
    using f(1,2,4-7) assms(10)
    by (intro exI [of _ ?s'] exI [of _ c'] exI [of _ ?p'] exI [of _ bs]) auto
qed

theorem fetch_requests_next_blocks_witness:
  "\<exists>s' c' p' bs. fetch_piece sample_sha1 0 0 (sample_session sample_peer (sample_piece 40000 0 0 0)) =
       Inr (-1, s') \<and>
     peer_at 0 s' = Inr c' \<and> ready c' [] \<and> m_curr_piece c' = 0 \<and>
     io_log c' = io_log sample_peer @ map (\<lambda>blk. Uv_write (request_of 0 blk)) bs @ [Uv_read_start] \<and>
     get_piece 0 (manager s') = Inr p' \<and>
     tiled (m_piece_length (sample_piece 40000 0 0 0)) (m_total_requested (sample_piece 40000 0 0 0))
       (m_total_requested p') bs \<and>
     m_backlog p' = m_backlog (sample_piece 40000 0 0 0) + int (length bs) \<and>
     m_backlog p' \<le> max_backlog \<and>
     (m_backlog p' = max_backlog \<or> m_total_requested p' = m_piece_length (sample_piece 40000 0 0 0))"
  by (rule fetch_requests_next_blocks)
     (use sample_peer_ready sample_session_ok sample_bitfield [of "-1"] in
      \<open>auto simp: sample_peer_def peer_fresh_eq bitfield_empty_def\<close>)

text \<open>C18: when all blocks have arrived and the digest matches, the wake-up returns the index of
  the piece for writing, every other connection with a socket is sent the announcement of the
  piece and nothing else changes there, and the connection is free for another piece.\<close>

theorem fetch_verified_announces:
  assumes "peer_at me s = Inr c" "m_curr_piece c = i" "i \<noteq> -1" "m_session c"
    "get_piece i (manager s) = Inr p" "pm_ok (manager s)"
    "bitfield_empty (peer_bitfield c) \<or> has_piece (peer_bitfield c) i = Inr True"
    "m_backlog p \<noteq> max_backlog" "download_finished p" "verify_integrity sha1 p = Inr True"
  shows "\<exists>s'. fetch_piece sha1 me index s = Inr (i, s') \<and>
           peer_at me s' = Inr (c\<lparr>m_curr_piece := -1\<rparr>) \<and>
           m_pieces (manager s') = m_pieces (manager s) \<and>
           length (m_peer_connections s') = length (m_peer_connections s) \<and>
           (\<forall>j < length (m_peer_connections s). j \<noteq> me \<longrightarrow>
              m_peer_connections s' ! j =
                (let q = m_peer_connections s ! j in
                 if m_socket q
                 then log_io (Uv_write (be_bytes 5 @ [message_id_byte HAVE] @ be_bytes i)) q
                 else q))"
proof -
  have me: "me < length (m_peer_connections s)" using assms(1) by (simp add: peer_at_eq)
  have "m_index p = i" using pm_ok_get [OF assms(6,5)] by simp
  with fetch_finished [OF assms(1) refl, where p = p and ?sha1.0 = sha1 and ok = True and index = index] assms(2-5,7-10) show ?thesis
    using me by (auto simp: peer_at_eq announce_nth Let_def)
qed

theorem fetch_verified_announces_witness:
  "let c = sample_peer\<lparr>m_curr_piece := 0\<rparr>; s = sample_session c (sample_piece 16 16 16 16) in
   \<exists>s'. fetch_piece sample_sha1 0 0 s = Inr (0, s') \<and>
     peer_at 0 s' = Inr (c\<lparr>m_curr_piece := -1\<rparr>) \<and>
     m_pieces (manager s') = m_pieces (manager s) \<and>
     length (m_peer_connections s') = length (m_peer_connections s) \<and>
     (\<forall>j < length (m_peer_connections s). j \<noteq> 0 \<longrightarrow>
        m_peer_connections s' ! j =
          (let q = m_peer_connections s ! j in
           if m_socket q then log_io (Uv_write (be_bytes 5 @ [message_id_byte HAVE] @ be_bytes 0)) q
           else q))"
  unfolding Let_def
  by (rule fetch_verified_announces [where p = "sample_piece 16 16 16 16", unfolded Let_def])
     (use sample_session_ok [of 16] sample_bitfield sample_verify in
      \<open>auto simp: sample_peer_def peer_fresh_eq\<close>)

text \<open>C22: when the digest does not match, the piece goes back to the work queue (behind the index
  of the wake-up), but keeps its blocks and counters: it still counts as finished.\<close>

theorem fetch_failed_requeues:
  assumes "peer_at me s = Inr c" "m_curr_piece c = i" "i \<noteq> -1" "m_session c"
    "get_piece i (manager s) = Inr p" "pm_ok (manager s)"
    "bitfield_empty (peer_bitfield c) \<or> has_piece (peer_bitfield c) i = Inr True"
    "m_backlog p \<noteq> max_backlog" "download_finished p" "verify_integrity sha1 p = Inr False"
  shows "\<exists>s'. fetch_piece sha1 me index s = Inr (-1, s') \<and>
           peer_at me s' = Inr (c\<lparr>m_curr_piece := -1\<rparr>) \<and>
           m_work_queue (manager s') = m_work_queue (manager s) @ [index, i] \<and>
           get_piece i (manager s') = Inr p \<and> download_finished p"
proof -
  have me: "me < length (m_peer_connections s)" using assms(1) by (simp add: peer_at_eq)
  have "m_index p = i" using pm_ok_get [OF assms(6,5)] by simp
  with fetch_finished [OF assms(1) refl, where p = p and ?sha1.0 = sha1 and ok = False and index = index] assms(2-5,7-10) show ?thesis
    using me by (auto simp: peer_at_eq)
qed

theorem fetch_failed_requeues_witness:
  "let c = sample_peer\<lparr>m_curr_piece := 0\<rparr>; p = sample_piece 16 16 16 0; s = sample_session c p in
   \<exists>s'. fetch_piece sample_sha1 0 0 s = Inr (-1, s') \<and>
     peer_at 0 s' = Inr (c\<lparr>m_curr_piece := -1\<rparr>) \<and>
     m_work_queue (manager s') = m_work_queue (manager s) @ [0, 0] \<and>
     get_piece 0 (manager s') = Inr p \<and> download_finished p"
  unfolding Let_def
  by (rule fetch_failed_requeues [where p = "sample_piece 16 16 16 0"])
     (use sample_session_ok [of 16] sample_bitfield sample_verify in
      \<open>auto simp: sample_peer_def peer_fresh_eq\<close>)

text \<open>a failed piece is never downloaded again: fetching it once more, from a connection with no
  current piece, fails again without requesting a block, for any digest function that failed
  it.\<close>

theorem failed_piece_never_requested:
  assumes "peer_at me s = Inr c" "m_curr_piece c = -1" "m_session c"
    "get_piece i (manager s) = Inr p" "pm_ok (manager s)"
    "bitfield_empty (peer_bitfield c) \<or> has_piece (peer_bitfield c) i = Inr True"
    "m_backlog p \<noteq> max_backlog" "download_finished p" "verify_integrity sha1 p = Inr False"
  shows "\<exists>s'. fetch_piece sha1 me i s = Inr (-1, s') \<and> peer_at me s' = Inr c \<and>
           get_piece i (manager s') = Inr p \<and>
           m_work_queue (manager s') = m_work_queue (manager s) @ [i]"
proof -
  have me: "me < length (m_peer_connections s)" using assms(1) by (simp add: peer_at_eq)
  have "m_index p = i" using pm_ok_get [OF assms(5,4)] by simp
  moreover have "c\<lparr>m_curr_piece := -1\<rparr> = c" using assms(2) by simp
  ultimately show ?thesis
    using fetch_finished [OF assms(1) refl, where p = p and ?sha1.0 = sha1 and ok = False and index = i] assms(2-4,6-9) me
    by (auto simp: peer_at_eq)
qed

theorem failed_piece_never_requested_witness:
  "let s = sample_session sample_peer (sample_piece 16 16 16 0) in
   \<exists>s'. fetch_piece sample_sha1 0 0 s = Inr (-1, s') \<and> peer_at 0 s' = Inr sample_peer \<and>
     get_piece 0 (manager s') = Inr (sample_piece 16 16 16 0) \<and>
     m_work_queue (manager s') = m_work_queue (manager s) @ [0]"
  unfolding Let_def
  by (rule failed_piece_never_requested [where p = "sample_piece 16 16 16 0"])
     (use sample_session_ok [of 16] sample_bitfield [of "-1"] sample_verify in
      \<open>auto simp: sample_peer_def peer_fresh_eq\<close>)

end
