(* ===== verification/Transport_Invariant.thy ===== *)
theory Transport_Invariant
  imports Stream_Receiver
begin

text \<open>
  What the transport half keeps whatever the remote end sends: as long as no call faults, the
  receive buffer holds an initialised window, and between two reads the connection is ready
  for the next one. The protocol half enters as a locale: its handler keeps an invariant of
  its own, the window, and the number of bytes that the loop has still to advance over.
\<close>

section \<open>The window during the loop\<close>

text \<open>\<open>w\<close> is the window, \<open>k\<close> is the number of its bytes behind the cursor.\<close>

definition window_at :: "recv_buffer \<Rightarrow> byte list \<Rightarrow> int \<Rightarrow> bool" where
  "window_at rb w k =
     (rb_holds rb w \<and> int (length w) = m_recv_pos rb + k \<and> 0 < rb_cap rb \<and> 0 < m_message_size rb)"

definition windowed :: "recv_buffer \<Rightarrow> int \<Rightarrow> bool" where
  "windowed rb k = (\<exists>w. window_at rb w k)"

lemma window_nonneg: "window_at rb w k \<Longrightarrow> 0 \<le> k"
  by (auto simp: window_at_def rb_holds_def)

lemma ready_window: "ready c w \<Longrightarrow> window_at (m_recv_buffer c) w 0"
  using ready_cap [of c w] by (auto simp: ready_def window_at_def)

lemma ready_windowed: "ready c w \<Longrightarrow> windowed (m_recv_buffer c) 0"
  using ready_window by (auto simp: windowed_def)

lemma advance_window:
  assumes "window_at rb w k" "0 \<le> n" "n \<le> k" "advance_pos n rb = Inr (a, rb')"
  shows "window_at rb' w (k - a)" "0 \<le> a" "a \<le> n" "m_message_size rb' = m_message_size rb"
proof -
  have a: "0 \<le> a" "a \<le> n" "rb' = rb\<lparr>m_recv_pos := m_recv_pos rb + a\<rparr>"
    using assms(1,2,4) by (auto simp: window_at_def advance_pos_def Let_def min_def split: if_splits)
  then show "0 \<le> a" "a \<le> n" "m_message_size rb' = m_message_size rb" by simp_all
  show "window_at rb' w (k - a)"
    using assms(1,3) a by (auto simp: window_at_def rb_holds_def rb_cells_def rb_cap_def)
qed

lemma reset_window:
  assumes "window_at rb w k" "is_message_finished rb" "n \<le> int_max" "reset n rb = Inr rb'"
  shows "window_at rb' (drop (nat (m_message_size rb)) w) k" "m_message_size rb' = n"
proof -
  have w: "rb_holds rb w" "int (length w) = m_recv_pos rb + k" "0 < rb_cap rb" "0 < m_message_size rb"
    using assms(1) by (auto simp: window_at_def)
  have n: "0 < n" using assms(4) by (auto simp: reset_def)
  have fin: "m_message_size rb \<le> m_recv_pos rb" using assms(2) by (simp add: is_message_finished_def)
  let ?w = "drop (nat (m_message_size rb)) w"
  have "window_at rb' ?w k \<and> m_message_size rb' = n"
  proof (cases "m_recv_end rb > m_message_size rb")
    case True
    have rb': "rb' = rb\<lparr>m_recv_start := m_recv_start rb + m_message_size rb,
        m_recv_pos := m_recv_pos rb - m_message_size rb, m_message_size := n\<rparr>"
      using assms(4) True by (auto simp: reset_def cut_def)
    have "take (length w - nat (m_message_size rb))
        (drop (nat (m_message_size rb)) (drop (nat (m_recv_start rb)) (rb_cells rb))) = map Some ?w"
      using w(1) by (intro drop_take_map_Some) (auto simp: rb_holds_def)
    then have "rb_holds rb' ?w"
      using w fin n assms(3)
      by (auto simp: rb' rb_holds_def rb_cells_def rb_cap_def nat_add_distrib add.commute)
    moreover have "int (length ?w) = m_recv_pos rb' + k"
      using w fin window_nonneg [OF assms(1)] by (auto simp: rb' of_nat_diff)
    ultimately show ?thesis using w n by (auto simp: rb' window_at_def rb_cap_def)
  next
    case False
    with w fin have "m_recv_start rb = 0" "k = 0" "?w = []"
      using window_nonneg [OF assms(1)] by (auto simp: rb_holds_def)
    moreover have rb': "rb' = rb\<lparr>m_recv_pos := 0, m_recv_start := 0, m_recv_end := 0,
        m_message_size := n\<rparr>"
      using assms(4) False by (auto simp: reset_def)
    ultimately show ?thesis
      using w n assms(3) rb_holds_cap [OF w(1)] by (auto simp: window_at_def rb_holds_def rb_cap_def)
  qed
  then show "window_at rb' ?w k" "m_message_size rb' = n" by simp_all
qed

lemma reset_windowed:
  assumes "windowed rb k" "is_message_finished rb" "n \<le> int_max" "reset n rb = Inr rb'"
  shows "windowed rb' k \<and> m_message_size rb' = n"
  using assms(1) reset_window [OF _ assms(2-4)] by (auto simp: windowed_def)

text \<open>The bytes in front of the cursor are initialised.\<close>

lemma get_window:
  assumes "window_at rb w k" "get rb = Inr (chunk, n)"
  shows "n = m_recv_pos rb" "0 \<le> n" "n \<le> int_max" "nat n \<le> length w"
    "\<exists>cs. chunk = Some cs \<and> take (nat n) cs = map Some (take (nat n) w) \<and> nat n \<le> length cs"
proof -
  have w: "rb_holds rb w" "int (length w) = m_recv_pos rb + k" "0 < rb_cap rb"
    using assms(1) by (auto simp: window_at_def)
  have k: "0 \<le> k" by (rule window_nonneg [OF assms(1)])
  have cap: "int (length w) \<le> rb_cap rb" "rb_cap rb \<le> int_max"
    using w(1) rb_holds_cap [OF w(1)] by (auto simp: rb_holds_def)
  obtain m where m: "m_begin (m_buff rb) = Some m" "rb_cells rb = m" "int (length m) = rb_cap rb"
    using rb_begin_some [OF w(1,3)] by blast
  have pos: "0 \<le> m_recv_pos rb" using w(1) by (simp add: rb_holds_def)
  then have n: "n = m_recv_pos rb" "chunk = Some (drop (nat (m_recv_start rb)) m)"
    using assms(2) m w(1,3) cap k w(2)
    by (auto simp: get_def rb_defs mem_get_eq usize_def)
  have "take (nat n) (drop (nat (m_recv_start rb)) m) = map Some (take (nat n) w)"
    using w(1,2) k pos m(2) n(1)
    by (intro take_map_Some_prefix [of "length w"]) (auto simp: rb_holds_def)
  with n cap k w(1,2) pos m show "n = m_recv_pos rb" "0 \<le> n" "n \<le> int_max" "nat n \<le> length w"
    "\<exists>cs. chunk = Some cs \<and> take (nat n) cs = map Some (take (nat n) w) \<and> nat n \<le> length cs"
    by (auto simp: rb_holds_def)
qed

lemma get_windowed:
  assumes "windowed rb k" "get rb = Inr (chunk, n)"
  shows "0 \<le> n \<and> n \<le> int_max \<and> (\<exists>cs bs. chunk = Some cs \<and> int (length bs) = n \<and>
           take (nat n) cs = map Some bs \<and> nat n \<le> length cs)"
proof -
  obtain w where "window_at rb w k" using assms(1) by (auto simp: windowed_def)
  from get_window [OF this assms(2)] show ?thesis
    by (auto intro!: exI [of _ "take (nat n) w"])
qed

lemma grow_windowed:
  assumes "rb_holds rb w" "0 < rb_cap rb" "grow rb = Inr rb'"
  shows "rb_holds rb' w \<and> 0 < rb_cap rb' \<and> m_recv_start rb' = m_recv_start rb \<and>
         m_recv_end rb' = m_recv_end rb \<and> m_recv_pos rb' = m_recv_pos rb \<and>
         m_message_size rb' = m_message_size rb"
proof -
  have "rb_cap rb < m_message_size rb \<or> rb_cap rb * 3 \<le> int_max"
    using assms(3) narrow_cap [OF assms(1)] rb_holds_cap [OF assms(1)]
    by (auto simp: grow_def Let_def i32_def split: if_splits)
  from grow_holds [OF assms(1,2) this] assms(2,3) show ?thesis by auto
qed

text \<open>Setting the next read up, from any window.\<close>

lemma setup_receive_window:
  assumes "window_at (m_recv_buffer c) w k" "setup_receive c = Inr c'"
  shows "ready c' w" "k = 0" "need c' = need c"
    "c' = c\<lparr>m_recv_buffer := m_recv_buffer c', stream_data := stream_data c',
            io_log := io_log c @ [Uv_read_start]\<rparr>"
proof -
  have w: "rb_holds (m_recv_buffer c) w" "0 < rb_cap (m_recv_buffer c)"
    "0 < m_message_size (m_recv_buffer c)" "int (length w) = m_recv_pos (m_recv_buffer c) + k"
    using assms(1) by (auto simp: window_at_def)
  obtain rb0 where rb0: "clean (m_recv_buffer c) = Inr rb0" "rb_holds rb0 w" "m_recv_start rb0 = 0"
    "m_recv_end rb0 = int (length w)" "m_recv_pos rb0 = m_recv_pos (m_recv_buffer c)"
    "m_message_size rb0 = m_message_size (m_recv_buffer c)" "rb_cap rb0 = rb_cap (m_recv_buffer c)"
    using clean_holds [OF w(1)] by blast
  obtain max0 :: int and rb1 rb2 max1 off n rb3 where
    g: "(if max0 = 0 then grow rb0 else Inr rb0) = Inr rb1"
      "(if max0 = 0 then grow rb1 else Inr rb1) = Inr rb2"
    and r: "max_receive rb2 = Inr max1" "reserve max1 rb2 = Inr ((off, n), rb3)"
      "m_socket c" "pos_at_end rb3"
      "c' = log_io Uv_read_start (c\<lparr>m_recv_buffer := rb3, stream_data := Some (off, n)\<rparr>)"
    using assms(2) rb0(1)
    by (simp add: setup_receive_def) (elim exE conjE, rule that, (assumption | erule sym)+)
  have rb1: "rb_holds rb1 w \<and> 0 < rb_cap rb1 \<and> m_recv_start rb1 = 0 \<and>
      m_recv_end rb1 = int (length w) \<and> m_recv_pos rb1 = m_recv_pos rb0 \<and>
      m_message_size rb1 = m_message_size rb0"
    using g(1) rb0 w grow_windowed [of rb0 w rb1] by (auto split: if_splits)
  then have rb2: "rb_holds rb2 w \<and> 0 < rb_cap rb2 \<and> m_recv_start rb2 = 0 \<and>
      m_recv_end rb2 = int (length w) \<and> m_recv_pos rb2 = m_recv_pos rb0 \<and>
      m_message_size rb2 = m_message_size rb0"
    using g(2) grow_windowed [of rb1 w rb2] by (auto split: if_splits)
  have max1: "max1 = rb_cap rb2 - int (length w)"
    using r(1) max_receive_holds [of rb2 w] rb2 by simp
  have "0 < max1" using r(2) by (auto simp: reserve_def)
  then have "rb3 = rb2" "off = int (length w)" "n = max1"
    using reserve_holds [of rb2 w max1] rb2 r(2) max1 rb_holds_cap [of rb2 w] by auto
  then show "ready c' w" "k = 0" "need c' = need c"
    "c' = c\<lparr>m_recv_buffer := m_recv_buffer c', stream_data := stream_data c',
            io_log := io_log c @ [Uv_read_start]\<rparr>"
    using r(3-5) rb0 rb2 w max1 \<open>0 < max1\<close>
    by (auto simp: ready_def pos_at_end_def log_io_def)
qed

lemma setup_receive_windowed:
  assumes "windowed (m_recv_buffer c) k" "setup_receive c = Inr c'"
  shows "(\<exists>w. rb_holds (m_recv_buffer c) w \<and> ready c' w) \<and> k = 0 \<and>
         need c' = need c \<and>
         c' = c\<lparr>m_recv_buffer := m_recv_buffer c', stream_data := stream_data c',
               io_log := io_log c @ [Uv_read_start]\<rparr>"
proof -
  obtain w where w: "window_at (m_recv_buffer c) w k" using assms(1) by (auto simp: windowed_def)
  then have "rb_holds (m_recv_buffer c) w" by (simp add: window_at_def)
  with setup_receive_window [OF w assms(2)] show ?thesis by blast
qed

section \<open>The contract of the protocol half\<close>

text \<open>The invariant may speak of the bytes of the window.\<close>

locale transport_invariant =
  fixes handler :: "int \<Rightarrow> 'a core_scheme \<times> 's \<Rightarrow> ('a core_scheme \<times> 's) res"
    and inv :: "byte list \<Rightarrow> 'a core_scheme \<times> 's \<Rightarrow> bool"
  assumes inv_buffer: "m_message_size rb = need c \<Longrightarrow> inv w (c\<lparr>m_recv_buffer := rb\<rparr>, s) = inv w (c, s)"
    and inv_chunk: "inv w (c\<lparr>stream_data := d, io_log := l\<rparr>, s) = inv w (c, s)"
    and handler_keeps: "inv w (c, s) \<Longrightarrow> window_at (m_recv_buffer c) w k \<Longrightarrow>
      handler n (c, s) = Inr (c', s') \<Longrightarrow> \<exists>w'. inv w' (c', s') \<and> window_at (m_recv_buffer c') w' k"
begin

lemma inv_log: "inv w (log_io a c, s) = inv w (c, s)"
  using inv_chunk [where c = c and d = "stream_data c" and l = "io_log c @ [a]" and s = s] by (simp add: log_io_def)

lemma loop_keeps:
  assumes "inv w (c, s)" "window_at (m_recv_buffer c) w n"
    "receive_loop handler n (c, s) = Inr (c', s')"
  shows "\<exists>w' k. inv w' (c', s') \<and> window_at (m_recv_buffer c') w' k"
  using assms
proof (induction "nat n" arbitrary: n w c s rule: less_induct)
  case less
  have n: "0 \<le> n" by (rule window_nonneg [OF less.prems(2)])
  obtain a rb c1 s1 where step: "advance_pos n (m_recv_buffer c) = Inr (a, rb)"
    "handler a (c\<lparr>m_recv_buffer := rb\<rparr>, s) = Inr (c1, s1)"
    "(if n - a > 0 \<and> a > 0 then receive_loop handler (n - a) (c1, s1) else Inr (c1, s1)) = Inr (c', s')"
    using less.prems(3)
    by (subst (asm) receive_loop.simps) (auto simp: Let_def split: if_splits)
  note a = advance_window [OF less.prems(2) n order.refl step(1)]
  obtain w1 where w1: "inv w1 (c1, s1)" "window_at (m_recv_buffer c1) w1 (n - a)"
    using handler_keeps [OF _ _ step(2), of w "n - a"] less.prems(1) inv_buffer [OF a(4)] a(1) by auto
  show ?case
  proof (cases "n - a > 0 \<and> a > 0")
    case True
    then show ?thesis using less.hyps [OF _ w1] step(3) a n by simp
  next
    case False
    then have "c1 = c'" "s1 = s'" using step(3) by (auto split: if_splits)
    with w1 show ?thesis by blast
  qed
qed

lemma setup_keeps:
  assumes "inv w (c, s)" "window_at (m_recv_buffer c) w k" "setup_receive c = Inr c'"
  shows "inv w (c', s)" "ready c' w"
proof -
  note r = setup_receive_window [OF assms(2,3)]
  show "ready c' w" by (rule r(1))
  let ?c = "c\<lparr>m_recv_buffer := m_recv_buffer c'\<rparr>"
  have "c' = ?c\<lparr>stream_data := stream_data c', io_log := io_log c @ [Uv_read_start]\<rparr>"
    by (subst r(4)) simp
  then show "inv w (c', s)"
    using inv_chunk [where c = ?c] inv_buffer [OF r(3)] assms(1) by metis
qed

lemma internal_keeps:
  assumes "inv w (c, s)" "rb_holds ((m_recv_buffer c)\<lparr>m_recv_end := m_recv_end (m_recv_buffer c) + n\<rparr>) w"
    "int (length w) = m_recv_pos (m_recv_buffer c) + n" "0 < rb_cap (m_recv_buffer c)"
    "on_receive_internal handler n (c, s) = Inr (c', s')"
  shows "\<exists>w'. inv w' (c', s') \<and> (ready c' w' \<or> Uv_close \<in> set (io_log c'))"
proof -
  obtain rb c1 s1 where step: "received n (m_recv_buffer c) = Inr rb"
    "receive_loop handler n (c\<lparr>m_recv_buffer := rb\<rparr>, s) = Inr (c1, s1)"
    "(if m_disconnect c1 then Inr (log_io Uv_close c1, s1)
      else bindE (setup_receive c1) (\<lambda>c'. Inr (c', s1))) = Inr (c', s')"
    using assms(5) by (auto simp: on_receive_internal_def)
  have ms: "0 < m_message_size (m_recv_buffer c)" using step(1) by (auto simp: received_def)
  then have rb: "rb = (m_recv_buffer c)\<lparr>m_recv_end := m_recv_end (m_recv_buffer c) + n\<rparr>"
    using received_holds [OF assms(2)] step(1) by simp
  have "window_at rb w n" "m_message_size rb = need c"
    using assms(2-4) ms by (auto simp: rb window_at_def rb_cap_def)
  then obtain w' k where k: "inv w' (c1, s1)" "window_at (m_recv_buffer c1) w' k"
    using loop_keeps [OF _ _ step(2), of w] assms(1) inv_buffer by auto
  show ?thesis
    using step(3) k setup_keeps [OF k] inv_log [of w' Uv_close c1 s1]
    by (auto split: if_splits)
qed

lemma read_keeps:
  assumes "inv (w @ bs) (c, s)" "ready c w" "stream_data c = Some (off, sz)" "int (length bs) \<le> sz"
    "on_read handler close (Inr bs) (c, s) = Inr (c', s')"
  shows "\<exists>w'. inv w' (c', s') \<and> (ready c' w' \<or> Uv_close \<in> set (io_log c'))"
proof -
  let ?rb = "m_recv_buffer c"
  have r: "rb_holds ?rb w" "m_recv_pos ?rb = int (length w)" "off = m_recv_end ?rb"
    "m_recv_end ?rb + int (length bs) \<le> rb_cap ?rb"
    using assms(2-4) by (auto simp: ready_def)
  obtain rb where rb: "socket_store off bs ?rb = Inr rb"
    "rb_holds (rb\<lparr>m_recv_end := m_recv_end ?rb + int (length bs)\<rparr>) (w @ bs)"
    "rb_cap rb = rb_cap ?rb" "m_recv_end rb = m_recv_end ?rb" "m_recv_pos rb = m_recv_pos ?rb"
    "m_message_size rb = need c"
    using socket_store_holds [OF r(1) ready_cap [OF assms(2)] r(4)] r(3) by auto
  have "on_receive_internal handler (int (length bs)) (c\<lparr>m_recv_buffer := rb\<rparr>, s) = Inr (c', s')"
    using assms(3,5) rb(1) by (simp add: on_read_def alloc_cb_def)
  then show ?thesis
    using internal_keeps [of "w @ bs" "c\<lparr>m_recv_buffer := rb\<rparr>" s "int (length bs)" c' s'] rb
      assms(1) inv_buffer r(2) ready_cap [OF assms(2)] by auto
qed

end

end
