(* ===== verification/Peer_Invariant.thy ===== *)
theory Peer_Invariant
  imports Peer_Connection Transport_Invariant
begin

text \<open>
  The contract of \<open>Transport_Invariant\<close> for the protocol half of the program: whatever bytes
  arrive, the handlers of \<open>src/peer_connection.cpp\<close> keep the pieces well formed, never raise
  the number of outstanding requests, queue only indices of pieces, and wake the main loop with
  a valid connection and piece.
\<close>

section \<open>Invariant of the shared state\<close>

definition pieces_ok :: "piece_manager \<Rightarrow> bool" where
  "pieces_ok pm = (pm_ok pm \<and> (\<forall>p \<in> set (m_pieces pm). m_backlog p \<le> 5))"

definition shared_ok :: "nat \<Rightarrow> shared \<Rightarrow> bool" where
  "shared_ok n sh =
     (pieces_ok (p_manager sh) \<and>
      (case async_data sh of
         None \<Rightarrow> True
       | Some d \<Rightarrow> sp_peer d < n \<and> 0 \<le> sp_index d \<and> sp_index d < n_pieces (p_manager sh)))"

text \<open>The connected peer numbered \<open>i\<close> of \<open>n\<close>, in a session of \<open>m\<close> pieces, downloading \<open>cur\<close>.\<close>

definition conn_inv :: "nat \<Rightarrow> nat \<Rightarrow> nat \<Rightarrow> int \<Rightarrow> peer \<times> shared \<Rightarrow> bool" where
  "conn_inv n m i cur ps =
     (let (p, sh) = ps in
      self p = i \<and> i < n \<and> m_socket p \<and> m_curr_piece p = cur \<and> m_session p \<and> shared_ok n sh \<and>
      length (m_pieces (p_manager sh)) = m)"

lemma pieces_ok_get: "pieces_ok pm \<Longrightarrow> get_piece i pm = Inr p \<Longrightarrow> piece_ok p \<and> m_index p = i \<and> m_backlog p \<le> 5"
  using pm_ok_get by (auto simp: pieces_ok_def get_piece_eq)

lemma pieces_ok_put:
  "pieces_ok pm \<Longrightarrow> 0 \<le> i \<Longrightarrow> piece_ok p \<Longrightarrow> m_index p = i \<Longrightarrow> m_backlog p \<le> 5 \<Longrightarrow>
   pieces_ok (put_piece i p pm)"
  using pm_ok_put [of pm i p] set_update_subset_insert [of "m_pieces pm" "nat i" p]
  by (auto simp: pieces_ok_def put_piece_def)

lemma pieces_ok_push:
  "pieces_ok pm \<Longrightarrow> 0 \<le> i \<Longrightarrow> i < n_pieces pm \<Longrightarrow>
   pieces_ok (pm\<lparr>m_work_queue := queue_push i (m_work_queue pm)\<rparr>)"
  using pm_ok_push [of pm i] by (auto simp: pieces_ok_def)

lemma pieces_ok_pop:
  "pieces_ok pm \<Longrightarrow> queue_pop (m_work_queue pm) = Inr q \<Longrightarrow> pieces_ok (pm\<lparr>m_work_queue := q\<rparr>)"
  using pm_ok_pop [of pm q] by (auto simp: pieces_ok_def)

text \<open>The piece store, once more, with the bound on the outstanding requests.\<close>

interpretation bounded: piece_store pieces_ok "\<lambda>m i. 0 \<le> i \<and> i < n_pieces m"
  "\<lambda>i p. 0 \<le> i \<and> piece_ok p \<and> m_index p = i \<and> m_backlog p \<le> 5" get_piece put_piece
proof unfold_locales
  fix m i p
  assume "pieces_ok m" "get_piece i m = Inr p"
  then show "0 \<le> i \<and> piece_ok p \<and> m_index p = i \<and> m_backlog p \<le> 5"
    using pieces_ok_get by (auto simp: get_piece_eq)
qed (auto simp: get_piece_eq get_put_piece pieces_ok_put)

lemma modify_piece_is_modify: "modify_piece i f pm = bounded.modify i f pm"
  by (simp add: modify_piece_def bounded.modify_def)

lemma modify_piece_keeps:
  assumes "pieces_ok pm" "modify_piece i f pm = Inr pm'"
    "\<And>p p'. piece_ok p \<Longrightarrow> m_index p = i \<Longrightarrow> m_backlog p \<le> 5 \<Longrightarrow> f p = Inr p' \<Longrightarrow>
       piece_ok p' \<and> m_index p' = i \<and> m_backlog p' \<le> 5"
  shows "pieces_ok pm' \<and> length (m_pieces pm') = length (m_pieces pm) \<and> 0 \<le> i \<and> i < n_pieces pm"
proof -
  have i: "0 \<le> i" "i < n_pieces pm" and len: "length (m_pieces pm') = length (m_pieces pm)"
    using assms(2) by (auto simp: modify_piece_def get_piece_eq)
  have "pieces_ok pm'"
    using bounded.modify_inv(1) [of pm i f pm'] assms i by (auto simp: modify_piece_is_modify)
  with i len show ?thesis by simp
qed

section \<open>Blocks\<close>

lemma incoming_block_keeps:
  assumes "piece_ok p" "take (nat (b_size b)) (b_data b) = map Some bs" "incoming_block b p = Inr p'"
  shows "piece_ok p' \<and> m_index p' = m_index p \<and> m_backlog p' = m_backlog p"
proof -
  obtain d where d: "m_data p = Some (map Some d)" "int (length d) = m_piece_length p"
    using assms(1) by (auto simp: piece_ok_def)
  obtain rb cs d' out q where p': "0 \<le> b_size b" "mem_get (b_data b) 0 (b_size b) = Inr cs"
    "mem_put (map Some d) (b_offset b) cs = Inr d'" "rb = m_received_bytes p + b_size b"
    "log_progress (b_size b) (p\<lparr>m_received_bytes := rb, m_data := Some d'\<rparr>) = Inr (out, q)"
    "p' = q\<lparr>m_received_count := m_received_count q + 1\<rparr>"
    using assms(3) d(1) by (auto simp: incoming_block_def mem_get_eq)
  have pr: "0 \<le> m_progress (p\<lparr>m_received_bytes := rb, m_data := Some d'\<rparr>)" using assms(1) by (simp add: piece_ok_def)
  obtain x where q: "q = p\<lparr>m_received_bytes := rb, m_data := Some d', m_progress := x\<rparr>" "0 \<le> x"
    using log_progress_keeps [OF p'(5) pr p'(1)] by auto
  have cs: "cs = map Some bs" using p'(2) assms(2) by (simp add: mem_get_eq)
  define e where "e = take (nat (b_offset b)) d @ bs @ drop (nat (b_offset b) + length bs) d"
  have d': "d' = map Some e"
    using p'(3) cs by (auto simp: mem_put_eq take_map drop_map e_def)
  have "length e = length d" using length_mem_put [OF p'(3)] d' by simp
  moreover have "0 \<le> rb" using assms(1) p'(1,4) by (simp add: piece_ok_def)
  ultimately show ?thesis
    using assms(1) p'(6) q d d' by (auto simp: piece_ok_def)
qed

lemma take_block_keeps:
  assumes "piece_ok p" "m_backlog p \<le> 5" "take (nat (b_size b)) (b_data b) = map Some bs"
    "take_block b p = Inr p'"
  shows "piece_ok p' \<and> m_index p' = m_index p \<and> m_backlog p' \<le> 5"
proof -
  obtain q where "incoming_block b p = Inr q" "p' = q\<lparr>m_backlog := m_backlog q - 1\<rparr>"
    using assms(4) by (auto simp: take_block_def)
  with incoming_block_keeps [OF assms(1,3), of q] assms(2) show ?thesis
    by (simp add: piece_ok_def)
qed

lemma piece_reset_keeps:
  assumes "piece_ok p" "piece_reset p = Inr p'"
  shows "piece_ok p' \<and> m_index p' = m_index p \<and> m_backlog p' \<le> 5"
proof -
  obtain d where "m_data p = Some (map Some d)" "int (length d) = m_piece_length p"
    using assms(1) by (auto simp: piece_ok_def)
  then have "m_received_bytes p \<le> m_piece_length p"
    using assms(2) by (auto simp: piece_reset_def mem_put_eq)
  from piece_reset_ok [OF assms(1) this] assms(2) show ?thesis by auto
qed

lemma narrow_usize:
  assumes "- int_max - 1 \<le> x" "x \<le> int_max"
  shows "narrow32 (usize x) = x"
proof -
  have "(word_of_int (x mod 2 ^ 64) :: 32 word) = word_of_int x"
    by (rule word_of_int_eq_iff [THEN iffD2])
       (simp add: take_bit_eq_mod mod_mod_cancel)
  then show ?thesis
    using narrow32_id [OF assms] by (simp add: narrow32_def usize_def)
qed

section \<open>Handlers\<close>

lemma async_send_keeps:
  assumes "shared_ok n sh" "sp_peer d < n" "0 \<le> sp_index d" "sp_index d < n_pieces (p_manager sh)"
  shows "shared_ok n (async_send d sh)"
  using assms by (simp add: shared_ok_def async_send_def)

lemma shared_ok_manager:
  assumes "shared_ok n sh" "pieces_ok pm" "length (m_pieces pm) = length (m_pieces (p_manager sh))"
  shows "shared_ok n (sh\<lparr>p_manager := pm\<rparr>)"
  using assms by (simp add: shared_ok_def split: option.splits)

text \<open>\<open>handled p k p'\<close>: the connection \<open>p'\<close> differs from \<open>p\<close> in the fields a handler may set.\<close>

definition handled :: "peer \<Rightarrow> int \<Rightarrow> peer \<Rightarrow> bool" where
  "handled p k p' =
     (windowed (m_recv_buffer p') k \<and> self p' = self p \<and> m_curr_piece p' = m_curr_piece p \<and>
      m_session p' = m_session p \<and> m_socket p' = m_socket p \<and> m_peer_info p' = m_peer_info p)"

lemma handled_conn_inv:
  "conn_inv n m i cur (p, sh) \<Longrightarrow> handled p k p' \<Longrightarrow> shared_ok n sh' \<Longrightarrow>
   length (m_pieces (p_manager sh')) = m \<Longrightarrow> conn_inv n m i cur (p', sh')"
  by (simp add: conn_inv_def handled_def)

lemma next_length_handled:
  assumes "windowed (m_recv_buffer p) k" "is_message_finished (m_recv_buffer p)"
    "m_recv_buffer q = m_recv_buffer p" "self q = self p" "m_curr_piece q = m_curr_piece p"
    "m_session q = m_session p" "m_socket q = m_socket p" "m_peer_info q = m_peer_info p"
    "next_length q = Inr p'"
  shows "handled p k p'"
  using assms reset_windowed [OF assms(1,2), of 4] by (auto simp: next_length_def handled_def)

lemma handle_unchoke_handled:
  assumes "windowed (m_recv_buffer p) k" "is_message_finished (m_recv_buffer p)" "shared_ok n sh"
    "self p < n" "handle_unchoke (p, sh) = Inr (p', sh')"
  shows "handled p k p' \<and> shared_ok n sh' \<and>
         length (m_pieces (p_manager sh')) = length (m_pieces (p_manager sh))"
proof -
  obtain i q where h: "queue_front (m_work_queue (p_manager sh)) = Inr i"
    "queue_pop (m_work_queue (p_manager sh)) = Inr q"
    "next_length (p\<lparr>m_choked := False\<rparr>) = Inr p'"
    "sh' = (async_send \<lparr>sp_index = i, sp_peer = self p, sp_loop = m_loop p\<rparr> sh)
              \<lparr>p_manager := (p_manager sh)\<lparr>m_work_queue := q\<rparr>\<rparr>"
    using assms(5) by (auto simp: handle_unchoke_def Let_def)
  have ok: "pieces_ok (p_manager sh)" using assms(3) by (simp add: shared_ok_def)
  then have "0 \<le> i \<and> i < n_pieces (p_manager sh)"
    using queue_front_range [of "p_manager sh" i] h(1) by (simp add: pieces_ok_def)
  then have "shared_ok n (async_send \<lparr>sp_index = i, sp_peer = self p, sp_loop = m_loop p\<rparr> sh)"
    using async_send_keeps [OF assms(3)] assms(4) by simp
  then have "shared_ok n sh'"
    using shared_ok_manager pieces_ok_pop [OF ok h(2)] by (simp add: h(4) async_send_def)
  then show ?thesis
    using next_length_handled [OF assms(1,2) _ _ _ _ _ _ h(3)] h(4) by (simp add: async_send_def)
qed

lemma handle_bitfield_handled:
  assumes "windowed (m_recv_buffer p) k" "is_message_finished (m_recv_buffer p)"
    "handle_bitfield (p, sh) = Inr (p', sh')"
  shows "handled p k p' \<and> sh' = sh"
proof -
  let ?q = "\<lambda>bf. p\<lparr>peer_bitfield := fst (bitfield_move (peer_bitfield p) bf)\<rparr>"
  consider bf where "p' = ?q bf" "sh' = sh"
    | bf msg where "next_length (log_io (Uv_write msg) (?q bf)) = Inr p'" "sh' = sh"
    using assms(3) by (cases "m_choked p") (auto simp: handle_bitfield_def Let_def)
  then show ?thesis
  proof cases
    case 1
    with assms(1) show ?thesis by (simp add: handled_def)
  next
    case 2
    with next_length_handled [OF assms(1,2) _ _ _ _ _ _ 2(1)] show ?thesis by (simp add: log_io_def)
  qed
qed

lemma handle_piece_handled:
  assumes "windowed (m_recv_buffer p) k" "is_message_finished (m_recv_buffer p)" "shared_ok n sh"
    "self p < n" "handle_piece (p, sh) = Inr (p', sh')"
  shows "handled p k p' \<and> shared_ok n sh' \<and>
         length (m_pieces (p_manager sh')) = length (m_pieces (p_manager sh))"
proof -
  obtain cs sz index off pm where h: "get (m_recv_buffer p) = Inr (Some cs, sz)"
    "modify_piece index (take_block
       \<lparr>b_data = drop 9 cs, b_index = index, b_offset = off, b_size = narrow32 (usize (sz - 9))\<rparr>)
       (p_manager sh) = Inr pm"
    "next_length p = Inr p'"
    "sh' = async_send \<lparr>sp_index = index, sp_peer = self p, sp_loop = m_loop p\<rparr> (sh\<lparr>p_manager := pm\<rparr>)"
    using assms(5) by (auto simp: handle_piece_def Let_def)
  obtain bs where bs: "0 \<le> sz" "sz \<le> int_max" "int (length bs) = sz" "take (nat sz) cs = map Some bs"
    using get_windowed [OF assms(1) h(1)] by auto
  have ok: "pieces_ok (p_manager sh)" using assms(3) by (simp add: shared_ok_def)
  let ?b = "\<lparr>b_data = drop 9 cs, b_index = index, b_offset = off, b_size = narrow32 (usize (sz - 9))\<rparr>"
  have "b_size ?b = sz - 9" using bs narrow_usize [of "sz - 9"] by simp
  moreover have "take (nat (sz - 9)) (drop 9 cs) = map Some (drop 9 bs)"
  proof -
    have "nat (sz - 9) = nat sz - 9" by arith
    then show ?thesis using drop_take_map_Some [OF bs(4), of 9] by (simp only:)
  qed
  ultimately have "take (nat (b_size ?b)) (b_data ?b) = map Some (drop 9 bs)"
    by simp
  then have "piece_ok q' \<and> m_index q' = index \<and> m_backlog q' \<le> 5"
    if "piece_ok q" "m_index q = index" "m_backlog q \<le> 5" "take_block ?b q = Inr q'" for q q'
    using take_block_keeps [of q ?b "drop 9 bs" q'] that by simp
  from modify_piece_keeps [OF ok h(2) this] have
    pm: "pieces_ok pm" "length (m_pieces pm) = length (m_pieces (p_manager sh))" "0 \<le> index"
      "index < n_pieces (p_manager sh)"
    by simp_all
  have "shared_ok n (sh\<lparr>p_manager := pm\<rparr>)" using shared_ok_manager [OF assms(3)] pm by simp
  then have "shared_ok n sh'"
    using async_send_keeps pm assms(4) by (simp add: h(4))
  then show ?thesis
    using next_length_handled [OF assms(1,2) _ _ _ _ _ _ h(3)] h(4) pm(2) by (simp add: async_send_def)
qed

lemma do_message_handled:
  assumes "windowed (m_recv_buffer p) k" "is_message_finished (m_recv_buffer p)" "shared_ok n sh"
    "self p < n" "do_message (p, sh) = Inr (p', sh')"
  shows "handled p k p' \<and> shared_ok n sh' \<and>
         length (m_pieces (p_manager sh')) = length (m_pieces (p_manager sh))"
proof -
  consider "handle_bitfield (p, sh) = Inr (p', sh')" | "handle_unchoke (p, sh) = Inr (p', sh')"
    | "handle_choke (p, sh) = Inr (p', sh')" | "handle_piece (p, sh) = Inr (p', sh')"
    | "next_length p = Inr p'" "sh' = sh"
  proof -
    obtain b where "(case to_message_id (hd b) of
        Some BITFIELD \<Rightarrow> handle_bitfield (p, sh) | Some UNCHOKE \<Rightarrow> handle_unchoke (p, sh)
      | Some CHOKE \<Rightarrow> handle_choke (p, sh) | Some PIECE \<Rightarrow> handle_piece (p, sh)
      | _ \<Rightarrow> bindE (next_length p) (\<lambda>p'. Inr (p', sh))) = Inr (p', sh')"
      using assms(5) by (simp add: do_message_def Let_def) blast
    then show ?thesis
      using that by (simp split: option.splits message_id.splits)
  qed
  then show ?thesis
  proof cases
    case 1
    with handle_bitfield_handled [OF assms(1,2)] assms(3) show ?thesis by auto
  next
    case 2
    with handle_unchoke_handled [OF assms(1-4)] show ?thesis by auto
  next
    case 3
    then have "next_length (p\<lparr>m_choked := True\<rparr>) = Inr p'" "sh' = sh"
      by (auto simp: handle_choke_def)
    with next_length_handled [OF assms(1,2) _ _ _ _ _ _ this(1)] assms(3) show ?thesis by simp
  next
    case 4
    with handle_piece_handled [OF assms(1-4)] show ?thesis by auto
  next
    case 5
    with next_length_handled [OF assms(1,2)] assms(3) show ?thesis by auto
  qed
qed

section \<open>The receive state machine\<close>

lemma sint_be_word_le: "sint (be_word b) \<le> int_max"
  using sint_lt [of "be_word b"] by simp

lemma get_length_range: "get_length cs n = Inr x \<Longrightarrow> x \<le> int_max"
  by (auto simp: get_length_def deserialize_int_def sint_be_word_le split: if_splits)

text \<open>One stage of \<open>on_receive\<close>: only the handshake flags, the state and the buffer change.\<close>

lemma stage_handled:
  assumes "windowed (m_recv_buffer p) k"
  shows "read_protocol_id p = Inr (b, p') \<Longrightarrow> handled p k p'"
    "read_info_hash p = Inr (b, p') \<Longrightarrow> handled p k p'"
    "read_peer_id p = Inr (b, p') \<Longrightarrow> handled p k p'"
    "read_message_size p = Inr (b, p') \<Longrightarrow> handled p k p'"
proof -
  have same: "handled p k p" "handled p k (p\<lparr>m_disconnect := d\<rparr>)" for d
    using assms by (simp_all add: handled_def)
  have fin': "handled p k (p\<lparr>m_state := st, m_recv_buffer := rb\<rparr>)"
    "handled p k (p\<lparr>m_active := ac, m_state := st, m_recv_buffer := rb\<rparr>)"
    "handled p k (p\<lparr>m_recv_buffer := rb, m_state := st\<rparr>)"
    if "is_message_finished (m_recv_buffer p)" "n \<le> int_max" "reset n (m_recv_buffer p) = Inr rb"
    for n rb st ac
    using reset_windowed [OF assms that] by (simp_all add: handled_def)
  show "read_protocol_id p = Inr (b, p') \<Longrightarrow> handled p k p'"
    using same fin'(1) [of 28] by (auto simp: read_protocol_id_def Let_def split: if_splits)
  show "read_info_hash p = Inr (b, p') \<Longrightarrow> handled p k p'"
    using same fin'(1) [of 20] by (auto simp: read_info_hash_def Let_def split: if_splits)
  show "read_peer_id p = Inr (b, p') \<Longrightarrow> handled p k p'"
    using same fin'(2) [of 4] by (auto simp: read_peer_id_def Let_def split: if_splits)
  show "read_message_size p = Inr (b, p') \<Longrightarrow> handled p k p'"
    using same fin'(3) [OF _ get_length_range]
    by (auto simp: read_message_size_def Let_def split: if_splits)
qed

lemma handled_trans: "handled p k q \<Longrightarrow> handled q k r \<Longrightarrow> handled p k r"
  by (simp add: handled_def)

lemma handled_windowed: "handled p k q \<Longrightarrow> windowed (m_recv_buffer q) k"
  by (simp add: handled_def)

text \<open>What holds before the stages and is kept by each of them.\<close>

lemma chain_keeps:
  assumes "chain r f = Inr (b, p')" "\<And>b q. r = Inr (b, q) \<Longrightarrow> P q"
    "\<And>q b p'. P q \<Longrightarrow> f q = Inr (b, p') \<Longrightarrow> P p'"
  shows "P p'"
proof -
  obtain c q where q: "r = Inr (c, q)" "(if c then Inr (True, q) else f q) = Inr (b, p')"
    using assms(1) by (auto simp: chain_def)
  have "P q" by (rule assms(2) [OF q(1)])
  with q(2) assms(3) show ?thesis by (cases c) auto
qed

lemma stages_keep:
  assumes "chain (chain (chain (read_protocol_id p) read_info_hash) read_peer_id) read_message_size =
      Inr (b, p')" "P p"
    "\<And>q b q'. P q \<Longrightarrow> read_protocol_id q = Inr (b, q') \<Longrightarrow> P q'"
    "\<And>q b q'. P q \<Longrightarrow> read_info_hash q = Inr (b, q') \<Longrightarrow> P q'"
    "\<And>q b q'. P q \<Longrightarrow> read_peer_id q = Inr (b, q') \<Longrightarrow> P q'"
    "\<And>q b q'. P q \<Longrightarrow> read_message_size q = Inr (b, q') \<Longrightarrow> P q'"
  shows "P p'"
proof (rule chain_keeps [OF assms(1)])
  fix b q
  assume "chain (chain (read_protocol_id p) read_info_hash) read_peer_id = Inr (b, q)"
  then show "P q"
  proof (rule chain_keeps)
    fix b q
    assume "chain (read_protocol_id p) read_info_hash = Inr (b, q)"
    then show "P q" by (rule chain_keeps) (use assms(2-4) in blast)+
  qed (rule assms(5))
qed (rule assms(6))

lemma stages_handled:
  assumes "windowed (m_recv_buffer p) k"
    "chain (chain (chain (read_protocol_id p) read_info_hash) read_peer_id) read_message_size =
      Inr (b, p')"
  shows "handled p k p'"
proof (rule stages_keep [OF assms(2)])
  show "handled p k p" using assms(1) by (simp add: handled_def)
qed (blast intro: handled_trans stage_handled handled_windowed)+

lemma on_receive_handled:
  assumes "windowed (m_recv_buffer p) k" "shared_ok n sh" "self p < n"
    "on_receive r (p, sh) = Inr (p', sh')"
  shows "handled p k p' \<and> shared_ok n sh' \<and>
         length (m_pieces (p_manager sh')) = length (m_pieces (p_manager sh))"
proof -
  obtain ret q where q:
    "chain (chain (chain (read_protocol_id p) read_info_hash) read_peer_id) read_message_size =
      Inr (ret, q)"
    "(if ret then Inr (q, sh) else read_message (q, sh)) = Inr (p', sh')"
    using assms(4) unfolding on_receive_def fst_conv snd_conv by auto
  have h: "handled p k q" by (rule stages_handled [OF assms(1) q(1)])
  consider "p' = q" "sh' = sh"
    | "is_message_finished (m_recv_buffer q)" "do_message (q, sh) = Inr (p', sh')"
    using q(2) by (auto simp: read_message_def split: if_splits)
  then show ?thesis
  proof cases
    case 1
    with h assms(2) show ?thesis by simp
  next
    case 2
    have "self q < n" using h assms(3) by (simp add: handled_def)
    from do_message_handled [OF handled_windowed [OF h] 2(1) assms(2) this 2(2)] handled_trans [OF h]
    show ?thesis by blast
  qed
qed

interpretation protocol: transport_invariant on_receive "\<lambda>w. conn_inv n m i cur" for n m i cur
proof unfold_locales
  fix c c' :: peer and s s' :: shared and k r
  fix w :: "byte list"
  assume a: "conn_inv n m i cur (c, s)" "window_at (m_recv_buffer c) w k" "on_receive r (c, s) = Inr (c', s')"
  then have "shared_ok n s" "self c < n" "windowed (m_recv_buffer c) k"
    by (auto simp: conn_inv_def windowed_def)
  from on_receive_handled [OF this(3,1,2) a(3)] have h: "handled c k c'" "shared_ok n s'"
    "length (m_pieces (p_manager s')) = length (m_pieces (p_manager s))" by simp_all
  with a(1) show "\<exists>w'. conn_inv n m i cur (c', s') \<and> window_at (m_recv_buffer c') w' k"
    using handled_conn_inv [OF a(1) h(1,2)] handled_windowed [OF h(1)]
    by (simp add: conn_inv_def windowed_def)
qed (simp_all add: conn_inv_def)

lemma on_remote_close_keeps:
  assumes "conn_inv n m i cur (p, sh)" "on_remote_close (p, sh) = Inr (p', sh')"
  shows "conn_inv n m i cur (p', sh') \<and> m_recv_buffer p' = m_recv_buffer p \<and> io_log p' = io_log p"
proof -
  have ok: "shared_ok n sh" "pieces_ok (p_manager sh)"
    using assms(1) by (auto simp: conn_inv_def shared_ok_def)
  show ?thesis
  proof (cases "m_curr_piece p = -1")
    case True
    with assms show ?thesis by (simp add: on_remote_close_def)
  next
    case False
    then obtain pm where pm: "modify_piece (m_curr_piece p) piece_reset (p_manager sh) = Inr pm"
      "p' = p\<lparr>m_active := False\<rparr>"
      "sh' = sh\<lparr>p_manager := pm\<lparr>m_work_queue := queue_push (m_curr_piece p) (m_work_queue pm)\<rparr>\<rparr>"
      using assms(2) by (auto simp: on_remote_close_def)
    have r: "piece_ok q' \<and> m_index q' = m_curr_piece p \<and> m_backlog q' \<le> 5"
      if "piece_ok q" "m_index q = m_curr_piece p" "m_backlog q \<le> 5" "piece_reset q = Inr q'" for q q'
      using piece_reset_keeps [OF that(1,4)] that(2) by simp
    have k: "pieces_ok pm" "length (m_pieces pm) = length (m_pieces (p_manager sh))"
      "0 \<le> m_curr_piece p" "m_curr_piece p < n_pieces (p_manager sh)"
      using modify_piece_keeps [OF ok(2) pm(1) r] by simp_all
    have "shared_ok n sh'"
      using shared_ok_manager [OF ok(1) pieces_ok_push [OF k(1,3)]] k by (simp add: pm(3))
    then show ?thesis
      using assms(1) k(2) by (simp add: pm(2,3) conn_inv_def)
  qed
qed

end
