(* ===== verification/Session.thy ===== *)
theory Session
  imports Fetch Peer_Invariant
begin

text \<open>
  \<open>src/session.cpp\<close>: the session and its event loop. The loop of \<open>libuv\<close> is a step relation:
  an event says which callback \<open>libuv\<close> runs, \<open>enabled\<close> when it may run it, and \<open>handle_event\<close>
  is the callback. The threads of the pool take the pending writes in any order; opening the file and writing
  to it are events of their own, which interleave with those of other saves and of the loop.

  The invariant \<open>session_ok\<close> holds in every reachable session, whatever the remote peers send.
\<close>

section \<open>Writing pieces\<close>

text \<open>
  \<open>save_piece\<close> runs in a thread of the pool, several at a time, all on the same file. Its two accesses
  to the file are the steps of the model. The first is the constructor of the stream in \<open>write_piece\<close>: it
  is opened without \<open>std::ios_base::app\<close> or \<open>in\<close>, so the file is truncated, also under the feet of a save
  that has it open; \<open>can_open\<close> says whether the file can be opened.
\<close>

definition open_output :: "bool \<Rightarrow> byte list option \<Rightarrow> bool \<times> byte list option" where
  "open_output can_open file = (if can_open then (True, Some []) else (False, file))"

text \<open>
  The second is the write, of the bytes the piece has then, at the offset of the piece in the file as it is
  then: a gap behind the end is filled with zeros. A negative position fails the stream, which \<open>bad()\<close> does
  not report, and nothing is written.
\<close>

definition write_at :: "nat \<Rightarrow> byte list \<Rightarrow> byte list \<Rightarrow> byte list" where
  "write_at offset bs file =
     (if bs = [] then file
      else take offset (file @ replicate (offset - length file) 0) @ bs @ drop (offset + length bs) file)"

definition write_data :: "piece \<Rightarrow> byte list option \<Rightarrow> byte list option res" where
  "write_data p file =
     bindE (i32 (m_index p * (1024 * 256))) (\<lambda>offset.
     let data = (case m_data p of None \<Rightarrow> [] | Some d \<Rightarrow> d) in
     if offset < 0 then Inr file
     else bindE (read_bytes data 0 (m_received_bytes p)) (\<lambda>bs. Inr (map_option (write_at (nat offset) bs) file)))"

text \<open>\<open>save_piece\<close> up to the open file, for the request \<open>k\<close> of those that wait.\<close>

definition save_opened :: "bool \<Rightarrow> nat \<Rightarrow> session \<Rightarrow> session res" where
  "save_opened can_open k s =
     (let index = write_reqs s ! k; s = s\<lparr>write_reqs := take k (write_reqs s) @ drop (Suc k) (write_reqs s)\<rparr> in
      bindE (get_piece index (manager s)) (\<lambda>p.
      case open_output can_open (output_file s) of
        (False, file) \<Rightarrow> Inr (s\<lparr>output_file := file\<rparr>)
      | (True, file) \<Rightarrow> Inr (s\<lparr>output_file := file, saving := saving s @ [index]\<rparr>)))"

text \<open>The rest of \<open>save_piece\<close>, for the save \<open>k\<close> of those that have opened the file.\<close>

definition save_written :: "nat \<Rightarrow> session \<Rightarrow> session res" where
  "save_written k s =
     (let index = saving s ! k; s = s\<lparr>saving := take k (saving s) @ drop (Suc k) (saving s)\<rparr> in
      bindE (get_piece index (manager s)) (\<lambda>p.
      bindE (write_data p (output_file s)) (\<lambda>file. Inr (s\<lparr>output_file := file\<rparr>))))"

section \<open>The wake-up callback\<close>

text \<open>
  \<open>try_download\<close>: the data pointer of the handle is freed on every path and left dangling, so
  it is \<open>None\<close> afterwards.
\<close>

definition try_download :: "(byte list \<Rightarrow> byte list) \<Rightarrow> session \<Rightarrow> session res" where
  "try_download sha1 s =
     (case async_data (common s) of
        None \<Rightarrow> Inl Undefined
      | Some params \<Rightarrow>
          let s = s\<lparr>common := (common s)\<lparr>async_data := None\<rparr>\<rparr> in
          bindE (peer_at (sp_peer params) s) (\<lambda>peer.
          bindE (has_piece (peer_bitfield peer) (sp_index params)) (\<lambda>has.
          if \<not> has then Inr (push_work (sp_index params) s)
          else if m_choked peer then Inr (push_work (sp_index params) s)
          else
            bindE (fetch_piece sha1 (sp_peer params) (sp_index params) s) (\<lambda>(index, s).
            if index \<noteq> -1 then
              bindE (assertE (sp_loop params)) (\<lambda>_.
              let s = s\<lparr>write_reqs := write_reqs s @ [index]\<rparr> in
              bindE (queue_front (m_work_queue (manager s))) (\<lambda>next_piece.
              bindE (queue_pop (m_work_queue (manager s))) (\<lambda>q.
              bindE (fetch_piece sha1 (sp_peer params) next_piece
                       (set_manager ((manager s)\<lparr>m_work_queue := q\<rparr>) s)) (\<lambda>(_, s). Inr s))))
            else Inr s))))"

section \<open>Starting\<close>

text \<open>
  The loop that moves every connection into the vector. A vector that grows moves the connections it has
  once more, which does not change them (\<open>peer_move_again\<close>).
\<close>

fun build_peers :: "nat \<Rightarrow> peer_info list \<Rightarrow> peer list res" where
  "build_peers i [] = Inr []"
| "build_peers i (info # infos) =
     bindE (peer_new i info) (\<lambda>peer.
     bindE (peer_move i peer) (\<lambda>p.
     bindE (build_peers (Suc i) infos) (\<lambda>ps. Inr (p # ps))))"

fun start_peers :: "(string \<Rightarrow> int res) \<Rightarrow> (string \<Rightarrow> int) \<Rightarrow> peer list \<Rightarrow> peer list res" where
  "start_peers conv ip_ver [] = Inr []"
| "start_peers conv ip_ver (p # ps) =
     bindE (core_start conv ip_ver True p) (\<lambda>q.
     bindE (start_peers conv ip_ver ps) (\<lambda>qs. Inr (q # qs)))"

text \<open>\<open>session::start\<close> up to \<open>uv_run\<close>, with the results of the torrent's accessors.\<close>

definition session_start ::
  "(string \<Rightarrow> int res) \<Rightarrow> (string \<Rightarrow> int) \<Rightarrow> int \<Rightarrow> byte list \<Rightarrow> peer_info list \<Rightarrow> session res" where
  "session_start conv ip_ver piece_len pieces_hash peers_infos =
     bindE (piece_manager_new piece_len pieces_hash) (\<lambda>pm.
     bindE (build_peers 0 peers_infos) (\<lambda>ps.
     bindE (start_peers conv ip_ver ps) (\<lambda>ps.
     Inr \<lparr>m_peer_connections = ps,
          common = \<lparr>p_manager = piece_manager_move_assign piece_manager_default pm, async_data = None, async_pending = False\<rparr>,
          write_reqs = [], saving = [], output_file = None\<rparr>)))"

section \<open>The event loop\<close>

datatype event =
    Connected nat int
  | Received nat "byte list"
  | Read_failed nat int
  | Woken
  | Save_opened nat
  | Save_written nat

definition connecting :: "peer \<Rightarrow> bool" where
  "connecting p =
     list_ex (\<lambda>a. case a of Uv_tcp_connect _ _ _ \<Rightarrow> True | _ \<Rightarrow> False) (io_log p)"

definition reading :: "peer \<Rightarrow> bool" where
  "reading p = (m_socket p \<and> Uv_close \<notin> set (io_log p))"

fun enabled :: "event \<Rightarrow> session \<Rightarrow> bool" where
  "enabled (Connected i status) s =
     (i < length (m_peer_connections s) \<and>
      (let p = m_peer_connections s ! i in connecting p \<and> \<not> m_socket p))"
| "enabled (Received i bs) s =
     (i < length (m_peer_connections s) \<and>
      (let p = m_peer_connections s ! i in
       reading p \<and>
       (case stream_data p of None \<Rightarrow> False | Some (off, n) \<Rightarrow> int (length bs) \<le> n)))"
| "enabled (Read_failed i err) s =
     (i < length (m_peer_connections s) \<and> reading (m_peer_connections s ! i))"
| "enabled Woken s = async_pending (common s)"
| "enabled (Save_opened k) s = (k < length (write_reqs s))"
| "enabled (Save_written k) s = (k < length (saving s))"

definition read_event :: "nat \<Rightarrow> int + byte list \<Rightarrow> session \<Rightarrow> session res" where
  "read_event i ev s =
     bindE (peer_at i s) (\<lambda>p.
     bindE (on_read on_receive on_remote_close ev (p, common s)) (\<lambda>(p', sh).
     Inr (set_peer i p' (s\<lparr>common := sh\<rparr>))))"

fun handle_event :: "(byte list \<Rightarrow> byte list) \<Rightarrow> bool \<Rightarrow> event \<Rightarrow> session \<Rightarrow> session res" where
  "handle_event sha1 can_open (Connected i status) s =
     bindE (peer_at i s) (\<lambda>p. bindE (on_connect status p) (\<lambda>p'. Inr (set_peer i p' s)))"
| "handle_event sha1 can_open (Received i bs) s = read_event i (Inr bs) s"
| "handle_event sha1 can_open (Read_failed i err) s = read_event i (Inl err) s"
| "handle_event sha1 can_open Woken s =
     try_download sha1 (s\<lparr>common := (common s)\<lparr>async_pending := False\<rparr>\<rparr>)"
| "handle_event sha1 can_open (Save_opened k) s = save_opened can_open k s"
| "handle_event sha1 can_open (Save_written k) s = save_written k s"

inductive step :: "(byte list \<Rightarrow> byte list) \<Rightarrow> session \<Rightarrow> event \<Rightarrow> session \<Rightarrow> bool"
  for sha1 :: "byte list \<Rightarrow> byte list" where
  step_event: "enabled ev s \<Longrightarrow> handle_event sha1 can_open ev s = Inr s' \<Longrightarrow> step sha1 s ev s'"

inductive reachable :: "(byte list \<Rightarrow> byte list) \<Rightarrow> session \<Rightarrow> session \<Rightarrow> bool"
  for sha1 :: "byte list \<Rightarrow> byte list" and s0 :: session where
  reach_start: "reachable sha1 s0 s0"
| reach_step: "reachable sha1 s0 s \<Longrightarrow> step sha1 s ev s' \<Longrightarrow> reachable sha1 s0 s'"

inductive_cases step_elim: "step sha1 s ev s'"

end
