(* ===== verification/Session_Behaviour.thy ===== *)
theory Session_Behaviour
  imports Session
begin

text \<open>
  What the session does in particular situations: a wake-up for a connection that cannot
  serve the piece, a wake-up for a busy connection, two wake-ups before the loop runs, and two
  pieces written to disk.
\<close>

section \<open>Lemmas\<close>

lemma write_data_eq:
  assumes "m_data p = Some (map Some d)" "0 \<le> m_index p" "m_index p * 262144 \<le> int_max"
    "0 < m_received_bytes p" "m_received_bytes p \<le> int (length d)"
  shows "write_data p (Some file) =
    Inr (Some (write_at (nat (m_index p * 262144)) (take (nat (m_received_bytes p)) d) file))"
proof -
  have "read_bytes (map Some d) 0 (m_received_bytes p) = Inr (take (nat (m_received_bytes p)) d)"
    using assms(4,5) by (simp add: read_bytes_eq take_map)
  then show ?thesis using assms(1-3) by (simp add: write_data_def i32_def)
qed

lemma write_at_empty: "bs \<noteq> [] \<Longrightarrow> write_at off bs [] = replicate off 0 @ bs"
  by (simp add: write_at_def)

text \<open>A save beside which no other one runs.\<close>

definition save_alone :: "int \<Rightarrow> session \<Rightarrow> session res" where
  "save_alone index s =
     bindE (save_opened True (length (write_reqs s)) (s\<lparr>write_reqs := write_reqs s @ [index]\<rparr>)) (\<lambda>s1.
     save_written (length (saving s)) s1)"

lemma save_alone_eq:
  "save_alone index s =
     bindE (get_piece index (manager s)) (\<lambda>p.
     bindE (write_data p (Some [])) (\<lambda>file. Inr (s\<lparr>output_file := file\<rparr>)))"
  by (cases "get_piece index (manager s)"; cases "write_data (projr (get_piece index (manager s))) (Some [])")
    (simp_all add: save_alone_def save_opened_def save_written_def open_output_def Let_def)

lemma handle_unchoke_shared:
  assumes "handle_unchoke (p, sh) = Inr (p', sh')"
  obtains i q where "m_work_queue (p_manager sh) = i # q" "m_work_queue (p_manager sh') = q"
    "async_data sh' = Some \<lparr>sp_index = i, sp_peer = self p, sp_loop = m_loop p\<rparr>"
  using assms by (cases "m_work_queue (p_manager sh)") (auto simp: handle_unchoke_def async_send_def Let_def)

section \<open>Properties\<close>

text \<open>a wake-up for a connection that is choked, or whose bitfield lacks the piece, puts the
  piece back at the end of the work queue and changes nothing else: nothing is written to any
  connection.\<close>

theorem unsuitable_peer_requeues:
  assumes "async_data (common s) = Some d" "peer_at (sp_peer d) s = Inr c"
    "has_piece (peer_bitfield c) (sp_index d) = Inr has" "\<not> has \<or> m_choked c"
  shows "\<exists>s'. try_download sha1 s = Inr s' \<and>
           m_work_queue (manager s') = m_work_queue (manager s) @ [sp_index d] \<and>
           m_pieces (manager s') = m_pieces (manager s) \<and>
           m_peer_connections s' = m_peer_connections s \<and> write_reqs s' = write_reqs s"
proof -
  have "peer_at (sp_peer d) (s\<lparr>common := (common s)\<lparr>async_data := None\<rparr>\<rparr>) = Inr c"
    using assms(2) by (simp add: peer_at_eq)
  with assms show ?thesis by (auto simp: try_download_def Let_def)
qed

definition sample_woken :: session where
  "sample_woken = (sample_session (sample_peer\<lparr>m_curr_piece := 0\<rparr>) (sample_piece 16 0 0 0))
     \<lparr>common := \<lparr>p_manager = \<lparr>m_pieces = [sample_piece 16 0 0 0], m_work_queue = [0]\<rparr>,
                async_data = Some \<lparr>sp_index = 0, sp_peer = 0, sp_loop = True\<rparr>,
                async_pending = False\<rparr>\<rparr>"

theorem unsuitable_peer_requeues_witness:
  "\<exists>s'. try_download sample_sha1 sample_woken = Inr s' \<and>
     m_work_queue (manager s') = m_work_queue (manager sample_woken) @ [0] \<and>
     m_pieces (manager s') = m_pieces (manager sample_woken) \<and>
     m_peer_connections s' = m_peer_connections sample_woken \<and>
     write_reqs s' = write_reqs sample_woken"
  using unsuitable_peer_requeues [of sample_woken "\<lparr>sp_index = 0, sp_peer = 0, sp_loop = True\<rparr>"
      "sample_peer\<lparr>m_curr_piece := 0\<rparr>" False sample_sha1]
  by (simp add: sample_woken_def sample_session_def peer_at_eq sample_peer_def peer_fresh_eq
      has_piece_def bitfield_empty_def bitfield_default_def)

text \<open>a wake-up for a connection in the middle of a piece appends the index it was woken for
  to the work queue, also when it is the piece that the connection is downloading: every block
  received queues its piece once more.\<close>

theorem busy_wake_duplicates:
  assumes "peer_at me s = Inr c" "m_curr_piece c \<noteq> -1"
    "fetch_piece sha1 me index s = Inr (ans, s')"
  shows "\<exists>rest. m_work_queue (manager s') = m_work_queue (manager s) @ index # rest"
  using assms(3,1) refl refl refl refl
proof (cases rule: fetch_piece_cases)
  case (verified p x)
  with assms(2) show ?thesis by (auto simp: send_have_eq)
qed (use assms(2) in auto)

theorem busy_wake_duplicates_witness:
  "\<exists>s' rest. fetch_piece sample_sha1 0 0 (sample_session (sample_peer\<lparr>m_curr_piece := 0\<rparr>)
       (sample_piece 16 16 16 0)) = Inr (-1, s') \<and>
     m_work_queue (manager s') = [] @ 0 # rest"
proof -
  let ?c = "sample_peer\<lparr>m_curr_piece := 0\<rparr>" and ?p = "sample_piece 16 16 16 0"
  have "fetch_piece sample_sha1 0 0 (sample_session ?c ?p) =
      Inr (-1, push_work 0 (set_peer 0 (?c\<lparr>m_curr_piece := -1\<rparr>) (push_work 0 (sample_session ?c ?p))))"
    using fetch_finished [where me = 0 and s = "sample_session ?c ?p" and c = ?c and i = 0 and
        index = 0 and p = ?p and ok = False and ?sha1.0 = sample_sha1 and
        ?s1.0 = "push_work 0 (sample_session ?c ?p)"] sample_verify [of 0] sample_bitfield [of 0]
    by (simp add: sample_peer_def peer_fresh_eq)
  from this busy_wake_duplicates [OF _ _ this, of ?c] show ?thesis
    by (simp add: sample_session_def peer_at_eq)
qed

text \<open>two connections that are unchoked before the loop runs the callback take two pieces off
  the work queue, but only the second one is handed to the callback: the first piece is neither
  queued nor requested from anyone.\<close>

theorem second_unchoke_loses_piece:
  assumes "handle_unchoke (p1, sh) = Inr (p1', sh1)" "handle_unchoke (p2, sh1) = Inr (p2', sh2)"
  shows "\<exists>i j q. m_work_queue (p_manager sh) = i # j # q \<and> m_work_queue (p_manager sh2) = q \<and>
           async_data sh2 = Some \<lparr>sp_index = j, sp_peer = self p2, sp_loop = m_loop p2\<rparr>"
  using handle_unchoke_shared [OF assms(1)] handle_unchoke_shared [OF assms(2)] by metis

lemma sample_unchoke:
  "p_manager sh = \<lparr>m_pieces = ps, m_work_queue = i # q\<rparr> \<Longrightarrow>
   \<exists>p' sh'. handle_unchoke (sample_peer, sh) = Inr (p', sh') \<and>
     p_manager sh' = \<lparr>m_pieces = ps, m_work_queue = q\<rparr>"
  by (simp add: handle_unchoke_def sample_peer_def peer_fresh_eq async_send_def Let_def
      next_length_def reset_def usize_def buffer_size_def)

theorem second_unchoke_loses_piece_witness:
  "let sh = sample_shared\<lparr>p_manager := \<lparr>m_pieces = [], m_work_queue = [0, 1, 2]\<rparr>\<rparr> in
   \<exists>p1' sh1 p2' sh2 i j q. handle_unchoke (sample_peer, sh) = Inr (p1', sh1) \<and>
     handle_unchoke (sample_peer, sh1) = Inr (p2', sh2) \<and>
     m_work_queue (p_manager sh) = i # j # q \<and> m_work_queue (p_manager sh2) = q \<and>
     async_data sh2 = Some \<lparr>sp_index = j, sp_peer = self sample_peer, sp_loop = m_loop sample_peer\<rparr>"
proof -
  let ?sh = "sample_shared\<lparr>p_manager := \<lparr>m_pieces = [], m_work_queue = [0, 1, 2]\<rparr>\<rparr>"
  obtain p1 sh1 where 1: "handle_unchoke (sample_peer, ?sh) = Inr (p1, sh1)"
    "p_manager sh1 = \<lparr>m_pieces = [], m_work_queue = [1, 2]\<rparr>"
    using sample_unchoke [of ?sh "[]" 0 "[1, 2]"] by auto
  obtain p2 sh2 where 2: "handle_unchoke (sample_peer, sh1) = Inr (p2, sh2)"
    using sample_unchoke [OF 1(2)] by auto
  from second_unchoke_loses_piece [OF 1(1) 2] 1(1) 2 show ?thesis unfolding Let_def by blast
qed

text \<open>writing a second piece destroys the first: after two saves, one after the other, the file consists of zeros up
  to the offset of the second piece and of that piece, whatever was in it before.\<close>

theorem second_save_truncates:
  assumes "get_piece i (manager s) = Inr p" "get_piece j (manager s) = Inr q" "pm_ok (manager s)"
    "j * 262144 \<le> int_max" "0 < m_received_bytes q" "m_data q = Some (map Some d)"
    "m_received_bytes q \<le> int (length d)" "save_alone i s = Inr s1"
  shows "\<exists>s2. save_alone j s1 = Inr s2 \<and>
           output_file s2 = Some (replicate (nat (j * 262144)) 0 @ take (nat (m_received_bytes q)) d)"
proof -
  have "m_index q = j" "0 \<le> j" using pm_ok_get [OF assms(3,2)] assms(2) by (auto simp: get_piece_eq)
  moreover have "manager s1 = manager s" using assms(8) by (auto simp: save_alone_eq)
  moreover have "take (nat (m_received_bytes q)) d \<noteq> []" using assms(5,7) by auto
  ultimately show ?thesis
    using assms(2,4-7) write_data_eq [of q d "[]"] by (simp add: save_alone_eq write_at_empty)
qed

definition sample_written :: session where
  "sample_written = \<lparr>m_peer_connections = [],
     common = \<lparr>p_manager = \<lparr>m_pieces = [sample_piece 4 1 4 0, (sample_piece 2 1 2 0)\<lparr>m_index := 1\<rparr>],
                            m_work_queue = []\<rparr>, async_data = None, async_pending = False\<rparr>,
     write_reqs = [], saving = [], output_file = None\<rparr>"

lemma sample_written_ok: "pm_ok (manager sample_written)"
proof -
  have ok: "piece_ok (sample_piece n 1 n 0)" if "int n \<le> int_max" for n
    using that by (auto simp: sample_piece_def piece_ok_def piece_default_def
        intro!: exI [of _ "replicate n 0"])
  have "piece_ok (sample_piece 4 1 4 0)" "piece_ok (sample_piece 2 1 2 0)"
    by (simp_all add: ok [simplified])
  then show ?thesis
    by (auto simp: sample_written_def pm_ok_def nth_Cons piece_ok_def split: nat.splits)
qed

theorem second_save_truncates_witness:
  "\<exists>s1 s2. save_alone 0 sample_written = Inr s1 \<and> save_alone 1 s1 = Inr s2 \<and>
     output_file s2 = Some (replicate (nat (1 * 262144)) 0 @ take (nat 2) (replicate 2 0))"
proof -
  let ?p = "sample_piece 4 1 4 0" and ?q = "(sample_piece 2 1 2 0)\<lparr>m_index := 1\<rparr>"
  have "write_data ?p (Some []) =
      Inr (Some (write_at (nat (m_index ?p * 262144)) (take (nat (m_received_bytes ?p)) (replicate 4 0)) []))"
    by (rule write_data_eq) (auto simp: sample_piece_def piece_default_def)
  then obtain s1 where s1: "save_alone 0 sample_written = Inr s1"
    by (auto simp: save_alone_eq sample_written_def get_piece_def)
  have q: "get_piece 1 (manager sample_written) = Inr ?q" "get_piece 0 (manager sample_written) = Inr ?p"
    by (simp_all add: sample_written_def get_piece_def)
  have "m_received_bytes ?q = 2" "m_data ?q = Some (map Some (replicate 2 0))"
    by (simp_all add: sample_piece_def)
  with second_save_truncates [OF q(2,1) sample_written_ok _ _ _ _ s1, of "replicate 2 0"] s1
  show ?thesis by auto
qed

text \<open>the offset of a piece is computed in \<open>int\<close>, so from piece 8192 on (2 GiB) writing a
  piece is undefined.\<close>

theorem save_offset_overflow:
  assumes "8192 \<le> m_index p"
  shows "write_data p file = Inl Undefined"
  using assms by (simp add: write_data_def i32_def)

theorem save_offset_overflow_witness:
  "write_data ((sample_piece 2 1 2 0)\<lparr>m_index := 8192\<rparr>) (Some []) = Inl Undefined"
  by (rule save_offset_overflow) simp

end
