(* ===== verification/Session_Invariant.thy ===== *)
theory Session_Invariant
  imports Session
begin

text \<open>
  The invariant of a running session and its preservation by every callback. Nothing is
  assumed of the remote peers: the bytes of a read are arbitrary.
\<close>

section \<open>The invariant\<close>

text \<open>
  A connection is not connected and empty, or ready for its next read, or closed. (A closed one
  is still reachable from the wake-up callback.)
\<close>

definition link_ok :: "peer \<Rightarrow> bool" where
  "link_ok c =
     (if m_socket c then Uv_close \<in> set (io_log c) \<or> (\<exists>w. ready c w)
      else rb_holds (m_recv_buffer c) [] \<and> m_recv_start (m_recv_buffer c) = 0 \<and>
           m_recv_end (m_recv_buffer c) = 0)"

definition peer_ok :: "nat \<Rightarrow> int \<Rightarrow> peer \<Rightarrow> bool" where
  "peer_ok i m c =
     (self c = i \<and> m_session c \<and> (m_curr_piece c = -1 \<or> 0 \<le> m_curr_piece c \<and> m_curr_piece c < m) \<and>
      link_ok c)"

definition session_ok :: "session \<Rightarrow> bool" where
  "session_ok s =
     (shared_ok (length (m_peer_connections s)) (common s) \<and>
      (\<forall>i < length (m_peer_connections s).
         peer_ok i (n_pieces (manager s)) (m_peer_connections s ! i)) \<and>
      (\<forall>x \<in> set (write_reqs s) \<union> set (saving s). 0 \<le> x \<and> x < n_pieces (manager s)))"

text \<open>What a callback keeps besides: the numbers of connections and pieces.\<close>

definition same_shape :: "session \<Rightarrow> session \<Rightarrow> bool" where
  "same_shape s s' =
     (length (m_peer_connections s') = length (m_peer_connections s) \<and>
      length (m_pieces (manager s')) = length (m_pieces (manager s)))"

lemma link_ok_log:
  assumes "link_ok c"
  shows "link_ok (c\<lparr>io_log := io_log c @ l\<rparr>)"
proof -
  have "ready (c\<lparr>io_log := io_log c @ l\<rparr>) = ready c" by (rule ext) (simp add: ready_def)
  with assms show ?thesis by (auto simp: link_ok_def)
qed

lemma link_ok_curr: "link_ok (c\<lparr>m_curr_piece := x\<rparr>) = link_ok c"
proof -
  have "ready (c\<lparr>m_curr_piece := x\<rparr>) = ready c" by (rule ext) (simp add: ready_def)
  then show ?thesis by (simp add: link_ok_def)
qed

lemma session_ok_pieces: "session_ok s \<Longrightarrow> pieces_ok (manager s)"
  by (simp add: session_ok_def shared_ok_def)

lemma session_ok_peer:
  "session_ok s \<Longrightarrow> peer_at i s = Inr c \<Longrightarrow> peer_ok i (n_pieces (manager s)) c"
  by (auto simp: session_ok_def peer_at_eq)

lemma session_ok_set_peer:
  assumes "session_ok s" "peer_ok i (n_pieces (manager s)) c"
  shows "session_ok (set_peer i c s)"
  using assms by (cases "i < length (m_peer_connections s)")
    (auto simp: session_ok_def nth_list_update list_update_beyond)

lemma session_ok_manager:
  assumes "session_ok s" "pieces_ok pm" "length (m_pieces pm) = length (m_pieces (manager s))"
  shows "session_ok (set_manager pm s)"
  using assms shared_ok_manager [of "length (m_peer_connections s)" "common s" pm]
  by (simp add: session_ok_def set_manager_def)

lemma session_ok_push:
  assumes "session_ok s" "0 \<le> i" "i < n_pieces (manager s)"
  shows "session_ok (push_work i s)"
  unfolding push_work_def
  by (rule session_ok_manager [OF assms(1)])
     (use pieces_ok_push [OF session_ok_pieces [OF assms(1)] assms(2,3)] in simp_all)

lemma session_ok_announce:
  assumes "session_ok s"
  shows "session_ok (s\<lparr>m_peer_connections := announce me i (m_peer_connections s)\<rparr>)"
proof -
  have "peer_ok j m (announce me i (m_peer_connections s) ! j)"
    if "j < length (m_peer_connections s)" "peer_ok j m (m_peer_connections s ! j)" for j m
    using that link_ok_log
    by (simp add: announce_nth peer_ok_def) (simp add: log_io_def)
  with assms show ?thesis by (simp add: session_ok_def)
qed

lemma same_shape_simps [simp]:
  "same_shape s s" "same_shape s (set_peer i c s') = same_shape s s'"
  "same_shape s (push_work k s') = same_shape s s'"
  "same_shape s (s'\<lparr>m_peer_connections := announce me k (m_peer_connections s')\<rparr>) = same_shape s s'"
  "same_shape s (s'\<lparr>write_reqs := w\<rparr>) = same_shape s s'"
  by (simp_all add: same_shape_def)

section \<open>Fetching\<close>

lemma request_blocks_keeps:
  assumes "request_blocks len (p, c) = Inr (p', c')" "piece_ok p" "m_backlog p \<le> 5"
    "len = m_piece_length p"
  shows "piece_ok p' \<and> m_index p' = m_index p \<and> m_backlog p' \<le> 5 \<and>
         (\<exists>l. c' = c\<lparr>io_log := io_log c @ l\<rparr>)"
  using assms
proof (induction "nat (max_backlog - m_backlog p)" arbitrary: p c rule: less_induct)
  case less
  show ?case
  proof (cases "m_backlog p < max_backlog \<and> m_total_requested p < len")
    case False
    then have "request_blocks len (p, c) = Inr (p, c)" by (subst request_blocks.simps) auto
    with less.prems show ?thesis by (auto intro: exI [of _ "[]"])
  next
    case True
    obtain upto size total msg where
      u: "i32 (m_total_requested p + block_length) = Inr upto" and r: "(if upto > len then i32 (len - m_total_requested p) else Inr block_length) = Inr size"
      "i32 (m_total_requested p + size) = Inr total"
      "request_blocks len
         (p\<lparr>m_backlog := m_backlog p + 1, m_total_requested := total\<rparr>, log_io (Uv_write msg) c) =
       Inr (p', c')"
      using less.prems(1) [unfolded request_blocks.simps [of len p c]] True
      by (simp del: i32_eq) blast
    let ?p = "p\<lparr>m_backlog := m_backlog p + 1, m_total_requested := total\<rparr>"
    have "0 \<le> total \<and> total \<le> len"
      using u r(1,2) less.prems(2,4) True by (auto simp: piece_ok_def split: if_splits)
    then have "piece_ok ?p" using less.prems(2,4) by (simp add: piece_ok_def)
    then have "piece_ok p' \<and> m_index p' = m_index ?p \<and> m_backlog p' \<le> 5 \<and>
        (\<exists>l. c' = (log_io (Uv_write msg) c)\<lparr>io_log := io_log (log_io (Uv_write msg) c) @ l\<rparr>)"
      using True less.prems(4) by (intro less.hyps [OF _ r(3)]) auto
    then show ?thesis by (auto simp: log_io_def)
  qed
qed

lemma setup_receive_link:
  assumes "link_ok c" "setup_receive c = Inr c'"
  shows "link_ok c' \<and> self c' = self c \<and> m_session c' = m_session c \<and>
         m_curr_piece c' = m_curr_piece c"
proof -
  have sock: "m_socket c" using assms(2) by (auto simp: setup_receive_def)
  have eq: "m_socket c' = m_socket c" "self c' = self c" "m_session c' = m_session c"
    "m_curr_piece c' = m_curr_piece c" "io_log c' = io_log c @ [Uv_read_start]"
    using assms(2) by (auto simp: setup_receive_def log_io_def)
  consider "Uv_close \<in> set (io_log c)" | w where "ready c w"
    using assms(1) sock by (auto simp: link_ok_def)
  then have "link_ok c'"
  proof cases
    case 1
    with eq sock show ?thesis by (simp add: link_ok_def)
  next
    case 2
    with setup_receive_windowed [OF ready_windowed assms(2)] eq sock show ?thesis
      by (auto simp: link_ok_def)
  qed
  with eq show ?thesis by simp
qed

lemma fetch_keeps:
  assumes "session_ok s" "0 \<le> index" "index < n_pieces (manager s)"
    "fetch_piece sha1 me index s = Inr (ans, s')"
  shows "session_ok s' \<and> same_shape s s' \<and> (ans = -1 \<or> 0 \<le> ans \<and> ans < n_pieces (manager s)) \<and>
         write_reqs s' = write_reqs s \<and> saving s' = saving s"
proof -
  obtain c where c: "peer_at me s = Inr c" using assms(4) by (auto simp: fetch_piece_def)
  define i where "i = (if m_curr_piece c = -1 then index else m_curr_piece c)"
  define s1 where "s1 = (if m_curr_piece c \<noteq> -1 then push_work index s else s)"
  define c1 where "c1 = c\<lparr>m_curr_piece := i\<rparr>"
  define s2 where "s2 = set_peer me c1 s1"
  have pc: "peer_ok me (n_pieces (manager s)) c" by (rule session_ok_peer [OF assms(1) c])
  then have i: "0 \<le> i" "i < n_pieces (manager s)" "i \<noteq> -1"
    using assms(2,3) by (auto simp: i_def peer_ok_def)
  have c1: "peer_ok me (n_pieces (manager s)) c1"
    using pc i by (simp add: peer_ok_def c1_def link_ok_curr)
  have s1: "session_ok s1" "same_shape s s1" "write_reqs s1 = write_reqs s" "saving s1 = saving s"
    "m_peer_connections s1 = m_peer_connections s"
    using session_ok_push [OF assms(1-3)] assms(1) by (auto simp: s1_def)
  have s2: "session_ok s2" "same_shape s s2" "write_reqs s2 = write_reqs s" "saving s2 = saving s"
    using session_ok_set_peer [OF s1(1), of me c1] c1 s1 by (auto simp: s2_def same_shape_def)
  have me: "me < length (m_peer_connections s2)" "m_peer_connections s2 ! me = c1"
    using c s1(5) by (auto simp: s2_def peer_at_eq)
  have free: "peer_ok me m (q\<lparr>m_curr_piece := -1\<rparr>)" if "peer_ok me m q" for m q
    using that by (simp add: peer_ok_def link_ok_curr)
  have s1': "s1 = (if m_curr_piece c = -1 then s else push_work index s)" by (simp add: s1_def)
  from assms(4) c i_def s1' c1_def s2_def show ?thesis
  proof (cases rule: fetch_piece_cases)
    case (idle p)
    with s2 show ?thesis by simp
  next
    case (verified p x)
    have x: "x = s2\<lparr>m_peer_connections := announce me i (m_peer_connections s2)\<rparr>"
      using verified(3) by (simp add: send_have_eq)
    have ok: "session_ok x" "same_shape s x" using session_ok_announce [OF s2(1)] s2(2) by (simp_all add: x)
    have "peer_at me x = Inr (m_peer_connections x ! me)" using me by (simp add: x peer_at_eq)
    from session_ok_set_peer [OF ok(1) free] session_ok_peer [OF ok(1) this] ok(2) s2 i verified(4,5)
    show ?thesis by (simp add: same_shape_def x)
  next
    case (failed p)
    have "session_ok (push_work i s2)"
      using session_ok_push [OF s2(1) i(1)] i(2) s2(2) by (simp add: same_shape_def)
    from session_ok_set_peer [OF this, of me "c1\<lparr>m_curr_piece := -1\<rparr>"] free [of "n_pieces (manager s)" c1] c1 s2 failed
    show ?thesis by (simp add: same_shape_def)
  next
    case (requested p p' c' c'')
    have pk: "piece_ok p" "m_index p = i" "m_backlog p \<le> 5"
      using pieces_ok_get [OF session_ok_pieces [OF assms(1)] requested(1)] by auto
    then have "piece_length p = m_piece_length p"
      by (auto simp: piece_ok_def piece_length_def intro!: narrow32_id)
    from request_blocks_keeps [OF requested(2) pk(1,3) this] pk(2) obtain l where
      r: "piece_ok p'" "m_index p' = i" "m_backlog p' \<le> 5" "c' = c1\<lparr>io_log := io_log c1 @ l\<rparr>"
      by auto
    have lk: "link_ok c'" using c1 link_ok_log by (simp add: r(4) peer_ok_def)
    have "peer_ok me (n_pieces (manager s)) c''"
      using setup_receive_link [OF lk requested(3)] c1 by (simp add: r(4) peer_ok_def)
    moreover have "session_ok (set_manager (put_piece i p' (manager s2)) s2)"
      using session_ok_manager [OF s2(1) pieces_ok_put [OF session_ok_pieces [OF s2(1)] i(1) r(1-3)]]
      by simp
    ultimately show ?thesis
      using session_ok_set_peer s2 requested(4,5) by (simp add: same_shape_def)
  qed
qed

section \<open>The callbacks\<close>

lemma session_ok_common:
  assumes "session_ok s" "shared_ok (length (m_peer_connections s)) sh"
    "length (m_pieces (p_manager sh)) = length (m_pieces (manager s))"
  shows "session_ok (s\<lparr>common := sh\<rparr>)"
  using assms by (simp add: session_ok_def)

lemma session_ok_queue:
  assumes "session_ok s" "queue_pop (m_work_queue (manager s)) = Inr q"
  shows "session_ok (set_manager ((manager s)\<lparr>m_work_queue := q\<rparr>) s)"
  by (rule session_ok_manager [OF assms(1) pieces_ok_pop [OF session_ok_pieces [OF assms(1)] assms(2)]])
     simp

lemma session_ok_write:
  assumes "session_ok s" "0 \<le> i" "i < n_pieces (manager s)"
  shows "session_ok (s\<lparr>write_reqs := write_reqs s @ [i]\<rparr>)"
  using assms by (auto simp: session_ok_def)

lemma try_download_cases:
  assumes "try_download sha1 s = Inr s'" "async_data (common s) = Some d"
    "s0 = s\<lparr>common := (common s)\<lparr>async_data := None\<rparr>\<rparr>"
  obtains (queued) "s' = push_work (sp_index d) s0"
  | (fetched) c ans where "peer_at (sp_peer d) s0 = Inr c" "\<not> m_choked c" "ans = -1"
      "fetch_piece sha1 (sp_peer d) (sp_index d) s0 = Inr (ans, s')"
  | (finished) c ans s1 nxt q a where "peer_at (sp_peer d) s0 = Inr c" "\<not> m_choked c" "ans \<noteq> -1"
      "fetch_piece sha1 (sp_peer d) (sp_index d) s0 = Inr (ans, s1)"
      "queue_front (m_work_queue (manager s1)) = Inr nxt"
      "queue_pop (m_work_queue (manager s1)) = Inr q"
      "fetch_piece sha1 (sp_peer d) nxt (set_manager ((manager s1)\<lparr>m_work_queue := q\<rparr>)
         (s1\<lparr>write_reqs := write_reqs s1 @ [ans]\<rparr>)) = Inr (a, s')"
  using assms by (auto simp: try_download_def Let_def set_manager_def split: if_splits)

lemma try_download_keeps:
  assumes "session_ok s" "try_download sha1 s = Inr s'"
  shows "session_ok s' \<and> same_shape s s'"
proof -
  obtain d where d: "async_data (common s) = Some d"
    using assms(2) by (auto simp: try_download_def split: option.splits)
  define s0 where "s0 = s\<lparr>common := (common s)\<lparr>async_data := None\<rparr>\<rparr>"
  have s0: "session_ok s0" "same_shape s s0"
    using assms(1) by (auto simp: s0_def session_ok_def shared_ok_def same_shape_def)
  have ix: "0 \<le> sp_index d" "sp_index d < n_pieces (manager s0)"
    using assms(1) d by (auto simp: session_ok_def shared_ok_def s0_def)
  from assms(2) d s0_def show ?thesis
  proof (cases rule: try_download_cases)
    case queued
    with session_ok_push [OF s0(1) ix] s0(2) show ?thesis by simp
  next
    case (fetched c ans)
    with fetch_keeps [OF s0(1) ix fetched(4)] s0(2) show ?thesis by (simp add: same_shape_def)
  next
    case (finished c ans s1 nxt q a)
    from fetch_keeps [OF s0(1) ix finished(4)] finished(3)
    have s1: "session_ok s1" "same_shape s s1" "0 \<le> ans" "ans < n_pieces (manager s1)"
      using s0(2) by (auto simp: same_shape_def)
    let ?s2 = "s1\<lparr>write_reqs := write_reqs s1 @ [ans]\<rparr>"
    have s2: "session_ok ?s2" by (rule session_ok_write [OF s1(1,3,4)])
    let ?s3 = "set_manager ((manager s1)\<lparr>m_work_queue := q\<rparr>) ?s2"
    have s3: "session_ok ?s3" "same_shape s ?s3"
      using session_ok_queue [OF s2, of q] finished(6) s1(2) by (auto simp: same_shape_def)
    have nxt: "0 \<le> nxt" "nxt < n_pieces (manager ?s3)"
      using queue_front_range [of "manager s1" nxt] session_ok_pieces [OF s1(1)] finished(5)
      by (auto simp: pieces_ok_def)
    from fetch_keeps [OF s3(1) nxt finished(7)] s3(2) show ?thesis by (auto simp: same_shape_def)
  qed
qed

lemma take_drop_subset: "set (take k xs @ drop (Suc k) xs) \<subseteq> set xs"
  by (auto dest: in_set_takeD in_set_dropD)

lemma session_ok_saves:
  assumes "session_ok s" "m_peer_connections s' = m_peer_connections s" "common s' = common s"
    "set (write_reqs s') \<union> set (saving s') \<subseteq> set (write_reqs s) \<union> set (saving s)"
  shows "session_ok s' \<and> same_shape s s'"
  using assms unfolding session_ok_def same_shape_def by (simp only:) blast

lemma save_opened_keeps:
  assumes "session_ok s" "k < length (write_reqs s)" "save_opened can_open k s = Inr s'"
  shows "session_ok s' \<and> same_shape s s'"
proof (rule session_ok_saves [OF assms(1)])
  show "m_peer_connections s' = m_peer_connections s" "common s' = common s"
    using assms(3) by (auto simp: save_opened_def open_output_def Let_def split: if_splits)
  have "set (write_reqs s') \<subseteq> set (write_reqs s)" "set (saving s') \<subseteq> set (saving s) \<union> {write_reqs s ! k}"
    using assms(3) take_drop_subset [of k "write_reqs s"]
    by (auto simp: save_opened_def open_output_def Let_def split: if_splits)
  then show "set (write_reqs s') \<union> set (saving s') \<subseteq> set (write_reqs s) \<union> set (saving s)"
    using nth_mem [OF assms(2)] by blast
qed

lemma save_written_keeps:
  assumes "session_ok s" "save_written k s = Inr s'"
  shows "session_ok s' \<and> same_shape s s'"
proof (rule session_ok_saves [OF assms(1)])
  show "m_peer_connections s' = m_peer_connections s" "common s' = common s"
    using assms(2) by (auto simp: save_written_def Let_def)
  have "write_reqs s' = write_reqs s" "set (saving s') \<subseteq> set (saving s)"
    using assms(2) take_drop_subset [of k "saving s"] by (auto simp: save_written_def Let_def)
  then show "set (write_reqs s') \<union> set (saving s') \<subseteq> set (write_reqs s) \<union> set (saving s)" by auto
qed

lemma on_connect_cases:
  assumes "link_ok c" "\<not> m_socket c" "on_connect status c = Inr c'"
  obtains (failed) "c' = c"
  | (greeted) rb d hs where "c' = c\<lparr>m_socket := True, m_recv_buffer := rb, stream_data := d,
      m_state := Some READ_PROTOCOL_ID, io_log := io_log c @ [Uv_write hs, Uv_read_start]\<rparr>"
      "ready c' []" "need c' = 20"
proof (cases "status < 0")
  case True
  with assms(3) failed show ?thesis by (simp add: on_connect_def)
next
  case False
  have rb: "rb_holds (m_recv_buffer c) []" "m_recv_start (m_recv_buffer c) = 0"
    "m_recv_end (m_recv_buffer c) = 0" "m_recv_pos (m_recv_buffer c) = 0"
    using assms(1,2) by (auto simp: link_ok_def rb_holds_def)
  obtain rb1 where rb1: "reserve 16384 (m_recv_buffer c) = Inr ((0, 16384), rb1)" "rb_holds rb1 []"
    "m_recv_start rb1 = 0" "m_recv_end rb1 = 0" "m_recv_pos rb1 = 0" "16384 \<le> rb_cap rb1"
    using reserve_holds [OF rb(1,2), of 16384] rb by auto
  obtain rb2 where rb2: "reset 20 rb1 = Inr rb2" "rb_holds rb2 []" "m_recv_start rb2 = 0"
    "m_recv_end rb2 = 0" "m_recv_pos rb2 = 0" "m_message_size rb2 = 20" "rb_cap rb2 = rb_cap rb1"
    using rb1 rb_holds_cap [OF rb1(2)]
    by (auto simp: reset_def rb_holds_def usize_def buffer_size_def rb_cap_def)
  obtain hs where c': "c' = c\<lparr>m_socket := True, m_recv_buffer := rb2, stream_data := Some (0, 16384),
      m_state := Some READ_PROTOCOL_ID, io_log := io_log c @ [Uv_write hs, Uv_read_start]\<rparr>"
    using assms(3) False rb1(1) rb2(1) by (auto simp: on_connect_def send_handshake_def)
  have "ready c' []" "need c' = 20" using rb2 rb1(6) by (simp_all add: c' ready_def)
  with c' show ?thesis by (rule greeted)
qed

lemma on_connect_link:
  assumes "link_ok c" "\<not> m_socket c" "on_connect status c = Inr c'"
  shows "link_ok c' \<and> self c' = self c \<and> m_session c' = m_session c \<and> m_curr_piece c' = m_curr_piece c"
  using assms
proof (cases rule: on_connect_cases)
  case (greeted rb d hs)
  then have "link_ok c'" by (auto simp: link_ok_def ready_def)
  with greeted(1) show ?thesis by simp
qed (use assms(1) in simp)

lemma read_event_keeps:
  assumes "session_ok s" "enabled ev s" "ev = Received i bs \<and> inp = Inr bs \<or> ev = Read_failed i err \<and> inp = Inl err"
    "read_event i inp s = Inr s'"
  shows "session_ok s' \<and> same_shape s s'"
proof -
  obtain c c' sh where c: "peer_at i s = Inr c"
    "on_read on_receive on_remote_close inp (c, common s) = Inr (c', sh)"
    "s' = set_peer i c' (s\<lparr>common := sh\<rparr>)"
    using assms(4) by (auto simp: read_event_def)
  have i: "i < length (m_peer_connections s)" using c(1) by (simp add: peer_at_eq)
  have pc: "peer_ok i (n_pieces (manager s)) c" by (rule session_ok_peer [OF assms(1) c(1)])
  let ?n = "length (m_peer_connections s)" and ?m = "length (m_pieces (manager s))"
  have rd: "reading c" using assms(2,3) c(1) by (auto simp: peer_at_eq Let_def)
  have inv: "conn_inv ?n ?m i (m_curr_piece c) (c, common s)"
    using pc assms(1) i rd by (simp add: conn_inv_def peer_ok_def session_ok_def reading_def)
    have "conn_inv ?n ?m i (m_curr_piece c) (c', sh) \<and>
      ((\<exists>w. ready c' w) \<or> Uv_close \<in> set (io_log c'))"
    using assms(3)
  proof
    assume a: "ev = Received i bs \<and> inp = Inr bs"
    obtain w where w: "ready c w" using pc rd by (auto simp: peer_ok_def link_ok_def reading_def)
    obtain off sz where "stream_data c = Some (off, sz)" "int (length bs) \<le> sz"
      using a assms(2) c(1) by (auto simp: peer_at_eq Let_def split: option.splits)
    with protocol.read_keeps [OF inv w] c(2) a show ?thesis by blast
  next
    assume a: "ev = Read_failed i err \<and> inp = Inl err"
    then have cl: "on_remote_close (log_io Uv_close c, common s) = Inr (c', sh)"
      using c(2) by (simp add: on_read_def)
    have "conn_inv ?n ?m i (m_curr_piece c) (log_io Uv_close c, common s)"
      using inv by (simp add: conn_inv_def log_io_def)
    from on_remote_close_keeps [OF this cl] show ?thesis by simp
  qed
  then have k: "conn_inv ?n ?m i (m_curr_piece c) (c', sh)"
    and lk: "(\<exists>w. ready c' w) \<or> Uv_close \<in> set (io_log c')" by auto
  from k lk have "peer_ok i (n_pieces (manager s)) c'"
    using pc by (auto simp: conn_inv_def peer_ok_def link_ok_def)
  moreover have "session_ok (s\<lparr>common := sh\<rparr>)"
    using session_ok_common [OF assms(1)] k by (simp add: conn_inv_def)
  ultimately show ?thesis
    using session_ok_set_peer k by (simp add: c(3) conn_inv_def same_shape_def)
qed

lemma handle_event_keeps:
  assumes "session_ok s" "enabled ev s" "handle_event sha1 can_open ev s = Inr s'"
  shows "session_ok s' \<and> same_shape s s'"
proof (cases ev)
  case (Connected i status)
  obtain c c' where c: "peer_at i s = Inr c" "on_connect status c = Inr c'" "s' = set_peer i c' s"
    using assms(3) Connected by auto
  have pc: "peer_ok i (n_pieces (manager s)) c" by (rule session_ok_peer [OF assms(1) c(1)])
  have "\<not> m_socket c" using assms(2) Connected c(1) by (simp add: peer_at_eq Let_def)
  from on_connect_link [OF _ this c(2)] pc have "peer_ok i (n_pieces (manager s)) c'"
    by (simp add: peer_ok_def)
  with session_ok_set_peer [OF assms(1)] show ?thesis by (simp add: c(3))
next
  case (Received i bs)
  with read_event_keeps [OF assms(1,2), of i bs "Inr bs" 0] assms(3) show ?thesis by simp
next
  case (Read_failed i err)
  with read_event_keeps [OF assms(1,2), of i "[]" "Inl err" err] assms(3) show ?thesis by simp
next
  case Woken
  have "session_ok (s\<lparr>common := (common s)\<lparr>async_pending := False\<rparr>\<rparr>)"
    using assms(1) by (simp add: session_ok_def shared_ok_def split: option.splits)
  from try_download_keeps [OF this] assms(3) Woken show ?thesis by (auto simp: same_shape_def)
next
  case (Save_opened k)
  with save_opened_keeps [OF assms(1)] assms(2,3) show ?thesis by simp
next
  case (Save_written k)
  with save_written_keeps [OF assms(1)] assms(3) show ?thesis by simp
qed

lemma step_keeps:
  assumes "step sha1 s ev s'" "session_ok s"
  shows "session_ok s' \<and> same_shape s s'"
  using assms by (auto elim!: step_elim dest: handle_event_keeps)

lemma reachable_keeps:
  assumes "reachable sha1 s0 s" "session_ok s0"
  shows "session_ok s \<and> same_shape s0 s"
  using assms
proof (induction rule: reachable.induct)
  case (reach_step s ev s')
  with step_keeps [of sha1 s ev s'] show ?case by (auto simp: same_shape_def)
qed simp

section \<open>The start\<close>

text \<open>A connection before \<open>start\<close>, and after it: not connected, not heard of.\<close>

definition unstarted :: "nat \<Rightarrow> peer_info \<Rightarrow> peer \<Rightarrow> bool" where
  "unstarted i info p =
     (\<exists>h. hash_copy (m_info_hash info) = Inr h \<and> p = peer_fresh i (info\<lparr>m_info_hash := h\<rparr>))"

definition standby :: "nat \<Rightarrow> peer_info \<Rightarrow> peer \<Rightarrow> bool" where
  "standby i info q =
     (\<exists>p. unstarted i info p \<and>
        q = p\<lparr>m_loop := True, m_recv_buffer := m_recv_buffer q, io_log := io_log q\<rparr> \<and>
        (\<forall>a \<in> set (io_log q). \<exists>v ip port. a = Uv_tcp_connect v ip port) \<and>
        rb_holds (m_recv_buffer q) [] \<and> m_recv_start (m_recv_buffer q) = 0 \<and>
        m_recv_end (m_recv_buffer q) = 0)"

lemma unstarted_fields:
  assumes "unstarted i info p"
  shows "self p = i" "m_session p" "m_async p" "m_curr_piece p = -1" "\<not> m_socket p" "io_log p = []" "m_choked p"
    "\<not> m_active p" "\<not> m_disconnect p" "m_state p = None" "m_recv_buffer p = recv_buffer_default"
    "\<exists>d. m_info_hash info = Some d \<and> m_peer_info p = info\<lparr>m_info_hash := Some (take 20 d)\<rparr>"
  using assms by (auto simp: unstarted_def peer_fresh_eq hash_copy_def split: option.splits)

lemma standby_fields:
  assumes "standby i info q"
  shows "self q = i" "m_session q" "m_async q" "m_loop q" "m_curr_piece q = -1" "\<not> m_socket q" "m_choked q"
    "\<not> m_active q" "\<not> m_disconnect q" "m_state q = None" "link_ok q"
    "\<exists>d. m_info_hash info = Some d \<and> m_peer_info q = info\<lparr>m_info_hash := Some (take 20 d)\<rparr>"
    "\<forall>a \<in> set (io_log q). \<exists>v ip port. a = Uv_tcp_connect v ip port"
proof -
  obtain p where p: "unstarted i info p"
    "q = p\<lparr>m_loop := True, m_recv_buffer := m_recv_buffer q, io_log := io_log q\<rparr>"
    and l: "\<forall>a \<in> set (io_log q). \<exists>v ip port. a = Uv_tcp_connect v ip port" "rb_holds (m_recv_buffer q) []"
    "m_recv_start (m_recv_buffer q) = 0" "m_recv_end (m_recv_buffer q) = 0"
    using assms unfolding standby_def by blast
  have f: "f q = f (p\<lparr>m_loop := True, m_recv_buffer := m_recv_buffer q, io_log := io_log q\<rparr>)"
    for f :: "peer \<Rightarrow> 'x"
    using p(2) by simp
  from unstarted_fields [OF p(1)] f [of self] f [of m_session] f [of m_async] f [of m_loop] f [of m_curr_piece]
    f [of m_socket] f [of m_choked] f [of m_active] f [of m_disconnect] f [of m_state] f [of m_peer_info] l
  show "self q = i" "m_session q" "m_async q" "m_loop q" "m_curr_piece q = -1" "\<not> m_socket q" "m_choked q"
    "\<not> m_active q" "\<not> m_disconnect q" "m_state q = None" "link_ok q"
    "\<exists>d. m_info_hash info = Some d \<and> m_peer_info q = info\<lparr>m_info_hash := Some (take 20 d)\<rparr>"
    "\<forall>a \<in> set (io_log q). \<exists>v ip port. a = Uv_tcp_connect v ip port"
    by (auto simp: link_ok_def)
qed

lemma peer_move_new:
  assumes "peer_new i info = Inr p" "peer_move i p = Inr q"
  shows "unstarted i info q"
proof -
  obtain d where "m_info_hash info = Some d" "p = peer_fresh i (info\<lparr>m_info_hash := Some (take 20 d)\<rparr>)"
    using assms(1) by (auto simp: peer_new_eq hash_copy_def split: option.splits)
  with assms(2) show ?thesis
    by (simp add: peer_move_eq unstarted_def peer_fresh_eq hash_copy_def recv_buffer_move_def
        recv_buffer_default_def buffer_default_def buffer_move_assign_def bitfield_self_move_def
        bitfield_default_def Let_def)
qed

text \<open>A vector that grows moves its elements once more; a connection before \<open>start\<close> is not changed by that.\<close>

lemma peer_move_again:
  assumes "unstarted i info p"
  shows "peer_move i p = Inr p"
proof -
  obtain d where "p = peer_fresh i (info\<lparr>m_info_hash := Some (take 20 d)\<rparr>)"
    using assms by (auto simp: unstarted_def hash_copy_def split: option.splits)
  then show ?thesis
    by (simp add: peer_move_eq peer_fresh_eq hash_copy_def recv_buffer_move_def recv_buffer_default_def
        buffer_default_def buffer_move_assign_def bitfield_self_move_def bitfield_default_def Let_def)
qed

lemma build_peers_unstarted:
  "build_peers i infos = Inr ps \<Longrightarrow>
   length ps = length infos \<and> (\<forall>j < length ps. unstarted (i + j) (infos ! j) (ps ! j))"
proof (induction i infos arbitrary: ps rule: build_peers.induct)
  case (2 i info infos)
  then obtain p q qs where "peer_new i info = Inr p" "peer_move i p = Inr q"
    "build_peers (Suc i) infos = Inr qs" "ps = q # qs" by auto
  with "2.IH" [of p q qs] peer_move_new show ?case
    by (auto simp: nth_Cons split: nat.splits)
qed simp

lemma core_start_ok:
  assumes "unstarted i info p" "core_start conv ip_ver True p = Inr q"
  shows "standby i info q"
proof -
  obtain rb where rb: "reserve 16384 recv_buffer_default = Inr ((0, 16384), rb)" "rb_holds rb []"
    "m_recv_start rb = 0" "m_recv_end rb = 0"
    using reserve_holds [OF rb_holds_default, of 16384] by (auto simp: recv_buffer_default_def)
  note p = unstarted_fields(6,11) [OF assms(1)]
  have "\<exists>l. q = p\<lparr>m_loop := True, m_recv_buffer := rb, io_log := l\<rparr> \<and>
      (\<forall>a \<in> set l. \<exists>v ip port. a = Uv_tcp_connect v ip port)"
    using assms(2) rb(1) p
    by (auto simp: core_start_def Let_def log_io_def intro: exI [of _ "[]"] split: if_splits)
  with assms(1) rb(2-4) show ?thesis by (auto simp: standby_def)
qed

lemma start_peers_ok:
  assumes "start_peers conv ip_ver ps = Inr qs" "\<forall>j < length ps. unstarted (i + j) (infos ! j) (ps ! j)"
    "length ps = length infos"
  shows "length qs = length ps \<and> (\<forall>j < length qs. standby (i + j) (infos ! j) (qs ! j))"
  using assms
proof (induction conv ip_ver ps arbitrary: i qs infos rule: start_peers.induct)
  case (2 conv ip_ver p ps)
  then obtain q rs where q: "core_start conv ip_ver True p = Inr q"
    "start_peers conv ip_ver ps = Inr rs" "qs = q # rs" by auto
  obtain info infos' where infos: "infos = info # infos'" using "2.prems"(3) by (cases infos) auto
  have "unstarted i info p" using "2.prems"(2) infos by (auto dest: spec [of _ 0])
  then have "standby i info q" using core_start_ok q(1) by blast
  moreover have "\<forall>j < length ps. unstarted (Suc i + j) (infos' ! j) (ps ! j)"
    using "2.prems"(2) infos by auto
  ultimately show ?case using "2.IH" [of q rs "Suc i" infos'] q "2.prems"(3) infos
    by (auto simp: nth_Cons split: nat.splits)
qed simp

text \<open>The session that \<open>start\<close> hands to the event loop.\<close>

lemma session_start_state:
  assumes "session_start conv ip_ver len hashes infos = Inr s"
  obtains pm where "piece_manager_new len hashes = Inr pm"
    "common s = \<lparr>p_manager = pm, async_data = None, async_pending = False\<rparr>"
    "write_reqs s = []" "saving s = []" "output_file s = None" "length (m_peer_connections s) = length infos"
    "\<And>i. i < length infos \<Longrightarrow> standby i (infos ! i) (m_peer_connections s ! i)"
proof -
  obtain pm ps qs where ps: "piece_manager_new len hashes = Inr pm" "build_peers 0 infos = Inr ps"
    "start_peers conv ip_ver ps = Inr qs"
    "s = \<lparr>m_peer_connections = qs,
          common = \<lparr>p_manager = pm, async_data = None, async_pending = False\<rparr>,
          write_reqs = [], saving = [], output_file = None\<rparr>"
    using assms by (auto simp: session_start_def)
  have b: "length ps = length infos" "\<forall>j < length ps. unstarted (0 + j) (infos ! j) (ps ! j)"
    using build_peers_unstarted [OF ps(2)] by simp_all
  show ?thesis
    using start_peers_ok [OF ps(3) b(2,1)] b(1) ps(1,4) by (intro that [of pm]) auto
qed

lemma session_start_ok:
  assumes "session_start conv ip_ver len hashes infos = Inr s" "0 \<le> len" "len \<le> int_max"
  shows "session_ok s \<and> length (m_peer_connections s) = length infos \<and>
         length (m_pieces (manager s)) = length hashes div 20"
proof -
  obtain pm where pm: "piece_manager_new len hashes = Inr pm"
    "common s = \<lparr>p_manager = pm, async_data = None, async_pending = False\<rparr>" "write_reqs s = []" "saving s = []"
    "length (m_peer_connections s) = length infos"
    "\<And>i. i < length infos \<Longrightarrow> standby i (infos ! i) (m_peer_connections s ! i)"
    using session_start_state [OF assms(1)] by metis
  have ok: "pm_ok pm" "length (m_pieces pm) = length hashes div 20"
    "\<forall>i < length hashes div 20. m_backlog (m_pieces pm ! i) = 0"
    using piece_manager_new_ok [OF assms(2,3), of hashes] pm(1) by auto
  then have "pieces_ok pm" by (auto simp: pieces_ok_def in_set_conv_nth)
  moreover have "peer_ok i m (m_peer_connections s ! i)" if "i < length infos" for i m
    using standby_fields [OF pm(6) [OF that]] by (simp add: peer_ok_def)
  ultimately show ?thesis using pm ok(2) by (simp add: session_ok_def shared_ok_def)
qed

section \<open>Properties\<close>

text \<open>C6: in every session reachable from the start, whatever the remote peers send, the pieces
  are well formed and numbered, no piece has more than five requests outstanding or more bytes
  requested than it has, the work queue, the current pieces and the writes that wait or run are indices
  of pieces, and every open connection is ready for its next read.\<close>

theorem session_invariant:
  assumes "session_start conv ip_ver len hashes infos = Inr s0" "0 \<le> len" "len \<le> int_max"
    "reachable sha1 s0 s"
  shows "session_ok s \<and> length (m_peer_connections s) = length infos \<and>
         length (m_pieces (manager s)) = length hashes div 20 \<and>
         (\<forall>i < length hashes div 20. \<exists>p. get_piece (int i) (manager s) = Inr p \<and> piece_ok p \<and>
            m_index p = int i \<and> m_backlog p \<le> max_backlog \<and> m_total_requested p \<le> m_piece_length p) \<and>
         (\<forall>x \<in> set (m_work_queue (manager s)) \<union> set (write_reqs s) \<union> set (saving s).
            0 \<le> x \<and> x < int (length hashes div 20)) \<and>
         (\<forall>c \<in> set (m_peer_connections s). reading c \<longrightarrow> (\<exists>w. ready c w))"
proof -
  have s0: "session_ok s0" "length (m_peer_connections s0) = length infos"
    "length (m_pieces (manager s0)) = length hashes div 20"
    using session_start_ok [OF assms(1-3)] by auto
  then have s: "session_ok s" "length (m_peer_connections s) = length infos"
    "length (m_pieces (manager s)) = length hashes div 20"
    using reachable_keeps [OF assms(4)] by (auto simp: same_shape_def)
  have ok: "pieces_ok (manager s)" by (rule session_ok_pieces [OF s(1)])
  have "\<exists>p. get_piece (int i) (manager s) = Inr p \<and> piece_ok p \<and> m_index p = int i \<and>
      m_backlog p \<le> max_backlog \<and> m_total_requested p \<le> m_piece_length p"
    if "i < length hashes div 20" for i
  proof -
    have g: "get_piece (int i) (manager s) = Inr (m_pieces (manager s) ! i)"
      using that s(3) by (simp add: get_piece_eq)
    from pieces_ok_get [OF ok g] g show ?thesis by (auto simp: piece_ok_def)
  qed
  moreover have "\<exists>w. ready c w" if "c \<in> set (m_peer_connections s)" "reading c" for c
  proof -
    note c = that
    obtain i where "i < length (m_peer_connections s)" "c = m_peer_connections s ! i"
      using c(1) by (auto simp: in_set_conv_nth)
    then have "link_ok c" using s(1) by (simp add: session_ok_def peer_ok_def)
    with c(2) show ?thesis by (auto simp: link_ok_def reading_def)
  qed
  moreover have "0 \<le> x \<and> x < int (length hashes div 20)"
    if "x \<in> set (m_work_queue (manager s)) \<union> set (write_reqs s) \<union> set (saving s)" for x
    using that s ok by (auto simp: session_ok_def pieces_ok_def pm_ok_def)
  ultimately show ?thesis using s by blast
qed

lemma sample_start:
  "\<exists>s0. session_start (\<lambda>_. Inr 80) (\<lambda>_. 4) 16 (replicate 20 0) [sample_info] = Inr s0"
proof -
  obtain pm where "piece_manager_new 16 (replicate 20 0) = Inr pm"
    using piece_manager_new_ok [of 16 "replicate 20 0"] by auto
  moreover obtain p q where pq: "peer_new 0 sample_info = Inr p" "peer_move 0 p = Inr q"
    by (auto simp: peer_new_eq peer_move_eq peer_fresh_eq sample_info_def hash_copy_def)
  then have "unstarted 0 sample_info q" by (rule peer_move_new)
  note unstarted_fields(11) [OF this]
  then have "\<exists>r. core_start (\<lambda>_. Inr 80) (\<lambda>_. 4) True q = Inr r"
    using reserve_holds [OF rb_holds_default, of 16384]
    by (auto simp: core_start_def recv_buffer_default_def Let_def)
  ultimately show ?thesis using pq by (auto simp: session_start_def)
qed

theorem session_invariant_witness:
  "\<exists>s0. session_start (\<lambda>_. Inr 80) (\<lambda>_. 4) 16 (replicate 20 0) [sample_info] = Inr s0 \<and>
     session_ok s0 \<and> length (m_peer_connections s0) = length [sample_info] \<and>
     length (m_pieces (manager s0)) = length (replicate 20 (0 :: byte)) div 20"
proof -
  obtain s0 where "session_start (\<lambda>_. Inr 80) (\<lambda>_. 4) 16 (replicate 20 0) [sample_info] = Inr s0"
    using sample_start by blast
  with session_invariant [OF this _ _ reach_start] show ?thesis by auto
qed

end
