(* ===== verification/Session_Runs.thy ===== *)
theory Session_Runs
  imports Session Stream_Receiver
begin

text \<open>
  Runs of a session as lists of events: what they do, when they may occur, and the bytes that a
  connection receives in them. The reads of one connection are \<open>run_reads\<close> of it.
\<close>

section \<open>Sequences of events\<close>

fun run_events :: "(byte list \<Rightarrow> byte list) \<Rightarrow> event list \<Rightarrow> session \<Rightarrow> session res" where
  "run_events sha1 [] s = Inr s"
| "run_events sha1 (ev # evs) s = bindE (handle_event sha1 True ev s) (run_events sha1 evs)"

text \<open>Every event may occur when it is its turn, as \<open>libuv\<close> guarantees.\<close>

fun may_occur :: "(byte list \<Rightarrow> byte list) \<Rightarrow> event list \<Rightarrow> session \<Rightarrow> bool" where
  "may_occur sha1 [] s = True"
| "may_occur sha1 (ev # evs) s =
     (enabled ev s \<and>
      (case handle_event sha1 True ev s of Inl _ \<Rightarrow> True | Inr s' \<Rightarrow> may_occur sha1 evs s'))"

lemma set_peer_same: "peer_at i s = Inr c \<Longrightarrow> set_peer i c s = s"
  by (simp add: peer_at_eq set_peer_def)

lemma peer_at_set_peer: "peer_at i s = Inr c \<Longrightarrow> peer_at i (set_peer i c' (s\<lparr>common := sh\<rparr>)) = Inr c'"
  by (simp add: peer_at_eq)

lemma set_peer_set_peer:
  "set_peer i c' ((set_peer i c (s\<lparr>common := sh\<rparr>))\<lparr>common := sh'\<rparr>) = set_peer i c' (s\<lparr>common := sh'\<rparr>)"
  by (simp add: set_peer_def)

text \<open>Reads of one connection, as events of the session.\<close>

lemma run_received:
  assumes "peer_at me s = Inr c"
  shows "run_events sha1 (map (Received me) chunks) s =
    bindE (run_reads on_receive on_remote_close chunks (c, common s))
      (\<lambda>(c', sh). Inr (set_peer me c' (s\<lparr>common := sh\<rparr>)))"
  using assms
proof (induction chunks arbitrary: s c)
  case Nil
  then show ?case by (simp add: set_peer_same)
next
  case (Cons bs chunks)
  show ?case
  proof (cases "on_read on_receive on_remote_close (Inr bs) (c, common s)")
    case (Inl e)
    with Cons.prems show ?thesis by (simp add: read_event_def)
  next
    case (Inr r)
    obtain c1 sh1 where r: "r = (c1, sh1)" by (cases r)
    from Cons.IH [OF peer_at_set_peer [OF Cons.prems]] Inr r Cons.prems show ?thesis
      by (simp add: read_event_def set_peer_set_peer)
  qed
qed

lemma received_fit:
  assumes "peer_at me s = Inr c" "may_occur sha1 (map (Received me) chunks) s"
  shows "reads_fit on_receive on_remote_close chunks (c, common s)"
  using assms
proof (induction chunks arbitrary: s c)
  case (Cons bs chunks)
  have fit: "case stream_data c of None \<Rightarrow> False | Some (off, n) \<Rightarrow> int (length bs) \<le> n"
    using Cons.prems by (simp add: peer_at_eq Let_def)
  show ?case
  proof (cases "on_read on_receive on_remote_close (Inr bs) (c, common s)")
    case (Inl e)
    with fit show ?thesis by simp
  next
    case (Inr r)
    obtain c1 sh1 where r: "r = (c1, sh1)" by (cases r)
    from Cons.IH [OF peer_at_set_peer [OF Cons.prems(1)]] Cons.prems Inr r fit show ?thesis
      by (simp add: read_event_def)
  qed
qed simp

text \<open>Runs in parts.\<close>

lemma run_events_append:
  "run_events sha1 (xs @ ys) s = bindE (run_events sha1 xs s) (run_events sha1 ys)"
proof (induction xs arbitrary: s)
  case (Cons ev xs)
  then show ?case by (cases "handle_event sha1 True ev s") auto
qed simp

lemma may_occur_append:
  "may_occur sha1 (xs @ ys) s \<longleftrightarrow>
     may_occur sha1 xs s \<and>
     (case run_events sha1 xs s of Inl _ \<Rightarrow> True | Inr s' \<Rightarrow> may_occur sha1 ys s')"
proof (induction xs arbitrary: s)
  case (Cons ev xs)
  then show ?case by (cases "handle_event sha1 True ev s") auto
qed simp

text \<open>A run that may occur visits reachable sessions.\<close>

lemma run_reachable:
  assumes "run_events sha1 evs s = Inr s'" "may_occur sha1 evs s" "reachable sha1 s0 s"
  shows "reachable sha1 s0 s'"
  using assms
proof (induction evs arbitrary: s)
  case (Cons ev evs)
  then obtain s1 where s1: "handle_event sha1 True ev s = Inr s1" "run_events sha1 evs s1 = Inr s'"
    "enabled ev s" "may_occur sha1 evs s1"
    by auto
  have "step sha1 s ev s1" using s1(1,3) by (rule step_event [rotated])
  with Cons.prems(3) have "reachable sha1 s0 s1" by (rule reach_step)
  with Cons.IH s1 show ?case by blast
qed simp

section \<open>The bytes of a connection\<close>

fun received_from :: "nat \<Rightarrow> event list \<Rightarrow> byte list" where
  "received_from i [] = []"
| "received_from i (Received j bs # evs) = (if i = j then bs else []) @ received_from i evs"
| "received_from i (ev # evs) = received_from i evs"

lemma received_from_append: "received_from i (xs @ ys) = received_from i xs @ received_from i ys"
  by (induction i xs rule: received_from.induct) auto

lemma received_from_reads: "received_from i (map (Received i) chunks) = concat chunks"
  by (induction chunks) auto

end
