(* ===== verification/Peer_Behaviour.thy ===== *)
theory Peer_Behaviour
  imports Peer_Spec Transport_Invariant
begin

text \<open>
  Consequences of the refinement for whole conversations: the handshake, a list of messages,
  and the inputs on which the program leaves the specification (a keep-alive message, a bad
  handshake).
\<close>

section \<open>Feeding complete messages\<close>

lemma feed_nil [simp]: "feed [] st = Some st"
  by (simp add: feed_def)

lemma feed_message:
  assumes "need p = int (length msg)" "msg \<noteq> []" "deliver msg (p, sh) = Some (p', sh')"
  shows "feed (msg @ rest) ([], p, sh) = feed rest ([], p', sh')"
  using feed_complete [of "[]" msg need "(p, sh)" deliver rest] assms by (simp add: feed_def)

lemma feed_run:
  assumes "ready p []" "framed p" "reads_fit on_receive on_remote_close chunks (p, sh)"
    "feed (concat chunks) ([], strip p, sh) = Some ([], a, sh')"
  shows "\<exists>p'. run_reads on_receive on_remote_close chunks (p, sh) = Inr (p', sh') \<and> strip p' = a \<and>
           ready p' []"
proof -
  have "0 < need p" using framed_bounds [OF assms(2)] by simp
  then have "peer.idle p []" using assms(1,2) by (simp add: peer.idle_def)
  from peer.reads_feed [OF this assms(3), of "[]" a sh'] assms(4) show ?thesis
    by (auto simp: feed_def peer.idle_def)
qed

section \<open>The handshake\<close>

lemma handshake_feed:
  assumes "m_state p = Some READ_PROTOCOL_ID" "need p = 20" "m_info_hash (m_peer_info p) = Some h"
    "length h = 20" "take 20 (m_remote_id (m_peer_info p)) = rid" "length rid = 20" "length ext = 8"
  shows "feed ([19] @ protocol_id @ ext @ h @ rid) ([], p, sh) =
    Some ([], await READ_MESSAGE_SIZE 4 (p\<lparr>m_active := True\<rparr>), sh)"
proof -
  let ?p1 = "await READ_INFO_HASH 28 p" and ?p2 = "await READ_PEER_ID 20 p"
  have 1: "deliver ([19] @ protocol_id) (p, sh) = Some (?p1, sh)"
    using assms(1) by (simp add: deliver_def)
  have 2: "deliver (ext @ h) (?p1, sh) = Some (?p2, sh)"
    using assms(3,7) by (simp add: deliver_def await_def)
  have 3: "deliver rid (?p2, sh) = Some (await READ_MESSAGE_SIZE 4 (p\<lparr>m_active := True\<rparr>), sh)"
    using assms(5) by (simp add: deliver_def await_def)
  have "feed (([19] @ protocol_id) @ (ext @ h) @ rid) ([], p, sh) = feed ((ext @ h) @ rid) ([], ?p1, sh)"
    by (rule feed_message [OF _ _ 1]) (simp_all add: assms(2))
  also have "\<dots> = feed rid ([], ?p2, sh)"
    by (rule feed_message [OF _ _ 2]) (use assms(4,7) in auto)
  also have "\<dots> = feed [] ([], await READ_MESSAGE_SIZE 4 (p\<lparr>m_active := True\<rparr>), sh)"
    using feed_message [OF _ _ 3, of "[]"] assms(6) by (cases "rid = []") auto
  finally show ?thesis by simp
qed

section \<open>Framed messages\<close>

definition frame :: "byte list \<Rightarrow> byte list" where
  "frame msg = be_bytes (int (length msg)) @ msg"

fun deliver_all :: "byte list list \<Rightarrow> peer \<times> shared \<Rightarrow> (peer \<times> shared) option" where
  "deliver_all [] ps = Some ps"
| "deliver_all (msg # msgs) ps = Option.bind (deliver_message msg ps) (deliver_all msgs)"

lemma word_at_be_bytes:
  assumes "0 \<le> v" "v \<le> int_max"
  shows "word_at 0 (be_bytes v @ rest) = v"
  using field_at_be_bytes [of v "[]" 0 rest] assms
  by (simp add: field_at_def deserialize_int_def word_at_def read_bytes_def mem_get_def
      take_map drop_map)

lemma await_await [simp]: "await st n (await st' n' p) = await st n p"
  by (simp add: await_def)

lemma deliver_parts_await:
  "wake i (await st n p) sh = wake i p sh"
  "deliver_unchoke (await st n p) sh = deliver_unchoke p sh"
  "deliver_piece msg (await st n p) sh = deliver_piece msg p sh"
  "deliver_bitfield msg (await st n p) = await st n (deliver_bitfield msg p)"
  by (auto simp: wake_def await_def deliver_bitfield_def log_io_def deliver_unchoke_def
      deliver_piece_def split: list.splits sum.splits)

lemma await_fields [simp]:
  "m_choked (await st n p) = m_choked p" "m_socket (await st n p) = m_socket p"
  "m_async (await st n p) = m_async p"
  by (simp_all add: await_def)

lemma await_choked [simp]: "await st n ((await st' n' p)\<lparr>m_choked := b\<rparr>) = await st n (p\<lparr>m_choked := b\<rparr>)"
  by (simp add: await_def)

lemma deliver_message_await:
  "deliver_message msg (await st n p, sh) = deliver_message msg (p, sh)"
  by (simp add: deliver_message_def deliver_parts_await Let_def
      cong: option.case_cong message_id.case_cong)

lemma deliver_message_state:
  assumes "deliver_message msg (p, sh) = Some (p', sh')"
  shows "m_state p' = Some READ_MESSAGE_SIZE \<and> need p' = 4"
proof -
  have "\<exists>q. p' = await READ_MESSAGE_SIZE 4 q"
    using assms by (auto simp: deliver_message_def Let_def split: option.splits message_id.splits if_splits)
  then show ?thesis by (auto simp: await_def awaiting_def)
qed

lemma feed_frame:
  assumes "m_state p = Some READ_MESSAGE_SIZE" "need p = 4" "msg \<noteq> []" "int (length msg) * 3 \<le> int_max"
  shows "feed (frame msg @ rest) ([], p, sh) =
    (case deliver_message msg (p, sh) of None \<Rightarrow> None | Some (p', sh') \<Rightarrow> feed rest ([], p', sh'))"
proof -
  let ?p = "await READ_MESSAGE (int (length msg)) p"
  have "word_at 0 (be_bytes (int (length msg))) = int (length msg)"
    using word_at_be_bytes [of "int (length msg)" "[]"] assms(4) by simp
  then have "deliver (be_bytes (int (length msg))) (p, sh) = Some (?p, sh)"
    using assms(1,3,4) by (simp add: deliver_def)
  from feed_message [OF _ _ this, of "msg @ rest"]
  have "feed (frame msg @ rest) ([], p, sh) = feed (msg @ rest) ([], ?p, sh)"
    using assms(2) by (simp add: frame_def be_bytes_def Let_def)
  also have "\<dots> = (case deliver msg (?p, sh) of None \<Rightarrow> None | Some ps' \<Rightarrow> feed rest ([], ps'))"
    using feed_complete [of "[]" msg need "(?p, sh)" deliver rest] assms(3)
    by (simp add: feed_def split: option.splits)
  also have "deliver msg (?p, sh) = deliver_message msg (p, sh)"
    using deliver_message_await [of msg] by (simp add: deliver_def await_def Let_def)
  finally show ?thesis by (auto split: option.splits)
qed

lemma feed_frames:
  assumes "m_state p = Some READ_MESSAGE_SIZE" "need p = 4"
    "\<forall>msg \<in> set msgs. msg \<noteq> [] \<and> int (length msg) * 3 \<le> int_max"
    "deliver_all msgs (p, sh) = Some (p', sh')"
  shows "feed (concat (map frame msgs)) ([], p, sh) = Some ([], p', sh')"
  using assms
proof (induction msgs arbitrary: p sh)
  case (Cons msg msgs)
  then obtain p1 sh1 where 1: "deliver_message msg (p, sh) = Some (p1, sh1)"
    "deliver_all msgs (p1, sh1) = Some (p', sh')"
    by (cases "deliver_message msg (p, sh)") auto
  with Cons.IH [of p1 sh1] deliver_message_state [OF 1(1)] Cons.prems(3)
    feed_frame [OF Cons.prems(1,2), of msg "concat (map frame msgs)" sh]
  show ?case by simp
qed simp

section \<open>Input that leaves the specification\<close>

text \<open>A connection whose window starts with a length of zero.\<close>

lemma on_receive_zero_length:
  assumes "m_state p = Some READ_MESSAGE_SIZE" "need p = 4" "rb_holds (m_recv_buffer p) w"
    "4 \<le> m_recv_pos (m_recv_buffer p) \<Longrightarrow> take 4 w = replicate 4 0"
  shows "on_receive n (p, sh) = Inr (p, sh)"
proof (cases "4 \<le> m_recv_pos (m_recv_buffer p)")
  case False
  then have "\<not> is_message_finished (m_recv_buffer p)" using assms(2) by (simp add: is_message_finished_def)
  with assms(1,2) show ?thesis
    by (simp add: on_receive_def chain_def read_protocol_id_def read_info_hash_def read_peer_id_def
        read_message_size_def)
next
  case True
  let ?rb = "m_recv_buffer p"
  have w: "take 4 w = replicate 4 0" by (rule assms(4) [OF True])
  then have ne: "w \<noteq> []" by auto
  obtain cs where cs: "get ?rb = Inr (Some cs, m_recv_pos ?rb)" "take (length w) cs = map Some w"
    "length w \<le> length cs"
    using get_holds [OF assms(3) ne] by blast
  have "4 \<le> length w"
  proof -
    have "length (take 4 w) = 4" using w by simp
    then show ?thesis by (simp split: if_splits)
  qed
  then have "deserialize_int (drop 0 cs) (m_recv_pos ?rb) = Inr (word_at 0 w)"
    using prefix_deserialize [OF cs(2,3), of 0 "m_recv_pos ?rb"] True by simp
  moreover have "word_at 0 w = 0" using w by (simp add: word_at_def be_word_def numeral_eq_Suc)
  ultimately have "get_length cs (m_recv_pos ?rb) = Inr 0" by (simp add: get_length_def)
  moreover have "is_message_finished ?rb" using True assms(2) by (simp add: is_message_finished_def)
  ultimately show ?thesis
    using assms(1,2) cs(1)
    by (simp add: on_receive_def chain_def read_protocol_id_def read_info_hash_def read_peer_id_def
        read_message_size_def)
qed

text \<open>
  Such a connection between two reads: its window is everything received since, and starts with
  zeros (or is still shorter than a length).
\<close>

definition zero_prefix :: "byte list \<Rightarrow> bool" where
  "zero_prefix w = (\<forall>x \<in> set (take 4 w). x = 0)"

lemma zero_prefix_full: "zero_prefix w \<Longrightarrow> 4 \<le> length w \<Longrightarrow> take 4 w = replicate 4 0"
  by (rule replicate_eqI) (auto simp: zero_prefix_def)

lemma zero_prefix_take: "zero_prefix (xs @ ys) \<Longrightarrow> zero_prefix xs"
  by (auto simp: zero_prefix_def take_append)

definition dead :: "peer \<Rightarrow> byte list \<Rightarrow> bool" where
  "dead p w =
     (ready p w \<and> m_state p = Some READ_MESSAGE_SIZE \<and> need p = 4 \<and> \<not> m_disconnect p \<and> zero_prefix w)"

lemma advance_past:
  assumes "rb_holds rb w" "0 < m_message_size rb" "0 \<le> n" "m_recv_pos rb + n \<le> int (length w)"
  shows "\<exists>a. advance_pos n rb = Inr (a, rb\<lparr>m_recv_pos := m_recv_pos rb + a\<rparr>) \<and> 0 \<le> a \<and> a \<le> n \<and>
           (0 < n \<longrightarrow> 0 < a) \<and> rb_holds (rb\<lparr>m_recv_pos := m_recv_pos rb + a\<rparr>) w"
proof -
  have b: "0 \<le> m_recv_pos rb" "m_message_size rb \<le> int_max" "int (length w) \<le> int_max"
    using assms(1) rb_holds_cap [OF assms(1)] by (auto simp: rb_holds_def)
  let ?a = "min (if m_message_size rb > m_recv_pos rb then m_message_size rb - m_recv_pos rb
                 else m_message_size rb) n"
  have "advance_pos n rb = Inr (?a, rb\<lparr>m_recv_pos := m_recv_pos rb + ?a\<rparr>)"
    using assms(2-4) b by (auto simp: advance_pos_def Let_def min_def i32_def)
  moreover have "rb_holds (rb\<lparr>m_recv_pos := m_recv_pos rb + ?a\<rparr>) w"
    using assms b by (auto simp: rb_holds_def rb_cells_def rb_cap_def)
  ultimately show ?thesis using assms(2,3) by (intro exI [of _ ?a]) auto
qed

lemma loop_dead:
  assumes "m_state p = Some READ_MESSAGE_SIZE" "need p = 4" "rb_holds (m_recv_buffer p) w"
    "zero_prefix w" "0 \<le> n" "m_recv_pos (m_recv_buffer p) + n = int (length w)"
  shows "receive_loop on_receive n (p, sh) =
    Inr (p\<lparr>m_recv_buffer := (m_recv_buffer p)\<lparr>m_recv_pos := int (length w)\<rparr>\<rparr>, sh)"
  using assms
proof (induction "nat n" arbitrary: n p rule: less_induct)
  case less
  let ?rb = "m_recv_buffer p"
  obtain a where a: "advance_pos n ?rb = Inr (a, ?rb\<lparr>m_recv_pos := m_recv_pos ?rb + a\<rparr>)" "0 \<le> a"
    "a \<le> n" "0 < n \<longrightarrow> 0 < a" "rb_holds (?rb\<lparr>m_recv_pos := m_recv_pos ?rb + a\<rparr>) w"
    using advance_past [of ?rb w n] less.prems by auto
  let ?p = "p\<lparr>m_recv_buffer := ?rb\<lparr>m_recv_pos := m_recv_pos ?rb + a\<rparr>\<rparr>"
  have "take 4 w = replicate 4 0" if "4 \<le> m_recv_pos ?rb + a"
    using that less.prems(4,6) a(3) by (intro zero_prefix_full) auto
  then have r: "on_receive a (?p, sh) = Inr (?p, sh)"
    using on_receive_zero_length [of ?p w a sh] less.prems(1,2) a(5) by simp
  show ?case
  proof (cases "n - a > 0 \<and> a > 0")
    case False
    then have "n = a" using a(2-4) by auto
    then show ?thesis
      unfolding receive_loop.simps [of on_receive n p sh] using a(1) r False less.prems(6) by simp
  next
    case True
    have "receive_loop on_receive n (p, sh) = receive_loop on_receive (n - a) (?p, sh)"
      unfolding receive_loop.simps [of on_receive n p sh] using a(1) r True by simp
    also have "\<dots> = Inr (?p\<lparr>m_recv_buffer := (m_recv_buffer ?p)\<lparr>m_recv_pos := int (length w)\<rparr>\<rparr>, sh)"
      using less.prems a True by (intro less.hyps) auto
    finally show ?thesis by simp
  qed
qed

lemma read_dead:
  assumes "dead p w" "zero_prefix (w @ bs)" "stream_data p = Some (off, sz)" "int (length bs) \<le> sz"
    "on_read on_receive on_remote_close (Inr bs) (p, sh) = Inr (p', sh')"
  shows "sh' = sh \<and> dead p' (w @ bs) \<and> strip p' = strip p"
proof -
  let ?rb = "m_recv_buffer p"
  have r: "rb_holds ?rb w" "m_recv_pos ?rb = int (length w)" "off = m_recv_end ?rb"
    "m_recv_end ?rb + int (length bs) \<le> rb_cap ?rb" "need p = 4" "0 < rb_cap ?rb"
    using assms(1,3,4) ready_cap [of p w] by (auto simp: ready_def dead_def)
  obtain rb where rb: "socket_store off bs ?rb = Inr rb"
    "rb_holds (rb\<lparr>m_recv_end := m_recv_end ?rb + int (length bs)\<rparr>) (w @ bs)"
    "rb_cap rb = rb_cap ?rb" "m_recv_end rb = m_recv_end ?rb" "m_recv_pos rb = m_recv_pos ?rb"
    "m_message_size rb = 4"
    using socket_store_holds [OF r(1,6,4)] r(3,5) by auto
  let ?rb1 = "rb\<lparr>m_recv_end := m_recv_end rb + int (length bs)\<rparr>"
  let ?p1 = "p\<lparr>m_recv_buffer := ?rb1\<rparr>"
  let ?p2 = "?p1\<lparr>m_recv_buffer := ?rb1\<lparr>m_recv_pos := int (length (w @ bs))\<rparr>\<rparr>"
  have rcv: "received (int (length bs)) rb = Inr ?rb1"
    using received_holds [of rb "int (length bs)" "w @ bs"] rb by simp
  have h1: "rb_holds ?rb1 (w @ bs)" using rb(2,4) by simp
  have loop: "receive_loop on_receive (int (length bs)) (?p1, sh) = Inr (?p2, sh)"
    using loop_dead [of ?p1 "w @ bs" "int (length bs)" sh] assms(1,2) h1 rb r(2) by (simp add: dead_def)
  have live: "\<not> m_disconnect ?p2" using assms(1) by (simp add: dead_def)
  have s: "setup_receive ?p2 = Inr p'" "sh' = sh"
    using assms(3,5) rb(1) rcv loop live
    by (auto simp: on_read_def alloc_cb_def on_receive_internal_def)
  have h2: "rb_holds (m_recv_buffer ?p2) (w @ bs)"
    using h1 by (auto simp: rb_holds_def rb_cells_def rb_cap_def)
  then have "windowed (m_recv_buffer ?p2) 0"
    using rb r(6) by (auto simp: windowed_def window_at_def rb_cap_def)
  from setup_receive_windowed [OF this s(1)] obtain w' where w': "rb_holds (m_recv_buffer ?p2) w'"
    "ready p' w'" "need p' = need ?p2"
    and p': "p' = ?p2\<lparr>m_recv_buffer := m_recv_buffer p', stream_data := stream_data p',
      io_log := io_log ?p2 @ [Uv_read_start]\<rparr>" by auto
  have "w' = w @ bs" by (rule rb_holds_window [OF w'(1) h2])
  moreover have f: "m_state p' = m_state p" "m_disconnect p' = m_disconnect p"
    by (subst p', simp)+
  moreover have n: "need p' = 4" using w'(3) rb(6) by simp
  moreover have "strip p' = strip p"
  proof -
    have "strip p' = p'\<lparr>m_recv_buffer := awaiting 4, stream_data := None,
        io_log := filter (\<lambda>a. a \<noteq> Uv_read_start) (io_log p')\<rparr>" by (simp add: strip_def n)
    also have "\<dots> = p\<lparr>m_recv_buffer := awaiting 4, stream_data := None,
        io_log := filter (\<lambda>a. a \<noteq> Uv_read_start) (io_log p)\<rparr>"
      by (subst p', subst (2) p') simp
    finally show ?thesis by (simp add: strip_def r(5))
  qed
  ultimately show ?thesis using w'(2) s(2) assms(1,2) by (simp add: dead_def)
qed

lemma reads_dead:
  assumes "dead p w" "zero_prefix (w @ concat chunks)"
    "reads_fit on_receive on_remote_close chunks (p, sh)"
    "run_reads on_receive on_remote_close chunks (p, sh) = Inr (p', sh')"
  shows "sh' = sh \<and> dead p' (w @ concat chunks) \<and> strip p' = strip p"
  using assms
proof (induction chunks arbitrary: p w sh)
  case (Cons bs bss)
  obtain p1 sh1 where 1: "on_read on_receive on_remote_close (Inr bs) (p, sh) = Inr (p1, sh1)"
    "run_reads on_receive on_remote_close bss (p1, sh1) = Inr (p', sh')"
    using Cons.prems(4) by auto
  obtain off sz where sd: "stream_data p = Some (off, sz)" "int (length bs) \<le> sz"
    "reads_fit on_receive on_remote_close bss (p1, sh1)"
    using Cons.prems(3) 1(1) by (auto split: option.splits)
  have "zero_prefix (w @ bs)"
    using Cons.prems(2) zero_prefix_take [of "w @ bs" "concat bss"] by simp
  from read_dead [OF Cons.prems(1) this sd(1,2) 1(1)]
  have "sh1 = sh" "dead p1 (w @ bs)" "strip p1 = strip p" by auto
  with Cons.IH [of p1 "w @ bs" sh] Cons.prems(2) sd(3) 1(2) show ?case by simp
qed simp

text \<open>A read into an empty window, up to the loop.\<close>

lemma first_read:
  assumes "ready p []" "stream_data p = Some (off, sz)" "int (length bs) \<le> sz"
  shows "\<exists>rb. rb_holds rb bs \<and> m_recv_pos rb = 0 \<and> m_message_size rb = need p \<and>
    on_read on_receive close (Inr bs) (p, sh) =
      bindE (receive_loop on_receive (int (length bs)) (p\<lparr>m_recv_buffer := rb\<rparr>, sh)) (\<lambda>(c, s).
        if m_disconnect c then Inr (log_io Uv_close c, s)
        else bindE (setup_receive c) (\<lambda>c'. Inr (c', s)))"
proof -
  let ?rb = "m_recv_buffer p"
  have r: "rb_holds ?rb []" "m_recv_pos ?rb = 0" "off = m_recv_end ?rb" "0 < need p"
    "m_recv_end ?rb + int (length bs) \<le> rb_cap ?rb" "0 < rb_cap ?rb"
    using assms ready_cap [of p "[]"] by (auto simp: ready_def)
  obtain rb where rb: "socket_store off bs ?rb = Inr rb"
    "rb_holds (rb\<lparr>m_recv_end := m_recv_end ?rb + int (length bs)\<rparr>) bs"
    "rb_cap rb = rb_cap ?rb" "m_recv_end rb = m_recv_end ?rb" "m_recv_pos rb = 0"
    "m_message_size rb = need p"
    using socket_store_holds [OF r(1,6,5)] r(2,3) by auto
  let ?rb1 = "rb\<lparr>m_recv_end := m_recv_end rb + int (length bs)\<rparr>"
  have rcv: "received (int (length bs)) rb = Inr ?rb1"
    using received_holds [of rb "int (length bs)" bs] rb r(4) by simp
  have mx: "max_receive rb = Inr (rb_cap rb - m_recv_end rb)"
  proof -
    have "rb_cap rb \<le> int_max" "0 \<le> rb_cap rb" "0 \<le> m_recv_end ?rb"
      using rb_holds_cap [OF r(1)] r(1) rb(3) by (auto simp: rb_holds_def)
    then show ?thesis
      using rb(4) r(5) rb(3) narrow32_id [of "rb_cap rb"]
      by (simp add: max_receive_def rb_cap_def buffer_size_def i32_def)
  qed
  have "on_read on_receive close (Inr bs) (p, sh) =
      bindE (receive_loop on_receive (int (length bs)) (p\<lparr>m_recv_buffer := ?rb1\<rparr>, sh)) (\<lambda>(c, s).
        if m_disconnect c then Inr (log_io Uv_close c, s)
        else bindE (setup_receive c) (\<lambda>c'. Inr (c', s)))"
    using assms(2) rb(1,3,4) rcv mx r(5)
    by (simp add: on_read_def alloc_cb_def on_receive_internal_def)
  with rb show ?thesis by (intro exI [of _ ?rb1]) simp
qed

lemma sint_19: "sint (b :: byte) = 19 \<longleftrightarrow> b = 19"
proof
  assume "sint b = 19"
  then have "(word_of_int (sint b) :: byte) = word_of_int 19" by simp
  then show "b = 19" by simp
qed simp

lemma read_bad_protocol_id:
  assumes "m_state p = Some READ_PROTOCOL_ID" "need p = 20" "rb_holds (m_recv_buffer p) w"
    "20 \<le> length w" "take 20 w \<noteq> 19 # protocol_id" "20 \<le> m_recv_pos (m_recv_buffer p)"
  shows "on_receive n (p, sh) =
    (if m_recv_pos (m_recv_buffer p) = 20 then Inr (p\<lparr>m_disconnect := True\<rparr>, sh) else Inl Abort)"
proof -
  let ?rb = "m_recv_buffer p"
  have ne: "w \<noteq> []" using assms(4) by auto
  obtain cs where cs: "get ?rb = Inr (Some cs, m_recv_pos ?rb)" "take (length w) cs = map Some w"
    "length w \<le> length cs"
    using get_holds [OF assms(3) ne] by blast
  obtain b bs where w: "w = b # bs" using ne by (cases w) auto
  have rd: "read_bytes cs 0 1 = Inr [b]" "read_bytes cs 1 19 = Inr (take 19 bs)"
    using prefix_read [OF cs(2,3), of 0 1] prefix_read [OF cs(2,3), of 1 19] assms(4) w by auto
  have bad: "b \<noteq> 19 \<or> take 19 bs \<noteq> protocol_id" using assms(5) w by (simp add: numeral_eq_Suc)
  have fin: "is_message_finished ?rb" using assms(2,6) by (simp add: is_message_finished_def)
  show ?thesis
  proof (cases "m_recv_pos ?rb = 20")
    case True
    with assms(1,2) cs(1) rd bad fin show ?thesis
      by (auto simp: on_receive_def chain_def read_protocol_id_def sint_19)
  next
    case False
    with assms(1,2) cs(1) fin show ?thesis
      by (simp add: on_receive_def chain_def read_protocol_id_def assertE_False)
  qed
qed

lemma loop_bad_protocol_id:
  assumes "m_state p = Some READ_PROTOCOL_ID" "length msg = 20" "msg \<noteq> 19 # protocol_id"
    "rb_holds rb (msg @ r)" "m_recv_pos rb = 0" "m_message_size rb = 20"
  shows "receive_loop on_receive (int (length (msg @ r))) (p\<lparr>m_recv_buffer := rb\<rparr>, sh) =
    (if r = []
     then Inr (p\<lparr>m_recv_buffer := rb\<lparr>m_recv_pos := 20\<rparr>, m_disconnect := True\<rparr>, sh) else Inl Abort)"
proof -
  let ?n = "int (length (msg @ r))" and ?w = "msg @ r" and ?rb = "rb\<lparr>m_recv_pos := 20\<rparr>"
  let ?p = "p\<lparr>m_recv_buffer := rb\<rparr>" and ?q = "p\<lparr>m_recv_buffer := ?rb, m_disconnect := True\<rparr>"
  have a1: "advance_pos ?n rb = Inr (20, ?rb)" "rb_holds ?rb ?w"
    using advance_holds [OF assms(4), of ?n] assms(2,5,6) by auto
  have r1: "on_receive 20 (p\<lparr>m_recv_buffer := ?rb\<rparr>, sh) = Inr (?q, sh)"
    using read_bad_protocol_id [of "p\<lparr>m_recv_buffer := ?rb\<rparr>" ?w 20 sh] assms(1-3,6) a1(2) by simp
  show ?thesis
  proof (cases "r = []")
    case True
    then have "?n = 20" using assms(2) by simp
    then show ?thesis
      unfolding receive_loop.simps [of on_receive ?n ?p sh] using a1(1) r1 True by simp
  next
    case False
    let ?k = "int (length r)"
    obtain a where a: "advance_pos ?k ?rb = Inr (a, ?rb\<lparr>m_recv_pos := 20 + a\<rparr>)" "0 < a"
      "rb_holds (?rb\<lparr>m_recv_pos := 20 + a\<rparr>) ?w"
      using advance_past [OF a1(2), of ?k] assms(2,6) False by auto
    have r2: "on_receive a (?q\<lparr>m_recv_buffer := ?rb\<lparr>m_recv_pos := 20 + a\<rparr>\<rparr>, sh) = Inl Abort"
      using read_bad_protocol_id [of "?q\<lparr>m_recv_buffer := ?rb\<lparr>m_recv_pos := 20 + a\<rparr>\<rparr>" ?w a sh]
        assms(1-3,6) a(2,3) by simp
    have "receive_loop on_receive ?n (?p, sh) = receive_loop on_receive ?k (?q, sh)"
      unfolding receive_loop.simps [of on_receive ?n ?p sh] using a1(1) r1 assms(2) False by simp
    also have "\<dots> = Inl Abort"
      unfolding receive_loop.simps [of on_receive ?k ?q sh] using a(1) r2 by simp
    finally show ?thesis using False by simp
  qed
qed

section \<open>Properties\<close>

text \<open>C12: the handshake that one client creates is accepted by a client that expects its digest and
  peer id, however it is cut into reads: the connection becomes active and waits for the first
  length, nothing is left in its buffer, and the shared state is unchanged.\<close>

theorem handshake_accepted:
  assumes "ready p []" "framed p" "m_state p = Some READ_PROTOCOL_ID"
    "m_info_hash (m_peer_info p) = Some h" "length h = 20" "m_remote_id (m_peer_info p) = rid"
    "length rid = 20" "create_handshake (Some h) rid = Inr hs" "concat chunks = hs"
    "reads_fit on_receive on_remote_close chunks (p, sh)"
  shows "\<exists>p'. run_reads on_receive on_remote_close chunks (p, sh) = Inr (p', sh) \<and>
           m_active p' \<and> m_state p' = Some READ_MESSAGE_SIZE \<and> need p' = 4 \<and> ready p' [] \<and>
           m_choked p' = m_choked p \<and> \<not> m_disconnect p'"
proof -
  have hs: "hs = [19] @ protocol_id @ replicate 8 0 @ h @ rid"
    using create_handshake_eq [OF assms(5,7)] assms(8) by simp
  let ?a = "await READ_MESSAGE_SIZE 4 ((strip p)\<lparr>m_active := True\<rparr>)"
  have "feed hs ([], strip p, sh) = Some ([], ?a, sh)"
    unfolding hs
    by (rule handshake_feed) (use assms(2-7) in \<open>auto simp: framed_def\<close>)
  with feed_run [OF assms(1,2,10), of ?a sh] assms(9) obtain p' where
    p': "run_reads on_receive on_remote_close chunks (p, sh) = Inr (p', sh)" "strip p' = ?a" "ready p' []"
    by auto
  have "m_active p' = m_active (strip p')" "m_state p' = m_state (strip p')"
    "need p' = need (strip p')" "m_choked p' = m_choked (strip p')"
    "m_disconnect p' = m_disconnect (strip p')" by simp_all
  then have "m_active p'" "m_state p' = Some READ_MESSAGE_SIZE" "need p' = 4"
    "m_choked p' = m_choked p" "m_disconnect p' = m_disconnect p"
    unfolding p'(2) by (simp_all add: await_def awaiting_def)
  moreover have "\<not> m_disconnect p" using assms(2) by (simp add: framed_def)
  ultimately show ?thesis using p'(1,3) by auto
qed

definition sample_greeter :: peer where
  "sample_greeter = sample_peer\<lparr>m_state := Some READ_PROTOCOL_ID, stream_data := Some (0, 80),
     m_recv_buffer := \<lparr>m_buff = \<lparr>m_begin = Some (replicate 80 None), m_size = 80\<rparr>, m_recv_start = 0,
       m_recv_end = 0, m_recv_pos = 0, m_message_size = 20\<rparr>\<rparr>"

lemma sample_greeter_ready: "ready sample_greeter []" "framed sample_greeter"
  "m_state sample_greeter = Some READ_PROTOCOL_ID"
  by (simp_all add: sample_greeter_def sample_peer_def ready_def rb_defs buffer_ok_def
      buffer_cells_def framed_def peer_fresh_eq)

definition sample_handshake :: "byte list" where
  "sample_handshake = [19] @ protocol_id @ replicate 8 0 @ replicate 20 3 @ replicate 20 2"

lemma sample_handshake_fits:
  "reads_fit on_receive on_remote_close [take 30 sample_handshake, drop 30 sample_handshake]
     (sample_greeter, sample_shared)"
  by code_simp

theorem handshake_accepted_witness:
  "\<exists>p'. run_reads on_receive on_remote_close [take 30 sample_handshake, drop 30 sample_handshake]
       (sample_greeter, sample_shared) = Inr (p', sample_shared) \<and>
     m_active p' \<and> m_state p' = Some READ_MESSAGE_SIZE \<and> need p' = 4 \<and> ready p' [] \<and>
     m_choked p' = m_choked sample_greeter \<and> \<not> m_disconnect p'"
proof (rule handshake_accepted [OF sample_greeter_ready _ _ _ _ _ _ sample_handshake_fits])
  show "create_handshake (Some (replicate 20 3)) (replicate 20 2) = Inr sample_handshake"
    by (simp add: create_handshake_eq sample_handshake_def)
qed (simp_all add: sample_greeter_def sample_peer_def peer_fresh_eq sample_info_def)

text \<open>C13: a list of messages on which the specification of the handlers is defined, each sent with its
  length in front, is delivered in order, each message exactly once, however the bytes are cut into
  reads.\<close>

theorem messages_in_order:
  assumes "ready p []" "framed p" "m_state p = Some READ_MESSAGE_SIZE"
    "\<forall>msg \<in> set msgs. msg \<noteq> [] \<and> int (length msg) * 3 \<le> int_max"
    "concat chunks = concat (map frame msgs)"
    "reads_fit on_receive on_remote_close chunks (p, sh)"
    "deliver_all msgs (strip p, sh) = Some (a, sh')"
  shows "\<exists>p'. run_reads on_receive on_remote_close chunks (p, sh) = Inr (p', sh') \<and> strip p' = a \<and>
           ready p' []"
proof -
  have "need p = 4" using assms(2,3) by (simp add: framed_def)
  then have "feed (concat chunks) ([], strip p, sh) = Some ([], a, sh')"
    unfolding assms(5) using feed_frames [of "strip p" msgs sh a sh'] assms(3,4,7) by simp
  from feed_run [OF assms(1,2,6) this] show ?thesis .
qed

lemma sample_messages_fit:
  "reads_fit on_receive on_remote_close [[0, 0, 0, 1, 0], [0, 0, 0, 5, 4, 0, 0], [0, 1]]
     (sample_peer, sample_shared)"
  by code_simp

theorem messages_in_order_witness:
  "\<exists>p' a sh'. run_reads on_receive on_remote_close [[0, 0, 0, 1, 0], [0, 0, 0, 5, 4, 0, 0], [0, 1]]
       (sample_peer, sample_shared) = Inr (p', sh') \<and>
     deliver_all [[0], [4, 0, 0, 0, 1]] (strip sample_peer, sample_shared) = Some (a, sh') \<and>
     strip p' = a \<and> ready p' []"
proof -
  have "\<not> Option.is_none (deliver_all [[0], [4, 0, 0, 0, 1]] (strip sample_peer, sample_shared))"
    by code_simp
  then obtain a sh' where d:
    "deliver_all [[0], [4, 0, 0, 0, 1]] (strip sample_peer, sample_shared) = Some (a, sh')"
    by (auto simp: Option.is_none_def)
  have "m_state sample_peer = Some READ_MESSAGE_SIZE" by (simp add: sample_peer_def)
  moreover have "concat [[0, 0, 0, 1, 0], [0, 0, 0, 5, 4, 0, 0], [0, 1]] =
      concat (map frame [[0], [4, 0, 0, 0, 1]])" by code_simp
  ultimately show ?thesis
    using messages_in_order [OF sample_peer_ready(1,2) _ _ _ sample_messages_fit d] d by simp
qed

text \<open>C36: after a keep-alive message (a length of zero) the connection is dead: however many bytes
  follow, no message is delivered, the shared state and the connection stay as they were, and
  everything received stays in the buffer.\<close>

theorem keepalive_stalls:
  assumes "ready p []" "framed p" "m_state p = Some READ_MESSAGE_SIZE"
    "concat chunks = be_bytes 0 @ rest"
    "reads_fit on_receive on_remote_close chunks (p, sh)"
    "run_reads on_receive on_remote_close chunks (p, sh) = Inr (p', sh')"
  shows "sh' = sh \<and> strip p' = strip p \<and> ready p' (be_bytes 0 @ rest)"
proof -
  have "dead p []" using assms(1-3) by (simp add: dead_def framed_def zero_prefix_def)
  moreover have "zero_prefix (be_bytes 0 @ rest)"
    by (simp add: zero_prefix_def be_bytes_def)
  ultimately show ?thesis
    using reads_dead [of p "[]" chunks sh p' sh'] assms(4-6) by (simp add: dead_def)
qed

lemma sample_keepalive:
  "reads_fit on_receive on_remote_close [[0, 0, 0, 0], [0, 0, 0, 1]] (sample_peer, sample_shared)"
  "\<not> isl (run_reads on_receive on_remote_close [[0, 0, 0, 0], [0, 0, 0, 1]]
      (sample_peer, sample_shared))"
  by code_simp+

theorem keepalive_stalls_witness:
  "\<exists>p' sh'. run_reads on_receive on_remote_close [[0, 0, 0, 0], [0, 0, 0, 1]]
       (sample_peer, sample_shared) = Inr (p', sh') \<and>
     sh' = sample_shared \<and> strip p' = strip sample_peer \<and> ready p' (be_bytes 0 @ [0, 0, 0, 1])"
proof -
  obtain p' sh' where r: "run_reads on_receive on_remote_close [[0, 0, 0, 0], [0, 0, 0, 1]]
       (sample_peer, sample_shared) = Inr (p', sh')"
    using sample_keepalive(2)
    by (cases "run_reads on_receive on_remote_close [[0, 0, 0, 0], [0, 0, 0, 1]]
       (sample_peer, sample_shared)") auto
  have "m_state sample_peer = Some READ_MESSAGE_SIZE" by (simp add: sample_peer_def)
  moreover have "concat [[0, 0, 0, 0], [0, 0, 0, 1]] = be_bytes 0 @ [0, 0, 0, 1]" by code_simp
  ultimately show ?thesis
    using keepalive_stalls [OF sample_peer_ready(1,2) _ _ sample_keepalive(1) r] r by blast
qed

text \<open>C37: a first message of 20 bytes that is not the protocol identifier only closes the connection when
  a read carries just these bytes, but aborts the whole program when the same read carries at least one
  byte more.\<close>

theorem bad_protocol_id_aborts:
  assumes "ready p []" "framed p" "m_state p = Some READ_PROTOCOL_ID" "length msg = 20"
    "msg \<noteq> 19 # protocol_id" "stream_data p = Some (off, sz)" "int (length (msg @ rest)) \<le> sz"
  shows "(\<exists>p'. on_read on_receive on_remote_close (Inr msg) (p, sh) = Inr (p', sh) \<and>
            Uv_close \<in> set (io_log p')) \<and>
         (rest \<noteq> [] \<longrightarrow> on_read on_receive on_remote_close (Inr (msg @ rest)) (p, sh) = Inl Abort)"
proof -
  have need: "need p = 20" using assms(2,3) by (simp add: framed_def)
  have run: "if r = [] then \<exists>p'. on_read on_receive on_remote_close (Inr (msg @ r)) (p, sh) = Inr (p', sh) \<and>
        Uv_close \<in> set (io_log p')
      else on_read on_receive on_remote_close (Inr (msg @ r)) (p, sh) = Inl Abort"
    if "int (length (msg @ r)) \<le> sz" for r
    using first_read [OF assms(1,6) that, of on_remote_close sh] need
      loop_bad_protocol_id [OF assms(3-5), of _ r sh] by auto
  show ?thesis
    using run [of "[]"] run [of rest] assms(7) by auto
qed

theorem bad_protocol_id_aborts_witness:
  "(\<exists>p'. on_read on_receive on_remote_close (Inr (replicate 20 0)) (sample_greeter, sample_shared) =
            Inr (p', sample_shared) \<and> Uv_close \<in> set (io_log p')) \<and>
   on_read on_receive on_remote_close (Inr (replicate 20 0 @ [0])) (sample_greeter, sample_shared) =
     Inl Abort"
proof -
  have "replicate 20 (0 :: byte) \<noteq> 19 # protocol_id" by code_simp
  moreover have "stream_data sample_greeter = Some (0, 80)" by (simp add: sample_greeter_def)
  ultimately show ?thesis
    using bad_protocol_id_aborts [OF sample_greeter_ready, of "replicate 20 0" 0 80 "[0]" sample_shared]
    by simp
qed

text \<open>C35: a remote can write outside the memory of a piece: a piece message whose offset and length leave
  the piece is not rejected by any check between the socket and the copy.\<close>

theorem remote_block_out_of_range:
  assumes "at_end p msg rest" "m_state p = Some READ_MESSAGE" "to_message_id (hd msg) = Some PIECE"
    "9 \<le> length msg" "get_piece (word_at 1 msg) (p_manager sh) = Inr pc" "piece_ok pc"
    "word_at 5 msg < 0 \<or> word_at 5 msg + int (length msg) - 9 > m_piece_length pc"
  shows "on_receive n (p, sh) = Inl Undefined"
proof -
  have "incoming_block (block_of_message msg) pc = Inl Undefined"
    by (rule incoming_block_out_of_range [OF assms(6)])
      (use assms(4,7) in \<open>auto simp: block_of_message_def\<close>)
  then have "handle_piece (p, sh) = Inl Undefined"
    using assms(5) by (simp add: handle_piece_eq [OF assms(1,4)] modify_piece_def take_block_def)
  then show ?thesis
    using assms(2) at_end_finished [OF assms(1)]
    by (simp add: on_receive_def read_message_def do_message_eq [OF assms(1)] assms(3))
qed

definition sample_attack :: peer where
  "sample_attack = sample_peer\<lparr>m_state := Some READ_MESSAGE,
     m_recv_buffer := \<lparr>m_buff = \<lparr>m_begin = Some (map Some [7, 0, 0, 0, 0, 0, 0, 0, 4, 1]), m_size = 10\<rparr>,
       m_recv_start = 0, m_recv_end = 10, m_recv_pos = 10, m_message_size = 10\<rparr>\<rparr>"

theorem remote_block_out_of_range_witness:
  "on_receive 10 (sample_attack, sample_shared\<lparr>p_manager := \<lparr>m_pieces =
       [piece_default\<lparr>m_piece_hash := Some (replicate 20 0), m_piece_length := 4, m_data := Some (map Some [0, 0, 0, 0])\<rparr>],
       m_work_queue = []\<rparr>\<rparr>) = Inl Undefined"
proof (rule remote_block_out_of_range)
  show "at_end sample_attack [7, 0, 0, 0, 0, 0, 0, 0, 4, 1] []"
    by (simp add: at_end_def sample_attack_def rb_defs buffer_ok_def buffer_cells_def)
  have "word_at 1 [7, 0, 0, 0, 0, 0, 0, 0, 4, 1] = 0" "word_at 5 [7, 0, 0, 0, 0, 0, 0, 0, 4, 1] = 4"
    by code_simp+
  then show "get_piece (word_at 1 [7, 0, 0, 0, 0, 0, 0, 0, 4, 1]) (p_manager (sample_shared\<lparr>p_manager := \<lparr>m_pieces =
       [piece_default\<lparr>m_piece_hash := Some (replicate 20 0), m_piece_length := 4, m_data := Some (map Some [0, 0, 0, 0])\<rparr>],
       m_work_queue = []\<rparr>\<rparr>)) =
      Inr (piece_default\<lparr>m_piece_hash := Some (replicate 20 0), m_piece_length := 4, m_data := Some (map Some [0, 0, 0, 0])\<rparr>)"
    "word_at 5 [7, 0, 0, 0, 0, 0, 0, 0, 4, 1] < 0 \<or>
      word_at 5 [7, 0, 0, 0, 0, 0, 0, 0, 4, 1] + int (length [7, 0, 0, 0, 0, 0, 0, 0, 4, 1 :: byte]) - 9 >
        m_piece_length (piece_default\<lparr>m_piece_hash := Some (replicate 20 0), m_piece_length := 4, m_data := Some (map Some [0, 0, 0, 0])\<rparr>)"
    by (simp_all add: get_piece_def)
  show "piece_ok (piece_default\<lparr>m_piece_hash := Some (replicate 20 0), m_piece_length := 4, m_data := Some (map Some [0, 0, 0, 0])\<rparr>)"
    by (auto simp: piece_ok_def piece_default_def intro!: exI [of _ "[0, 0, 0, 0]"])
qed (simp_all add: sample_attack_def to_message_id_def)

end
