(* ===== verification/Session_Opening.thy ===== *)
theory Session_Opening
  imports Session_Invariant Session_Runs Peer_Behaviour
begin

text \<open>
  The opening of a connection in a started session: the connection event, the handshake of the client,
  and the first bytes of the remote, in whatever reads they come.
\<close>

section \<open>Bytes one by one\<close>

lemma deliver_open:
  assumes "deliver msg (p, sh) = Some (p', sh')" "Uv_close \<notin> set (io_log p)"
  shows "Uv_close \<notin> set (io_log p')"
  using assms
  by (auto simp: deliver_def deliver_message_def deliver_bitfield_def await_def Let_def
      split: option.splits p_state.splits message_id.splits if_splits)

lemma feed_byte:
  assumes "feed [b] (w, p, sh) = Some (w', p', sh')" "Uv_close \<notin> set (io_log p)"
  shows "Uv_close \<notin> set (io_log p')"
  using assms deliver_open by (auto simp: feed_def Let_def split: option.splits if_splits)

lemma feed_parts: "feed (xs @ ys) st = Option.bind (feed xs st) (feed ys)"
  by (simp only: feed_def feed_append)

lemma feed_Cons: "feed (b # bs) st = Option.bind (feed [b] st) (feed bs)"
  using feed_parts [of "[b]" bs st] by (simp only: append.simps)

text \<open>Bytes that come one by one always fit the chunk.\<close>

lemma bytes_may_occur:
  assumes "peer_at me s = Inr c" "peer.idle c w" "Uv_close \<notin> set (io_log c)"
    "feed bs (w, strip c, common s) = Some st"
  shows "may_occur sha1 (map (Received me) (map (\<lambda>b. [b]) bs)) s"
  using assms
proof (induction bs arbitrary: s c w)
  case (Cons b bs)
  from Cons.prems(4) obtain w1 a1 s1 where
    f: "feed [b] (w, strip c, common s) = Some (w1, a1, s1)" "feed bs (w1, a1, s1) = Some st"
    unfolding feed_Cons [of b bs] by (auto simp: Option.bind_eq_Some_conv)
  obtain off n where d: "stream_data c = Some (off, n)" "int (length [b]) \<le> n"
    using Cons.prems(2) by (auto simp: peer.idle_def ready_def)
  obtain c' where c': "on_read on_receive on_remote_close (Inr [b]) (c, common s) = Inr (c', s1)"
    "strip c' = a1" "peer.idle c' w1"
    using peer.read_feed [OF Cons.prems(2) d, of "common s" w1 a1 s1 on_remote_close] f(1)
    by (auto simp: feed_def)
  have "Uv_close \<notin> set (io_log (strip c))" using Cons.prems(3) by (simp add: strip_def)
  then have "Uv_close \<notin> set (io_log (strip c'))" using feed_byte [OF f(1)] c'(2) by simp
  then have "Uv_close \<notin> set (io_log c')" by (simp add: strip_def)
  moreover have "feed bs (w1, strip c', common (set_peer me c' (s\<lparr>common := s1\<rparr>))) = Some st"
    using f(2) c'(2) by simp
  ultimately have "may_occur sha1 (map (Received me) (map (\<lambda>b. [b]) bs)) (set_peer me c' (s\<lparr>common := s1\<rparr>))"
    using Cons.IH [OF peer_at_set_peer [OF Cons.prems(1)] c'(3)] by blast
  moreover have "enabled (Received me [b]) s"
    using Cons.prems(1-3) d by (auto simp: peer_at_eq reading_def peer.idle_def ready_def Let_def)
  ultimately show ?case using Cons.prems(1) c'(1) by (simp add: read_event_def)
qed simp

section \<open>Opening a connection\<close>

text \<open>The abstract connection (\<open>strip\<close>) after the connection event; \<open>hs\<close> is the handshake of the client.\<close>

definition client_handshake :: "peer \<Rightarrow> byte list" where
  "client_handshake c =
     [19] @ protocol_id @ replicate 8 0 @ the (m_info_hash (m_peer_info c)) @ m_id (m_peer_info c)"

definition opened :: "peer \<Rightarrow> peer" where
  "opened c =
     await READ_PROTOCOL_ID 20
       ((strip c)\<lparr>m_socket := True, io_log := io_log (strip c) @ [Uv_write (client_handshake c)]\<rparr>)"

lemma opened_fields [simp]:
  "m_state (opened c) = Some READ_PROTOCOL_ID" "need (opened c) = 20" "m_peer_info (opened c) = m_peer_info c"
  "m_socket (opened c)" "m_choked (opened c) = m_choked c" "m_async (opened c) = m_async c"
  "self (opened c) = self c" "m_loop (opened c) = m_loop c" "m_session (opened c) = m_session c"
  "m_curr_piece (opened c) = m_curr_piece c" "m_disconnect (opened c) = m_disconnect c"
  "m_active (opened c) = m_active c"
  by (simp_all add: opened_def await_def strip_def awaiting_def)

lemma on_connect_opens:
  assumes "standby i info c" "m_info_hash info = Some d" "length d = 20" "length (m_id info) = 20" "0 \<le> status"
  obtains c' where "on_connect status c = Inr c'" "strip c' = opened c" "peer.idle c' []"
    "Uv_close \<notin> set (io_log c')"
proof -
  note c = standby_fields [OF assms(1)]
  have info: "m_info_hash (m_peer_info c) = Some d" "m_id (m_peer_info c) = m_id info"
    using c(12) assms(2,3) by auto
  have hs: "create_handshake (Some d) (m_id info) = Inr (client_handshake c)"
    using create_handshake_eq [OF assms(3,4)] info by (simp add: client_handshake_def)
  have rb: "rb_holds (m_recv_buffer c) []" "m_recv_start (m_recv_buffer c) = 0"
    "m_recv_end (m_recv_buffer c) = 0" "m_recv_pos (m_recv_buffer c) = 0"
    using c(6,11) by (auto simp: link_ok_def rb_holds_def)
  obtain rb1 where rb1: "reserve 16384 (m_recv_buffer c) = Inr ((0, 16384), rb1)" "rb_holds rb1 []"
    "m_recv_start rb1 = 0" "m_recv_end rb1 = 0" "m_recv_pos rb1 = 0"
    using reserve_holds [OF rb(1,2), of 16384] rb by auto
  obtain rb2 where rb2: "reset 20 rb1 = Inr rb2"
    using rb1 rb_holds_cap [OF rb1(2)]
    by (auto simp: reset_def rb_holds_def usize_def buffer_size_def rb_cap_def)
  let ?c = "c\<lparr>m_socket := True, m_recv_buffer := rb2, stream_data := Some (0, 16384),
      m_state := Some READ_PROTOCOL_ID,
      io_log := io_log c @ [Uv_write (client_handshake c), Uv_read_start]\<rparr>"
  have on: "on_connect status c = Inr ?c"
    using assms(5) rb1(1) rb2 hs info by (simp add: on_connect_def send_handshake_def)
  have r: "ready ?c [] \<and> need ?c = 20"
    using c(11,6) on
  proof (cases rule: on_connect_cases)
    case failed
    from arg_cong [OF this, of m_socket] c(6) show ?thesis by simp
  next
    case (greeted rb dt hs)
    from greeted(2,3) show ?thesis by blast
  qed
  have "strip ?c = opened c"
    using r by (simp add: strip_def opened_def await_def)
  moreover have "peer.idle ?c []" using r c(9) by (simp add: peer.idle_def framed_def)
  moreover have "Uv_close \<notin> set (io_log ?c)" using c(13) by auto
  ultimately show ?thesis by (rule that [OF on])
qed

section \<open>The first bytes\<close>

lemma opening_runs:
  assumes "peer_at i s = Inr c" "standby i info c" "m_info_hash info = Some d" "length d = 20"
    "length (m_id info) = 20" "0 \<le> status"
    "may_occur sha1 (Connected i status # map (Received i) chunks) s"
    "feed (concat chunks) ([], opened c, common s) = Some (w, a, sh)"
  obtains c' where
    "run_events sha1 (Connected i status # map (Received i) chunks) s = Inr (set_peer i c' (s\<lparr>common := sh\<rparr>))"
    "strip c' = a" "ready c' w"
proof -
  obtain c1 where c1: "on_connect status c = Inr c1" "strip c1 = opened c" "peer.idle c1 []"
    by (rule on_connect_opens [OF assms(2-6)])
  let ?s = "set_peer i c1 s"
  have ev: "handle_event sha1 True (Connected i status) s = Inr ?s" using assms(1) c1(1) by simp
  have at: "peer_at i ?s = Inr c1" "common ?s = common s" using assms(1) by (simp_all add: peer_at_eq)
  have "may_occur sha1 (map (Received i) chunks) ?s" using assms(7) ev by (simp del: handle_event.simps)
  note fit = received_fit [OF at(1) this]
  obtain c' where c': "run_reads on_receive on_remote_close chunks (c1, common ?s) = Inr (c', sh)"
    "strip c' = a" "ready c' w"
    using peer.reads_feed [OF c1(3) fit, of w a sh] c1(2) assms(8) at(2) by (auto simp: feed_def peer.idle_def)
  have "run_events sha1 (Connected i status # map (Received i) chunks) s =
      Inr (set_peer i c' (?s\<lparr>common := sh\<rparr>))"
    using ev run_received [OF at(1), of sha1 chunks] c'(1) by (simp del: handle_event.simps)
  also have "set_peer i c' (?s\<lparr>common := sh\<rparr>) = set_peer i c' (s\<lparr>common := sh\<rparr>)" by (simp add: set_peer_def)
  finally show ?thesis using c'(2,3) that by blast
qed

text \<open>Bytes that come one by one may occur, in a connection that is being opened.\<close>

definition opening_events :: "nat \<Rightarrow> int \<Rightarrow> byte list \<Rightarrow> event list" where
  "opening_events i status bs = Connected i status # map (Received i) (map (\<lambda>b. [b]) bs)"

lemma received_opening [simp]: "received_from i (opening_events j status bs) = (if i = j then bs else [])"
proof -
  have "received_from i (map (Received j) xs) = []" if "i \<noteq> j" for xs using that by (induction xs) auto
  from this [of "map (\<lambda>b. [b]) bs"] received_from_reads [of j "map (\<lambda>b. [b]) bs"] show ?thesis
    by (simp add: opening_events_def)
qed

lemma opening_may_occur:
  assumes "peer_at i s = Inr c" "standby i info c" "m_info_hash info = Some d" "length d = 20"
    "length (m_id info) = 20" "0 \<le> status" "connecting c"
    "feed bs ([], opened c, common s) = Some st"
  shows "may_occur sha1 (opening_events i status bs) s"
proof -
  obtain c1 where c1: "on_connect status c = Inr c1" "strip c1 = opened c" "peer.idle c1 []"
    "Uv_close \<notin> set (io_log c1)"
    by (rule on_connect_opens [OF assms(2-6)])
  let ?s = "set_peer i c1 s"
  have ev: "handle_event sha1 True (Connected i status) s = Inr ?s" using assms(1) c1(1) by simp
  have at: "peer_at i ?s = Inr c1" "common ?s = common s" using assms(1) by (simp_all add: peer_at_eq)
  have "may_occur sha1 (map (Received i) (map (\<lambda>b. [b]) bs)) ?s"
    using bytes_may_occur [OF at(1) c1(3,4)] assms(8) c1(2) at(2) by simp
  moreover have "enabled (Connected i status) s"
    using assms(1,7) standby_fields(6) [OF assms(2)] by (simp add: peer_at_eq Let_def)
  ultimately show ?thesis using ev by (simp add: opening_events_def del: handle_event.simps enabled.simps)
qed

text \<open>The run of such bytes.\<close>

lemma opening_bytes:
  assumes "peer_at i s = Inr c" "standby i info c" "m_info_hash info = Some d" "length d = 20"
    "length (m_id info) = 20" "0 \<le> status" "connecting c"
    "feed bs ([], opened c, common s) = Some (w, a, sh)"
  obtains c' where "may_occur sha1 (opening_events i status bs) s"
    "run_events sha1 (opening_events i status bs) s = Inr (set_peer i c' (s\<lparr>common := sh\<rparr>))"
    "strip c' = a" "ready c' w"
proof -
  have may: "may_occur sha1 (opening_events i status bs) s" by (rule opening_may_occur [OF assms])
  have "feed (concat (map (\<lambda>b. [b]) bs)) ([], opened c, common s) = Some (w, a, sh)" using assms(8) by simp
  from opening_runs [OF assms(1-6) may [unfolded opening_events_def] this] obtain c' where
    "run_events sha1 (opening_events i status bs) s = Inr (set_peer i c' (s\<lparr>common := sh\<rparr>))"
    "strip c' = a" "ready c' w"
    unfolding opening_events_def .
  with may that show ?thesis by blast
qed

section \<open>The greeting of an expected remote\<close>

lemma greeting_feed:
  assumes "m_info_hash info = Some d" "length d = 20" "m_remote_id info = rid" "length rid = 20"
    "standby i info c" "length ext = 8"
  shows "feed ([19] @ protocol_id @ ext @ d @ rid) ([], opened c, sh) =
    Some ([], await READ_MESSAGE_SIZE 4 ((opened c)\<lparr>m_active := True\<rparr>), sh)"
  by (rule handshake_feed) (use assms standby_fields(12) [OF assms(5)] in auto)

end
