(* ===== verification/Download.thy ===== *)
theory Download
  imports Session_Behaviour Session_Opening
begin

text \<open>
  The download of the pieces of a torrent from one connection, across the components: the wake-up
  callback of \<open>src/session.cpp\<close>, \<open>fetch_piece\<close>, the receive path, the pieces and their queue. The
  abstract download knows which pieces are done, which blocks of the current one were asked for
  and which arrived, and whether a wake-up is pending; the session simulates it.
\<close>

section \<open>The message of a block\<close>

definition piece_message :: "int \<Rightarrow> byte list \<Rightarrow> nat \<Rightarrow> byte list" where
  "piece_message i content k =
     message_id_byte PIECE # be_bytes i @ be_bytes (16384 * int k) @ take 16384 (drop (16384 * k) content)"

lemma word_at_append: "length xs = k \<Longrightarrow> word_at k (xs @ ys) = word_at 0 ys"
  by (simp add: word_at_def)

lemma piece_message_fields:
  assumes "0 \<le> i" "i \<le> int_max" "k < 16" "length content = 16 * 16384"
  shows "to_message_id (hd (piece_message i content k)) = Some PIECE"
    "word_at 1 (piece_message i content k) = i" "word_at 5 (piece_message i content k) = 16384 * int k"
    "drop 9 (piece_message i content k) = take 16384 (drop (16384 * k) content)"
    "length (piece_message i content k) = 9 + 16384"
proof -
  let ?bs = "take 16384 (drop (16384 * k) content)"
  have m: "piece_message i content k = [message_id_byte PIECE] @ be_bytes i @ be_bytes (16384 * int k) @ ?bs"
    "piece_message i content k = ([message_id_byte PIECE] @ be_bytes i) @ be_bytes (16384 * int k) @ ?bs"
    by (simp_all add: piece_message_def)
  show "to_message_id (hd (piece_message i content k)) = Some PIECE"
    by (simp add: m(1) to_message_id_def message_id_byte_def)
  show "word_at 1 (piece_message i content k) = i"
    unfolding m(1) by (subst word_at_append) (simp_all add: word_at_be_bytes assms)
  show "word_at 5 (piece_message i content k) = 16384 * int k"
    unfolding m(2) by (subst word_at_append) (use assms in \<open>simp_all add: word_at_be_bytes\<close>)
  have "drop 9 (xs @ ?bs) = ?bs" if "length xs = 9" for xs using that by (simp only: drop_append) simp
  from this [of "[message_id_byte PIECE] @ be_bytes i @ be_bytes (16384 * int k)"]
  show "drop 9 (piece_message i content k) = ?bs"
    unfolding m(1) by simp
  have "16384 * k + 16384 \<le> length content" using assms(3,4) by simp
  then show "length (piece_message i content k) = 9 + 16384"
    by (simp add: m(1))
qed

section \<open>The abstract download\<close>

text \<open>
  \<open>Fetching dn i q r K w\<close>: the pieces \<open>dn\<close> are done, \<open>q\<close> are to do; of the current piece \<open>i\<close> the
  first \<open>r\<close> blocks were asked for, those of \<open>K\<close> arrived; \<open>w\<close> says whether a wake-up is pending. A
  round is the answer with a block of a piece, cut into reads, or the wake-up.
\<close>

datatype download =
    Fetching "int list" int "int list" nat "nat set" bool
  | Finished "int list"

datatype round = Block int nat "byte list list" | Wake

fun download_step :: "round \<Rightarrow> download \<Rightarrow> download option" where
  "download_step (Block j k chunks) (Fetching dn i q r K w) =
     (if j = i \<and> k < r \<and> k \<notin> K then Some (Fetching dn i q r (insert k K) True) else None)"
| "download_step Wake (Fetching dn i q r K w) =
     (if \<not> w then None
      else if card K < 16 then Some (Fetching dn i q (min 16 (card K + 5)) K False)
      else case q of
        [] \<Rightarrow> Some (Finished (dn @ [i]))
      | j # q' \<Rightarrow> Some (Fetching (dn @ [i]) j q' 5 {} False))"
| "download_step x (Finished dn) = None"

section \<open>The simulation relation\<close>

text \<open>A connection to a remote that has the pieces \<open>P\<close>.\<close>

definition serving :: "nat \<Rightarrow> int set \<Rightarrow> peer \<Rightarrow> bool" where
  "serving me P c =
     (self c = me \<and> m_loop c \<and> m_async c \<and> m_session c \<and> \<not> m_choked c \<and> reading c \<and> ready c [] \<and>
      framed c \<and> m_state c = Some READ_MESSAGE_SIZE \<and> (\<forall>j \<in> P. has_piece (peer_bitfield c) j = Inr True))"

definition assembling :: "byte list \<Rightarrow> byte list \<Rightarrow> nat \<Rightarrow> nat set \<Rightarrow> piece \<Rightarrow> bool" where
  "assembling h content r K p =
     (m_piece_length p = 262144 \<and> m_piece_hash p = Some h \<and>
      (\<exists>d. m_data p = Some (map Some d) \<and> agrees 16384 content K d) \<and>
      m_received_count p = int (card K) \<and> m_received_bytes p = 16384 * int (card K) \<and>
      m_total_requested p = 16384 * int r \<and> m_backlog p = int r - int (card K) \<and>
      K \<subseteq> {..<r} \<and> r \<le> 16 \<and> r \<le> card K + 5)"

text \<open>A piece before its download and after it; \<open>h\<close> is its digest.\<close>

definition fresh_piece :: "byte list \<Rightarrow> piece \<Rightarrow> bool" where
  "fresh_piece h p =
     (m_piece_length p = 262144 \<and> m_piece_hash p = Some h \<and> m_received_count p = 0 \<and>
      m_received_bytes p = 0 \<and> m_total_requested p = 0 \<and> m_backlog p = 0)"

definition full_piece :: "byte list \<Rightarrow> byte list \<Rightarrow> piece \<Rightarrow> bool" where
  "full_piece h content p =
     (download_finished p \<and> m_data p = Some (map Some content) \<and> m_received_bytes p = 262144 \<and>
      m_piece_hash p = Some h \<and> m_backlog p \<noteq> max_backlog)"

definition requested :: "int \<Rightarrow> peer \<Rightarrow> nat \<Rightarrow> bool" where
  "requested i c k = (Uv_write (request_of i (16384 * int k, 16384)) \<in> set (io_log c))"

definition have_sent :: "int \<Rightarrow> peer \<Rightarrow> bool" where
  "have_sent i c = (Uv_write (be_bytes 5 @ [message_id_byte HAVE] @ be_bytes i) \<in> set (io_log c))"

text \<open>The contents of the pieces, and their digests.\<close>

definition good_contents :: "(byte list \<Rightarrow> byte list) \<Rightarrow> (int \<Rightarrow> byte list) \<Rightarrow> bool" where
  "good_contents sha1 content =
     (\<forall>j. length (content j) = 16 * 16384 \<and> length (sha1 (content j)) = 20)"

text \<open>The abstract state of the pieces, of the connection, of the wake-up, and of the others.\<close>

definition stored :: "(byte list \<Rightarrow> byte list) \<Rightarrow> (int \<Rightarrow> byte list) \<Rightarrow> piece_manager \<Rightarrow> int \<Rightarrow> bool" where
  "stored sha1 content pm j =
     (\<exists>p. get_piece j pm = Inr p \<and> m_index p = j \<and> full_piece (sha1 (content j)) (content j) p)"

definition unasked :: "(byte list \<Rightarrow> byte list) \<Rightarrow> (int \<Rightarrow> byte list) \<Rightarrow> piece_manager \<Rightarrow> int \<Rightarrow> bool" where
  "unasked sha1 content pm j = (\<exists>p. get_piece j pm = Inr p \<and> fresh_piece (sha1 (content j)) p)"

definition pieces_at ::
  "(byte list \<Rightarrow> byte list) \<Rightarrow> (int \<Rightarrow> byte list) \<Rightarrow> int list \<Rightarrow> int \<Rightarrow> int list \<Rightarrow> nat \<Rightarrow> nat set \<Rightarrow>
   piece_manager \<Rightarrow> bool" where
  "pieces_at sha1 content dn i q r K pm =
     (pm_ok pm \<and> n_pieces pm \<le> int_max \<and> (\<forall>j \<in> set dn. stored sha1 content pm j) \<and>
      (\<exists>p. get_piece i pm = Inr p \<and> assembling (sha1 (content i)) (content i) r K p) \<and>
      (\<forall>j \<in> set q. unasked sha1 content pm j) \<and>
      (\<exists>junk. m_work_queue pm = q @ junk \<and> set junk \<subseteq> insert i (set dn)))"

definition conn_at :: "nat \<Rightarrow> int list \<Rightarrow> int \<Rightarrow> int list \<Rightarrow> nat \<Rightarrow> peer \<Rightarrow> bool" where
  "conn_at me dn i q r c =
     (serving me (set (dn @ i # q)) c \<and> (m_curr_piece c = i \<or> m_curr_piece c = -1 \<and> r = 0) \<and>
      (\<forall>j k. 0 \<le> j \<and> j \<le> int_max \<and> k < 16 \<longrightarrow> (requested j c k \<longleftrightarrow> j \<in> set dn \<or> j = i \<and> k < r)))"

definition wake_at :: "nat \<Rightarrow> int \<Rightarrow> nat \<Rightarrow> nat set \<Rightarrow> bool \<Rightarrow> shared \<Rightarrow> bool" where
  "wake_at me i r K w sh =
     (async_pending sh = w \<and>
      (if w then async_data sh = Some \<lparr>sp_index = i, sp_peer = me, sp_loop = True\<rparr> \<and> r < card K + 5
       else r = min 16 (card K + 5) \<and> card K < 16))"

definition told :: "nat \<Rightarrow> int list \<Rightarrow> peer list \<Rightarrow> bool" where
  "told me dn ps =
     (\<forall>x < length ps. x \<noteq> me \<longrightarrow> m_socket (ps ! x) \<longrightarrow> (\<forall>j \<in> set dn. have_sent j (ps ! x)))"

text \<open>
  \<open>me\<close> is the connection, \<open>js\<close> are the pieces of the whole download in their order, \<open>wr\<close> the
  pending writes before it. The work queue may hold pieces that are done or current once more
  (\<open>junk\<close>): a wake-up of a busy connection queues the piece it was woken for.
\<close>

fun simulates ::
  "nat \<Rightarrow> (byte list \<Rightarrow> byte list) \<Rightarrow> (int \<Rightarrow> byte list) \<Rightarrow> int list \<Rightarrow> int list \<Rightarrow> session \<Rightarrow> download \<Rightarrow> bool"
  where
  "simulates me sha1 content js wr s (Fetching dn i q r K w) =
     (distinct js \<and> js = dn @ i # q \<and> pieces_at sha1 content dn i q r K (manager s) \<and>
      (\<exists>c. peer_at me s = Inr c \<and> conn_at me dn i q r c) \<and> wake_at me i r K w (common s) \<and>
      write_reqs s = wr @ dn \<and> told me dn (m_peer_connections s))"
| "simulates me sha1 content js wr s (Finished dn) =
     (dn = js \<and>
      (\<exists>c. peer_at me s = Inr c \<and>
         (\<forall>j k. 0 \<le> j \<and> j \<le> int_max \<and> k < 16 \<longrightarrow> (requested j c k \<longleftrightarrow> j \<in> set dn))) \<and>
      (\<forall>j \<in> set dn. stored sha1 content (manager s) j) \<and> \<not> async_pending (common s) \<and>
      write_reqs s = wr @ dn \<and> told me dn (m_peer_connections s))"

section \<open>A block arrives\<close>

lemma block_taken:
  assumes "piece_ok p" "assembling h content r K p" "k < r" "k \<notin> K" "length content = 16 * 16384"
    "0 \<le> i" "i \<le> int_max"
  obtains p' where "take_block (block_of_message (piece_message i content k)) p = Inr p'" "piece_ok p'"
    "m_index p' = m_index p" "assembling h content r (insert k K) p'"
proof -
  let ?b = "block_of_message (piece_message i content k)"
  let ?bs = "take 16384 (drop (16384 * k) content)"
  obtain d where d: "m_data p = Some (map Some d)" "agrees 16384 content K d"
    using assms(2) by (auto simp: assembling_def)
  note a = assms(2) [unfolded assembling_def]
  have k: "k < 16" using assms(3) a by simp
  have ld: "length d = length content"
    using assms(1,5) a d(1) by (auto simp: piece_ok_def inj_map_eq_map)
  have fin: "finite K" using a finite_subset by blast
  have "K \<subset> {..<r}" using assms(3,4) a by auto
  from psubset_card_mono [OF _ this] have card: "card (insert k K) = card K + 1" "card K < 16" "card K < r"
    using fin assms(4) a by simp_all
  note f = piece_message_fields [OF assms(6,7) k assms(5)]
  have b: "b_data ?b = map Some ?bs @ []" "b_offset ?b = 16384 * int k" "b_size ?b = int (length ?bs)"
    using f k assms(5) by (simp_all add: block_of_message_def)
  have lb: "length ?bs = 16384" using k assms(5) by simp
  let ?d = "take (nat (b_offset ?b)) d @ ?bs @ drop (nat (b_offset ?b) + length ?bs) d"
  obtain pr where ib: "incoming_block ?b p = Inr (p\<lparr>m_received_bytes := m_received_bytes p + b_size ?b,
      m_received_count := m_received_count p + 1, m_data := Some (map Some ?d), m_progress := pr\<rparr>)"
    "piece_ok (p\<lparr>m_received_bytes := m_received_bytes p + b_size ?b,
      m_received_count := m_received_count p + 1, m_data := Some (map Some ?d), m_progress := pr\<rparr>)"
    by (rule incoming_block_ok [OF assms(1) b(1,3) _ _ _ _ _ d(1)])
      (use a k lb b card(2) in simp_all)
  let ?p = "p\<lparr>m_received_bytes := m_received_bytes p + b_size ?b,
      m_received_count := m_received_count p + 1, m_data := Some (map Some ?d), m_progress := pr\<rparr>"
  let ?p' = "?p\<lparr>m_backlog := m_backlog p - 1\<rparr>"
  have "take_block ?b p = Inr ?p'" using ib(1) a card(3) by (simp add: take_block_def i32_def)
  moreover have "piece_ok ?p'" using ib(2) by (simp add: piece_ok_def)
  moreover have "assembling h content r (insert k K) ?p'"
  proof -
    have "?d = take (16384 * k) d @ ?bs @ drop (16384 * k + 16384) d" using b(2) lb by (simp add: nat_mult_distrib)
    moreover have "agrees 16384 content (insert k K) (take (16384 * k) d @ ?bs @ drop (16384 * k + 16384) d)"
      by (rule agrees_put [OF d(2) assms(4) ld]) (use k assms(5) in simp)
    ultimately show ?thesis
      using a assms(3) card lb b(3) by (auto simp: assembling_def simp del: map_append)
  qed
  ultimately show ?thesis using that by simp
qed

lemma get_put_same: "get_piece i pm = Inr p \<Longrightarrow> get_piece i (put_piece i p' pm) = Inr p'"
  using get_put_piece [of i pm i p'] by (auto simp: get_piece_eq)

lemma get_put_other:
  assumes "get_piece j pm = Inr p'" "get_piece i pm = Inr p" "i \<noteq> j"
  shows "get_piece i (put_piece j p'' pm) = Inr p"
proof -
  have "0 \<le> j" "j < n_pieces pm" "0 \<le> i" using assms(1,2) by (simp_all add: get_piece_eq)
  from get_put_piece [OF this] assms(2,3) show ?thesis by simp
qed

lemma pieces_at_put:
  assumes "pieces_at sha1 content dn i q r K pm" "i \<notin> set dn" "i \<notin> set q" "piece_ok p'" "m_index p' = i"
    "assembling (sha1 (content i)) (content i) r' K' p'"
  shows "pieces_at sha1 content dn i q r' K' (put_piece i p' pm)"
proof -
  obtain p where p: "get_piece i pm = Inr p" using assms(1) by (auto simp: pieces_at_def)
  have other: "get_piece j pm = Inr x \<Longrightarrow> j \<noteq> i \<Longrightarrow> get_piece j (put_piece i p' pm) = Inr x" for j x
    using get_put_other [OF p] by blast
  have "pm_ok (put_piece i p' pm)"
    using pm_ok_put [OF _ _ assms(4,5)] assms(1) p by (auto simp: pieces_at_def get_piece_eq)
  moreover have "\<forall>j \<in> set dn. stored sha1 content (put_piece i p' pm) j"
    "\<forall>j \<in> set q. unasked sha1 content (put_piece i p' pm) j"
    using assms(1-3) other by (fastforce simp: pieces_at_def stored_def unasked_def)+
  ultimately show ?thesis
    using assms(1,6) get_put_same [OF p] by (simp add: pieces_at_def)
qed

lemma strip_await:
  assumes "strip c' = await READ_MESSAGE_SIZE 4 (strip c)"
  shows "self c' = self c" "m_loop c' = m_loop c" "m_async c' = m_async c" "m_session c' = m_session c"
    "m_choked c' = m_choked c" "m_socket c' = m_socket c" "peer_bitfield c' = peer_bitfield c"
    "m_curr_piece c' = m_curr_piece c" "m_disconnect c' = m_disconnect c"
    "m_state c' = Some READ_MESSAGE_SIZE" "need c' = 4"
    "x \<noteq> Uv_read_start \<Longrightarrow> x \<in> set (io_log c') \<longleftrightarrow> x \<in> set (io_log c)"
proof -
  have "f (strip c') = f (await READ_MESSAGE_SIZE 4 (strip c))" for f :: "peer \<Rightarrow> 'x" using assms by simp
  from this [of self] this [of m_loop] this [of m_async] this [of m_session] this [of m_choked]
    this [of m_socket] this [of peer_bitfield] this [of m_curr_piece] this [of m_disconnect]
    this [of m_state] this [of need]
  show "self c' = self c" "m_loop c' = m_loop c" "m_async c' = m_async c" "m_session c' = m_session c"
    "m_choked c' = m_choked c" "m_socket c' = m_socket c" "peer_bitfield c' = peer_bitfield c"
    "m_curr_piece c' = m_curr_piece c" "m_disconnect c' = m_disconnect c"
    "m_state c' = Some READ_MESSAGE_SIZE" "need c' = 4"
    by (simp_all add: await_def awaiting_def)
  have "filter (\<lambda>a. a \<noteq> Uv_read_start) (io_log c') = filter (\<lambda>a. a \<noteq> Uv_read_start) (io_log c)"
    using arg_cong [OF assms, of io_log] by (simp add: strip_def await_def)
  from arg_cong [OF this, of set] show "x \<noteq> Uv_read_start \<Longrightarrow> x \<in> set (io_log c') \<longleftrightarrow> x \<in> set (io_log c)"
    by auto
qed

lemma serving_await:
  assumes "serving me P c" "strip c' = await READ_MESSAGE_SIZE 4 (strip c)" "ready c' []"
  shows "serving me P c'"
proof -
  note f = strip_await [OF assms(2)]
  have "reading c'" using assms(1) f(6,12) by (auto simp: serving_def reading_def)
  moreover have "framed c'" using assms(1) f(6,9-11) by (simp add: serving_def framed_def)
  ultimately show ?thesis using assms(1,3) f by (simp add: serving_def)
qed

text \<open>The piece message, in whatever reads it comes.\<close>

lemma deliver_block:
  assumes "m_async c" "get_piece i (p_manager sh) = Inr p"
    "take_block (block_of_message (piece_message i content k)) p = Inr p'"
    "0 \<le> i" "i \<le> int_max" "k < 16" "length content = 16 * 16384"
    "m_state c = Some READ_MESSAGE_SIZE" "need c = 4"
  shows "feed (frame (piece_message i content k)) ([], strip c, sh) =
    Some ([], await READ_MESSAGE_SIZE 4 (strip c),
      wake i c (sh\<lparr>p_manager := put_piece i p' (p_manager sh)\<rparr>))"
proof -
  note f = piece_message_fields [OF assms(4-7)]
  have "deliver_message (piece_message i content k) (strip c, sh) =
      Some (await READ_MESSAGE_SIZE 4 (strip c), wake i c (sh\<lparr>p_manager := put_piece i p' (p_manager sh)\<rparr>))"
    using f assms(1-3) by (simp add: deliver_message_def deliver_piece_def modify_piece_def wake_def)
  moreover have "piece_message i content k \<noteq> []" using f(5) by auto
  ultimately show ?thesis
    using feed_frame [of "strip c" "piece_message i content k" "[]" sh] f(5) assms(8,9) by simp
qed

lemma told_update: "told me dn (ps[me := c]) = told me dn ps"
  by (auto simp: told_def nth_list_update)

lemma block_round:
  assumes "simulates me sha1 content js wr s (Fetching dn i q r K w)" "good_contents sha1 content"
    "k < r" "k \<notin> K" "concat chunks = frame (piece_message i (content i) k)"
    "may_occur sha1 (map (Received me) chunks) s"
  shows "\<exists>s'. run_events sha1 (map (Received me) chunks) s = Inr s' \<and>
           simulates me sha1 content js wr s' (Fetching dn i q r (insert k K) True)"
proof -
  obtain c where s: "distinct js" "js = dn @ i # q" "pieces_at sha1 content dn i q r K (manager s)"
    "peer_at me s = Inr c" "conn_at me dn i q r c" "write_reqs s = wr @ dn" "told me dn (m_peer_connections s)"
    using assms(1) by auto
  obtain p where p: "get_piece i (manager s) = Inr p" "assembling (sha1 (content i)) (content i) r K p"
    "piece_ok p" "m_index p = i" "0 \<le> i" "i \<le> int_max"
    using s(3) pm_ok_get by (fastforce simp: pieces_at_def get_piece_eq)
  have len: "length (content i) = 16 * 16384" using assms(2) by (simp add: good_contents_def)
  obtain p' where p': "take_block (block_of_message (piece_message i (content i) k)) p = Inr p'" "piece_ok p'"
    "m_index p' = m_index p" "assembling (sha1 (content i)) (content i) r (insert k K) p'"
    by (rule block_taken [OF p(3,2) assms(3,4) len p(5,6)])
  let ?pm = "put_piece i p' (manager s)"
  let ?sh = "wake i c ((common s)\<lparr>p_manager := ?pm\<rparr>)"
  have k: "k < 16" using assms(3) p(2) by (simp add: assembling_def)
  have "finite K" using p(2) finite_subset by (auto simp: assembling_def)
  then have room: "r < card (insert k K) + 5" using p(2) assms(4) by (simp add: assembling_def)
  have sv: "serving me (set js) c" using s(2,5) by (simp add: conn_at_def)
  then have st: "m_state c = Some READ_MESSAGE_SIZE" "need c = 4" "m_async c" "framed c" "ready c []"
    "self c = me" "m_loop c"
    by (auto simp: serving_def framed_def)
  have fd: "feed (concat chunks) ([], strip c, common s) = Some ([], await READ_MESSAGE_SIZE 4 (strip c), ?sh)"
    unfolding assms(5) by (rule deliver_block [OF st(3) p(1) p'(1) p(5,6) k len st(1,2)])
  obtain c' where c': "run_reads on_receive on_remote_close chunks (c, common s) = Inr (c', ?sh)"
    "strip c' = await READ_MESSAGE_SIZE 4 (strip c)" "ready c' []"
    using feed_run [OF st(5,4) received_fit [OF s(4) assms(6)] fd] by auto
  let ?s = "set_peer me c' (s\<lparr>common := ?sh\<rparr>)"
  have run: "run_events sha1 (map (Received me) chunks) s = Inr ?s"
    unfolding run_received [OF s(4)] using c'(1) by simp
  have log: "requested j c' l = requested j c l" for j l
    using strip_await(12) [OF c'(2)] by (simp add: requested_def)
  have "conn_at me dn i q r c'"
    using s(2,5) serving_await [OF sv c'(2,3)] strip_await(8) [OF c'(2)] log by (simp add: conn_at_def)
  moreover have "pieces_at sha1 content dn i q r (insert k K) ?pm"
    using pieces_at_put [OF s(3) _ _ p'(2) _ p'(4)] p'(3) p(4) s(1,2) by simp
  moreover have "wake_at me i r (insert k K) True (common ?s)" "manager ?s = ?pm"
    using room st(6,7) by (simp_all add: wake_at_def wake_def async_send_def)
  ultimately have "simulates me sha1 content js wr ?s (Fetching dn i q r (insert k K) True)"
    unfolding simulates.simps using s(1,2,6,7) peer_at_set_peer [OF s(4)] by (simp add: told_update)
  with run show ?thesis by blast
qed

section \<open>The wake-up asks for blocks\<close>

lemma tiled_full:
  assumes "tiled (16384 * int m) (16384 * int r) stop bs" "stop \<le> 16384 * int m"
  obtains r' where "stop = 16384 * int r'" "r \<le> r'" "bs = map (\<lambda>j. (16384 * int j, 16384)) [r..<r']"
  using assms
proof (induction bs arbitrary: r thesis)
  case Nil
  from Nil.prems(1) [of r] Nil.prems(2) show ?case by simp
next
  case (Cons blk bs)
  obtain off n where on: "blk = (off, n)" by (cases blk)
  note t = Cons.prems(2) [unfolded on tiled.simps]
  note off = conjunct1 [OF t] and t' = conjunct2 [OF t]
  have n: "n = 16384"
    using conjunct1 [OF t'] conjunct1 [OF conjunct2 [OF t']] off by (cases "int r + 1 \<le> int m") linarith+
  have "16384 * int r + n = 16384 * int (Suc r)" using n by simp
  with t' have t: "tiled (16384 * int m) (16384 * int (Suc r)) stop bs" by metis
  obtain r' where r': "stop = 16384 * int r'" "Suc r \<le> r'"
    "bs = map (\<lambda>j. (16384 * int j, 16384)) [Suc r..<r']"
    using Cons.IH [OF _ t Cons.prems(3)] by blast
  have "blk # bs = map (\<lambda>j. (16384 * int j, 16384)) [r..<r']"
    using r'(2,3) on off n by (simp add: upt_rec [of r])
  then show ?case using Cons.prems(1) [OF r'(1)] r'(2) by simp
qed

lemma request_of_inj:
  assumes "0 \<le> i" "i \<le> int_max" "0 \<le> i'" "i' \<le> int_max" "j < 16" "k < 16"
  shows "request_of i (16384 * int j, 16384) = request_of i' (16384 * int k, 16384) \<longleftrightarrow> i = i' \<and> j = k"
proof
  assume e: "request_of i (16384 * int j, 16384) = request_of i' (16384 * int k, 16384)"
  have f: "field_at 5 (request_of x (16384 * int m, 16384)) = Inr x"
    "field_at 9 (request_of x (16384 * int m, 16384)) = Inr (16384 * int m)"
    if "m < 16" "0 \<le> x" "x \<le> int_max" for m x
  proof -
    have "16384 * int m \<le> int_max" using that by linarith
    with request_of_fields(1,2) [of x "(16384 * int m, 16384)"] that show
      "field_at 5 (request_of x (16384 * int m, 16384)) = Inr x"
      "field_at 9 (request_of x (16384 * int m, 16384)) = Inr (16384 * int m)"
      unfolding fst_conv snd_conv by auto
  qed
  have "(Inr i :: int res) = Inr i'"
    unfolding f(1) [OF assms(5,1,2), symmetric] f(1) [OF assms(6,3,4), symmetric] e ..
  moreover have "(Inr (16384 * int j) :: int res) = Inr (16384 * int k)"
    unfolding f(2) [OF assms(5,1,2), symmetric] f(2) [OF assms(6,3,4), symmetric] e ..
  ultimately show "i = i' \<and> j = k" by simp
qed simp

text \<open>The requests of \<open>fetch_piece\<close>: as many as the five open ones and the end of the piece allow.\<close>

lemma fetch_asks:
  assumes "peer_at me s = Inr c" "serving me P c" "i \<in> P" "m_curr_piece c = i \<or> m_curr_piece c = -1"
    "pm_ok (manager s)" "get_piece i (manager s) = Inr p" "i \<le> int_max"
    "assembling h content r K p" "card K < 16" "r < card K + 5"
    "s1 = (if m_curr_piece c = -1 then s else push_work i s)" "m = min 16 (card K + 5)"
  obtains c' p' where
    "fetch_piece sha1 me i s = Inr (-1, set_peer me c' (set_manager (put_piece i p' (manager s1)) s1))"
    "serving me P c'" "m_curr_piece c' = i" "piece_ok p'" "m_index p' = i" "assembling h content m K p'"
    "\<forall>j k. 0 \<le> j \<and> j \<le> int_max \<and> k < 16 \<longrightarrow>
       (requested j c' k \<longleftrightarrow> requested j c k \<or> j = i \<and> r \<le> k \<and> k < m)"
proof -
  have p: "piece_ok p" "m_index p = i" "0 \<le> i"
    using pm_ok_get [OF assms(5,6)] assms(6) by (auto simp: get_piece_eq)
  note a = assms(8) [unfolded assembling_def]
  have st: "need c = 4" "has_piece (peer_bitfield c) i = Inr True" "ready c []"
    using assms(2,3) by (auto simp: serving_def framed_def)
  obtain c' bs stop where f:
    "fetch_piece sha1 me i s = Inr (-1, set_peer me c' (set_manager (put_piece i
       (p\<lparr>m_backlog := m_backlog p + int (length bs), m_total_requested := stop\<rparr>) (manager s1)) s1))"
    "ready c' []" "need c' = need c"
    "c' = c\<lparr>m_curr_piece := i, m_recv_buffer := m_recv_buffer c', stream_data := stream_data c',
       io_log := io_log c @ map (\<lambda>blk. Uv_write (request_of i blk)) bs @ [Uv_read_start]\<rparr>"
    "tiled (m_piece_length p) (m_total_requested p) stop bs" "stop \<le> m_piece_length p"
    "bs \<noteq> [] \<longrightarrow> m_backlog p + int (length bs) \<le> max_backlog"
    "max_backlog \<le> m_backlog p + int (length bs) \<or> stop = m_piece_length p"
    by (rule fetch_requests [OF assms(1) st(3), of i i p s1 sha1])
      (use assms(4-6,9-11) st a in \<open>auto simp: download_finished_def\<close>)
  let ?p = "p\<lparr>m_backlog := m_backlog p + int (length bs), m_total_requested := stop\<rparr>"
  have "tiled (16384 * int 16) (16384 * int r) stop bs" "stop \<le> 16384 * int 16" using f(5,6) a by simp_all
  then obtain r' where r': "stop = 16384 * int r'" "r \<le> r'" "bs = map (\<lambda>j. (16384 * int j, 16384)) [r..<r']"
    by (rule tiled_full)
  have len: "int (length bs) = int r' - int r" using r'(2,3) by simp
  have "r' \<le> 16" using r'(1) f(6) a by simp
  moreover have "r' \<le> card K + 5" using f(7) len a assms(10) r'(2) by (cases "bs = []") auto
  moreover have "card K + 5 \<le> r' \<or> r' = 16" using f(8) len a r'(1) by auto
  ultimately have m: "r' = m" unfolding assms(12) by linarith
  have le: "m \<le> 16" "m \<le> card K + 5" "r \<le> m" using r'(2) m assms(12) by simp_all
  have as: "assembling h content m K ?p"
    using a le r'(1) len m by (auto simp: assembling_def)
  have ok: "piece_ok ?p" using p(1) r'(1) le m a by (simp add: piece_ok_def)
  have log: "set (io_log c') = set (io_log c) \<union> (\<lambda>blk. Uv_write (request_of i blk)) ` set bs \<union> {Uv_read_start}"
    by (subst f(4)) auto
  have req: "requested j c' k \<longleftrightarrow> requested j c k \<or> j = i \<and> r \<le> k \<and> k < m"
    if "0 \<le> j" "j \<le> int_max" "k < 16" for j k
  proof -
    have "request_of j (16384 * int k, 16384) = request_of i (16384 * int l, 16384) \<longleftrightarrow> j = i \<and> k = l"
      if "l < m" for l
      using request_of_inj [OF \<open>0 \<le> j\<close> \<open>j \<le> int_max\<close> p(3) assms(7) \<open>k < 16\<close>] that le(1) by simp
    then have "(\<exists>l. r \<le> l \<and> l < m \<and>
          request_of j (16384 * int k, 16384) = request_of i (16384 * int l, 16384)) \<longleftrightarrow>
        j = i \<and> r \<le> k \<and> k < m" by blast
    moreover have "requested j c' k \<longleftrightarrow> requested j c k \<or> (\<exists>l. r \<le> l \<and> l < m \<and>
        request_of j (16384 * int k, 16384) = request_of i (16384 * int l, 16384))"
      unfolding requested_def log r'(3) m by auto
    ultimately show ?thesis by blast
  qed
  have fields: "self c' = self c" "m_loop c' = m_loop c" "m_async c' = m_async c" "m_session c' = m_session c"
    "m_choked c' = m_choked c" "m_socket c' = m_socket c" "peer_bitfield c' = peer_bitfield c"
    "m_disconnect c' = m_disconnect c" "m_state c' = m_state c" "m_curr_piece c' = i"
    by (subst f(4), simp)+
  have "Uv_close \<notin> set (io_log c')" using assms(2) unfolding log serving_def reading_def by auto
  moreover have "framed c' = framed c" by (rule framed_cong) (simp_all add: fields f(3))
  ultimately have "serving me P c'"
    using assms(2) f(2) by (simp add: serving_def reading_def fields)
  with that f(1) fields(10) ok p(2) as req show ?thesis by (simp add: m)
qed

lemma ask_round:
  assumes "simulates me sha1 content js wr s (Fetching dn i q r K True)" "card K < 16"
  shows "\<exists>s'. handle_event sha1 True Woken s = Inr s' \<and>
           simulates me sha1 content js wr s' (Fetching dn i q (min 16 (card K + 5)) K False)"
proof -
  obtain c where s: "distinct js" "js = dn @ i # q" "pieces_at sha1 content dn i q r K (manager s)"
    "peer_at me s = Inr c" "conn_at me dn i q r c" "write_reqs s = wr @ dn" "told me dn (m_peer_connections s)"
    "async_data (common s) = Some \<lparr>sp_index = i, sp_peer = me, sp_loop = True\<rparr>" "r < card K + 5"
    using assms(1) by (auto simp: wake_at_def)
  obtain p where p: "get_piece i (manager s) = Inr p" "assembling (sha1 (content i)) (content i) r K p"
    "i \<le> int_max" "pm_ok (manager s)"
    using s(3) by (fastforce simp: pieces_at_def get_piece_eq)
  let ?s = "s\<lparr>common := (common s)\<lparr>async_pending := False, async_data := None\<rparr>\<rparr>"
  let ?s1 = "if m_curr_piece c = -1 then ?s else push_work i ?s"
  let ?m = "min 16 (card K + 5)"
  have c: "peer_at me ?s = Inr c" using s(4) by (simp add: peer_at_eq)
  have sv: "serving me (set js) c" "m_curr_piece c = i \<or> m_curr_piece c = -1"
    using s(2,5) by (auto simp: conn_at_def)
  then have st: "has_piece (peer_bitfield c) i = Inr True" "\<not> m_choked c" using s(2) by (simp_all add: serving_def)
  obtain c' p' where f:
    "fetch_piece sha1 me i ?s = Inr (-1, set_peer me c' (set_manager (put_piece i p' (manager ?s1)) ?s1))"
    "serving me (set js) c'" "m_curr_piece c' = i" "piece_ok p'" "m_index p' = i"
    "assembling (sha1 (content i)) (content i) ?m K p'"
    "\<forall>j k. 0 \<le> j \<and> j \<le> int_max \<and> k < 16 \<longrightarrow>
       (requested j c' k \<longleftrightarrow> requested j c k \<or> j = i \<and> r \<le> k \<and> k < ?m)"
    by (rule fetch_asks [OF c sv(1) _ sv(2) _ _ p(3,2) assms(2) s(9) refl refl, of sha1])
      (use s(2) p(1,4) in simp_all)
  let ?t = "set_peer me c' (set_manager (put_piece i p' (manager ?s1)) ?s1)"
  have run: "handle_event sha1 True Woken s = Inr ?t"
    using s(8) c st f(1) by (simp add: try_download_def Let_def)
  have r: "r \<le> ?m" using p(2) s(9) by (simp add: assembling_def)
  have "pieces_at sha1 content dn i q r K (manager ?s1)"
    using s(3) pm_ok_push [of "manager s" i] p(1)
    by (fastforce simp: pieces_at_def stored_def unasked_def push_work_def set_manager_def get_piece_eq queue_push_def)
  from pieces_at_put [OF this _ _ f(4,5,6)] have "pieces_at sha1 content dn i q ?m K (manager ?t)"
    using s(1,2) by simp
  moreover have "conn_at me dn i q ?m c'"
    using s(1,2,5) f(2,3,7) r unfolding conn_at_def by auto
  moreover have "wake_at me i ?m K False (common ?t)" using assms(2) by (simp add: wake_at_def)
  moreover have "peer_at me ?t = Inr c'" using s(4) by (simp add: peer_at_eq)
  ultimately have "simulates me sha1 content js wr ?t (Fetching dn i q ?m K False)"
    using s(1,2,6,7) by (simp add: told_update)
  with run show ?thesis by blast
qed

section \<open>The last wake-up of a piece\<close>

lemma all_arrived:
  assumes "piece_ok p" "assembling h content r K p" "card K = 16" "length content = 16 * 16384"
  shows "full_piece h content p" "K = {..<16}" "r = 16"
proof -
  note a = assms(2) [unfolded assembling_def]
  show K: "K = {..<16}" "r = 16"
    using a assms(3) card_subset_eq [of "{..<r}" K] card_mono [of "{..<r}" K] by auto
  obtain d where d: "m_data p = Some (map Some d)" "agrees 16384 content {..<16} d"
    using a K by auto
  have "length d = 16384 * 16" using assms(1) d(1) a by (auto simp: piece_ok_def inj_map_eq_map)
  then have "d = content" using agrees_all [OF d(2)] assms(4) by simp
  then show "full_piece h content p"
    using a d(1) assms(3) K by (simp add: full_piece_def download_finished_def)
qed

lemma full_verified:
  assumes "full_piece (sha1 content) content p" "length content = 16 * 16384" "length (sha1 content) = 20"
  shows "verify_integrity sha1 p = Inr True"
  using assms by (simp add: full_piece_def verify_integrity_def info_hash_of_def read_bytes_eq)

lemma fresh_assembling: "piece_ok p \<Longrightarrow> fresh_piece h p \<Longrightarrow> assembling h content 0 {} p"
  by (auto simp: piece_ok_def fresh_piece_def assembling_def agrees_def)

lemma told_announce: "told me dn ps \<Longrightarrow> told me (dn @ [i]) (announce me i ps)"
  by (auto simp: told_def announce_nth have_sent_def)

lemma told_again: "told me dn ps \<Longrightarrow> told me dn (announce me i ps)"
  by (auto simp: told_def announce_nth have_sent_def)

lemma stored_cong: "m_pieces pm = m_pieces pm' \<Longrightarrow> stored sha1 content pm j = stored sha1 content pm' j"
  by (simp add: stored_def get_piece_def)

lemma unasked_cong: "m_pieces pm = m_pieces pm' \<Longrightarrow> unasked sha1 content pm j = unasked sha1 content pm' j"
  by (simp add: unasked_def get_piece_def)

text \<open>A connection that has a done piece is woken for it: the piece is handed to the disk, announced, and
  the front of the work queue is fetched.\<close>

lemma fetch_done:
  assumes "peer_at me s = Inr c" "serving me P c" "j \<in> P" "m_curr_piece c = j \<or> m_curr_piece c = -1"
    "pm_ok (manager s)" "stored sha1 content (manager s) j" "good_contents sha1 content"
    "s1 = (if m_curr_piece c = -1 then s else push_work j s)"
  shows "fetch_piece sha1 me j s = Inr (j, s1\<lparr>m_peer_connections :=
           (announce me j (m_peer_connections s))[me := c\<lparr>m_curr_piece := -1\<rparr>]\<rparr>)"
proof -
  obtain p where p: "get_piece j (manager s) = Inr p" "full_piece (sha1 (content j)) (content j) p"
    using assms(6) by (auto simp: stored_def)
  have "verify_integrity sha1 p = Inr True"
    using full_verified [of sha1 "content j" p] p(2) assms(7) by (simp add: good_contents_def)
  with fetch_finished [where me = me and s = s and c = c and i = j and index = j and p = p and ok = True
      and ?sha1.0 = sha1 and ?s1.0 = s1] assms(1-5,8) p pm_ok_get [OF assms(5) p(1)]
  show ?thesis by (auto simp: serving_def full_piece_def)
qed

lemma piece_done:
  assumes "simulates me sha1 content js wr s (Fetching dn i q r K True)" "good_contents sha1 content"
    "card K = 16"
  obtains c junk u j qs where
    "handle_event sha1 True Woken s = bindE (fetch_piece sha1 me j u) (\<lambda>(_, s). Inr s)"
    "q @ junk @ [i] = j # qs" "set junk \<subseteq> insert i (set dn)" "m_work_queue (manager u) = qs"
    "peer_at me u = Inr c" "serving me (set js) c" "m_curr_piece c = -1"
    "\<forall>j k. 0 \<le> j \<and> j \<le> int_max \<and> k < 16 \<longrightarrow> (requested j c k \<longleftrightarrow> j \<in> set (dn @ [i]))"
    "pm_ok (manager u)" "n_pieces (manager u) \<le> int_max" "\<forall>j \<in> set (dn @ [i]). stored sha1 content (manager u) j"
    "\<forall>j \<in> set q. unasked sha1 content (manager u) j" "\<not> async_pending (common u)"
    "write_reqs u = wr @ dn @ [i]" "told me (dn @ [i]) (m_peer_connections u)"
proof -
  obtain c junk where s: "js = dn @ i # q" "pieces_at sha1 content dn i q r K (manager s)"
    "peer_at me s = Inr c" "conn_at me dn i q r c" "write_reqs s = wr @ dn" "told me dn (m_peer_connections s)"
    "async_data (common s) = Some \<lparr>sp_index = i, sp_peer = me, sp_loop = True\<rparr>"
    "m_work_queue (manager s) = q @ junk" "set junk \<subseteq> insert i (set dn)"
    using assms(1) by (auto simp: wake_at_def pieces_at_def)
  obtain p where p: "get_piece i (manager s) = Inr p" "assembling (sha1 (content i)) (content i) r K p"
    "piece_ok p" "pm_ok (manager s)" "i \<noteq> -1"
    using s(2) pm_ok_get by (fastforce simp: pieces_at_def get_piece_eq)
  note full = all_arrived [OF p(3,2) assms(3)]
  have st: "stored sha1 content (manager s) i"
    using full(1) p(1) assms(2) pm_ok_get [OF p(4,1)] by (simp add: stored_def good_contents_def)
  let ?s = "s\<lparr>common := (common s)\<lparr>async_pending := False, async_data := None\<rparr>\<rparr>"
  let ?c = "c\<lparr>m_curr_piece := -1\<rparr>"
  let ?ps = "(announce me i (m_peer_connections s))[me := ?c]"
  let ?t = "(push_work i ?s)\<lparr>m_peer_connections := ?ps, write_reqs := wr @ dn @ [i]\<rparr>"
  have r: "r = 16" using full(3) assms(2) by (simp add: good_contents_def)
  have sv: "serving me (set js) c" "m_curr_piece c = i" using s(1,4) r by (auto simp: conn_at_def)
  have at: "peer_at me ?s = Inr c" "me < length (m_peer_connections s)" using s(3) by (simp_all add: peer_at_eq)
  have f: "fetch_piece sha1 me i ?s = Inr (i, (push_work i ?s)\<lparr>m_peer_connections := ?ps\<rparr>)"
    using fetch_done [OF at(1) sv(1) _ _ _ _ assms(2), of i] sv(2) p(4,5) st s(1) by simp
  obtain j qs where j: "q @ junk @ [i] = j # qs" by (cases "q @ junk @ [i]") auto
  let ?u = "set_manager ((manager ?t)\<lparr>m_work_queue := qs\<rparr>) ?t"
  have "has_piece (peer_bitfield c) i = Inr True" "\<not> m_choked c" "m_loop c"
    using sv(1) s(1) by (auto simp: serving_def)
  then have run: "handle_event sha1 True Woken s = bindE (fetch_piece sha1 me j ?u) (\<lambda>(_, s). Inr s)"
    using s(5,7,8) at(1) f p(5) j by (simp add: try_download_def Let_def set_manager_def)
  have u: "m_pieces (manager ?u) = m_pieces (manager s)" by (simp add: push_work_def set_manager_def)
  have "framed ?c = framed c" "ready ?c [] = ready c []"
    by (rule framed_cong) (simp_all add: ready_def)
  then have svc: "serving me (set js) ?c" using sv(1) by (simp add: serving_def reading_def)
  have req: "\<forall>j k. 0 \<le> j \<and> j \<le> int_max \<and> k < 16 \<longrightarrow> (requested j ?c k \<longleftrightarrow> j \<in> set (dn @ [i]))"
    using s(4) r by (auto simp: conn_at_def requested_def)
  have "set qs \<subseteq> set q \<union> set junk \<union> {i}" using arg_cong [OF j, of set] by auto
  then have pm: "pm_ok (manager ?u)"
    using s(2,8) p(1) u by (auto simp: pieces_at_def pm_ok_def get_piece_eq)
  have "\<forall>j \<in> set (dn @ [i]). stored sha1 content (manager ?u) j" "\<forall>j \<in> set q. unasked sha1 content (manager ?u) j"
    "n_pieces (manager ?u) \<le> int_max"
    unfolding stored_cong [OF u] unasked_cong [OF u] u using s(2) st by (auto simp: pieces_at_def)
  moreover have "told me (dn @ [i]) (m_peer_connections ?u)"
    using told_announce [OF s(6), of i] by (simp add: told_update)
  ultimately show ?thesis
    using at(2) pm svc by (intro that [OF run j s(9) _ _ svc _ req pm]) (simp_all add: peer_at_eq)
qed

lemma last_round:
  assumes "simulates me sha1 content js wr s (Fetching dn i [] r K True)" "good_contents sha1 content"
    "card K = 16"
  shows "\<exists>s'. handle_event sha1 True Woken s = Inr s' \<and>
           simulates me sha1 content js wr s' (Finished (dn @ [i]))"
proof -
  obtain c junk u j qs where u:
    "handle_event sha1 True Woken s = bindE (fetch_piece sha1 me j u) (\<lambda>(_, s). Inr s)"
    "[] @ junk @ [i] = j # qs" "set junk \<subseteq> insert i (set dn)"
    "peer_at me u = Inr c" "serving me (set js) c" "m_curr_piece c = -1" "pm_ok (manager u)"
    "\<forall>j \<in> set (dn @ [i]). stored sha1 content (manager u) j" "\<not> async_pending (common u)"
    "write_reqs u = wr @ dn @ [i]" "told me (dn @ [i]) (m_peer_connections u)"
    "\<forall>j k. 0 \<le> j \<and> j \<le> int_max \<and> k < 16 \<longrightarrow> (requested j c k \<longleftrightarrow> j \<in> set (dn @ [i]))"
    by (rule piece_done [OF assms]) blast
  have js: "js = dn @ [i]" using assms(1) by simp
  have j: "j \<in> set (dn @ [i])" using u(2,3) by (cases junk) auto
  let ?u = "u\<lparr>m_peer_connections := (announce me j (m_peer_connections u))[me := c\<lparr>m_curr_piece := -1\<rparr>]\<rparr>"
  have "fetch_piece sha1 me j u = Inr (j, ?u)"
    using fetch_done [OF u(4,5) _ _ u(7) _ assms(2), of j] j js u(6,8) by simp
  moreover have "simulates me sha1 content js wr ?u (Finished (dn @ [i]))"
    using js u(4,8-10,12) told_again [OF u(11)] by (simp add: told_update peer_at_eq requested_def)
  ultimately show ?thesis using u(1) by (intro exI [of _ ?u]) (simp del: simulates.simps)
qed

lemma next_round:
  assumes "simulates me sha1 content js wr s (Fetching dn i (j # q) r K True)" "good_contents sha1 content"
    "card K = 16"
  shows "\<exists>s'. handle_event sha1 True Woken s = Inr s' \<and>
           simulates me sha1 content js wr s' (Fetching (dn @ [i]) j q 5 {} False)"
proof -
  obtain c junk u j' qs where u:
    "handle_event sha1 True Woken s = bindE (fetch_piece sha1 me j' u) (\<lambda>(_, s). Inr s)"
    "(j # q) @ junk @ [i] = j' # qs" "set junk \<subseteq> insert i (set dn)" "m_work_queue (manager u) = qs"
    "peer_at me u = Inr c" "serving me (set js) c" "m_curr_piece c = -1"
    "\<forall>j k. 0 \<le> j \<and> j \<le> int_max \<and> k < 16 \<longrightarrow> (requested j c k \<longleftrightarrow> j \<in> set (dn @ [i]))"
    "pm_ok (manager u)" "n_pieces (manager u) \<le> int_max" "\<forall>j \<in> set (dn @ [i]). stored sha1 content (manager u) j"
    "\<forall>j \<in> set (j # q). unasked sha1 content (manager u) j" "\<not> async_pending (common u)"
    "write_reqs u = wr @ dn @ [i]" "told me (dn @ [i]) (m_peer_connections u)"
    by (rule piece_done [OF assms])
  have js: "distinct js" "js = dn @ i # j # q" using assms(1) by auto
  have j: "j' = j" "m_work_queue (manager u) = q @ junk @ [i]" using u(2,4) by simp_all
  obtain p where p: "get_piece j (manager u) = Inr p" "fresh_piece (sha1 (content j)) p" "j \<le> int_max"
    using u(10,12) by (auto simp: unasked_def get_piece_eq)
  have as: "assembling (sha1 (content j)) (content j) 0 {} p"
    using fresh_assembling pm_ok_get [OF u(9) p(1)] p(2) by blast
  obtain c' p' where f:
    "fetch_piece sha1 me j u = Inr (-1, set_peer me c' (set_manager (put_piece j p' (manager u)) u))"
    "serving me (set js) c'" "m_curr_piece c' = j" "piece_ok p'" "m_index p' = j"
    "assembling (sha1 (content j)) (content j) 5 {} p'"
    "\<forall>l k. 0 \<le> l \<and> l \<le> int_max \<and> k < 16 \<longrightarrow>
       (requested l c' k \<longleftrightarrow> requested l c k \<or> l = j \<and> 0 \<le> k \<and> k < 5)"
    by (rule fetch_asks [OF u(5,6) _ _ u(9) p(1,3) as _ _ refl refl, of sha1])
      (use js(2) u(7) in simp_all)
  let ?t = "set_peer me c' (set_manager (put_piece j p' (manager u)) u)"
  have "pieces_at sha1 content (dn @ [i]) j q 0 {} (manager u)"
    using u(3,9-12) p(1) as j(2) by (auto simp: pieces_at_def)
  from pieces_at_put [OF this _ _ f(4,5,6)] have "pieces_at sha1 content (dn @ [i]) j q 5 {} (manager ?t)"
    using js by simp
  moreover have "conn_at me (dn @ [i]) j q 5 c'" using js f(2,3,7) u(8) by (simp add: conn_at_def)
  moreover have "wake_at me j 5 {} False (common ?t)" using u(13) by (simp add: wake_at_def)
  moreover have "peer_at me ?t = Inr c'" using u(5) by (simp add: peer_at_eq)
  ultimately have "simulates me sha1 content js wr ?t (Fetching (dn @ [i]) j q 5 {} False)"
    using js u(14,15) by (simp add: told_update)
  with u(1) f(1) j(1) show ?thesis by (intro exI [of _ ?t]) (simp del: simulates.simps)
qed

end
