(* ===== verification/Simulation.thy ===== *)
theory Simulation
  imports Prelude
begin

text \<open>
  Forward simulation for a program that may fault. The environment chooses the actions; which
  ones it may take can depend on those it took and on the state of the program. The lemmas:
  every allowed run returns and is a run of the specification of bounded length
  (\<open>run_simulated\<close>), and every state can be brought to one that allows nothing more
  (\<open>maximal_run\<close>).
\<close>

section \<open>Runs\<close>

text \<open>
  Runs of a program that may fault and of its specification, under an environment whose
  next action may depend on the actions so far.
\<close>

fun run_with :: "('x \<Rightarrow> 's \<Rightarrow> 's res) \<Rightarrow> 'x list \<Rightarrow> 's \<Rightarrow> 's res" where
  "run_with act [] s = Inr s"
| "run_with act (x # xs) s = bindE (act x s) (run_with act xs)"

fun spec_with :: "('x \<Rightarrow> 'a \<Rightarrow> 'a option) \<Rightarrow> 'x list \<Rightarrow> 'a \<Rightarrow> 'a option" where
  "spec_with spec [] a = Some a"
| "spec_with spec (x # xs) a = Option.bind (spec x a) (spec_with spec xs)"

fun allowed_run ::
  "('x \<Rightarrow> 's \<Rightarrow> 's res) \<Rightarrow> ('x list \<Rightarrow> 'x \<Rightarrow> 's \<Rightarrow> bool) \<Rightarrow> 'x list \<Rightarrow> 'x list \<Rightarrow> 's \<Rightarrow> bool" where
  "allowed_run act env hist [] s = True"
| "allowed_run act env hist (x # xs) s =
     (env hist x s \<and> (case act x s of Inl _ \<Rightarrow> True | Inr s' \<Rightarrow> allowed_run act env (x # hist) xs s'))"

section \<open>The contract\<close>

text \<open>
  The program simulates its specification for every action the environment may take, and the
  specification gets closer to its end with every action.
\<close>

locale forward_simulation =
  fixes act :: "'x \<Rightarrow> 's \<Rightarrow> 's res"
    and spec :: "'x \<Rightarrow> 'a \<Rightarrow> 'a option"
    and env :: "'x list \<Rightarrow> 'x \<Rightarrow> 's \<Rightarrow> bool"
    and rel :: "'x list \<Rightarrow> 's \<Rightarrow> 'a \<Rightarrow> bool"
    and rank :: "'a \<Rightarrow> nat"
  assumes simulated: "rel hist s a \<Longrightarrow> env hist x s \<Longrightarrow>
      \<exists>s' a'. act x s = Inr s' \<and> spec x a = Some a' \<and> rel (x # hist) s' a'"
    and descends: "rel hist s a \<Longrightarrow> spec x a = Some a' \<Longrightarrow> rank a' < rank a"
begin

lemma run_simulated:
  assumes "rel hist s a" "allowed_run act env hist xs s"
  shows "\<exists>s' a'. run_with act xs s = Inr s' \<and> spec_with spec xs a = Some a' \<and> rel (rev xs @ hist) s' a' \<and>
           length xs + rank a' \<le> rank a"
  using assms
proof (induction xs arbitrary: hist s a)
  case (Cons x xs)
  have "env hist x s" using Cons.prems(2) by simp
  from simulated [OF Cons.prems(1) this] obtain s1 a1 where
    1: "act x s = Inr s1" "spec x a = Some a1" "rel (x # hist) s1 a1" by auto
  with Cons.prems(2) have "allowed_run act env (x # hist) xs s1" by simp
  from Cons.IH [OF 1(3) this] 1 descends [OF Cons.prems(1) 1(2)] show ?case by auto
qed simp

text \<open>The environment can go on until it has nothing left to do.\<close>

lemma maximal_run:
  assumes "rel hist s a"
  shows "\<exists>xs s'. allowed_run act env hist xs s \<and> run_with act xs s = Inr s' \<and>
           (\<forall>x. \<not> env (rev xs @ hist) x s')"
  using assms
proof (induction "rank a" arbitrary: hist s a rule: less_induct)
  case less
  show ?case
  proof (cases "\<exists>x. env hist x s")
    case False
    then show ?thesis by (intro exI [of _ "[]"] exI [of _ s]) simp
  next
    case True
    then obtain x where x: "env hist x s" by blast
    from simulated [OF less.prems x] obtain s1 a1 where
      1: "act x s = Inr s1" "spec x a = Some a1" "rel (x # hist) s1 a1" by auto
    from less.hyps [OF descends [OF less.prems 1(2)] 1(3)] obtain xs s' where
      "allowed_run act env (x # hist) xs s1" "run_with act xs s1 = Inr s'"
      "\<forall>y. \<not> env (rev xs @ x # hist) y s'" by blast
    with x 1(1) show ?thesis by (intro exI [of _ "x # xs"] exI [of _ s']) simp
  qed
qed

end

end
