(* ===== verification/Saves.thy ===== *)
theory Saves
  imports Session_Runs Session_Behaviour "HOL-Library.Multiset"
begin

text \<open>
  The saves of the thread pool on their one file. Any number of them run at a time, so that the
  truncating open of one falls between the open and the write of another; the abstract pool knows which
  pieces wait for a thread, which have the file open, and which were written since the file was last
  opened, which is all that is left in it.
\<close>

section \<open>The layout of the file\<close>

abbreviation piece_bytes :: nat where "piece_bytes \<equiv> 262144"

text \<open>The pieces of \<open>js\<close> at their offsets, up to the last of them, with zeros in between.\<close>

definition laid_out :: "(int \<Rightarrow> byte list) \<Rightarrow> int list \<Rightarrow> byte list" where
  "laid_out content js =
     concat (map (\<lambda>i. if int i \<in> set js then content (int i) else replicate piece_bytes 0)
       [0..<(if js = [] then 0 else nat (Max (set js)) + 1)])"

lemma length_concat_blocks: "\<forall>i. length (f i) = B \<Longrightarrow> length (concat (map f is)) = length is * B"
  by (induction "is") simp_all

lemma concat_padded:
  "concat (map (\<lambda>i. if i < n then f i else replicate B x) [0..<n + k]) = concat (map f [0..<n]) @ replicate (k * B) x"
proof (induction k)
  case 0
  have "map (\<lambda>i. if i < n then f i else replicate B x) [0..<n] = map f [0..<n]" by (rule map_cong) simp_all
  then show ?case by (simp only: add_0_right) simp
next
  case (Suc k)
  then show ?case by (simp add: replicate_add [symmetric] add.commute)
qed

lemma write_at_blocks:
  assumes "\<And>i. length (f i) = B" "length x = B" "0 < B"
  shows "write_at (m * B) x (concat (map f [0..<n])) =
    concat (map (\<lambda>i. if i = m then x else if i < n then f i else replicate B 0) [0..<max n (Suc m)])"
proof -
  let ?F = "concat (map f [0..<n])"
  let ?g = "\<lambda>i. if i = m then x else if i < n then f i else replicate B 0"
  have x: "x \<noteq> []" using assms(2,3) by auto
  have F: "length ?F = n * B" using length_concat_blocks [of f B] assms(1) by simp
  show ?thesis
  proof (cases "m < n")
    case True
    have up: "[0..<n] = [0..<m] @ m # [Suc m..<n]" using True upt_add_eq_append [of 0 m "n - m"] upt_conv_Cons [of m n] by simp
    let ?A = "concat (map f [0..<m])" and ?C = "concat (map f [Suc m..<n])"
    have A: "length ?A = m * B" using length_concat_blocks [of f B] assms(1) by simp
    have e: "?F = ?A @ f m @ ?C" unfolding up by simp
    have "m * B - n * B = 0" using True by simp
    then have w: "write_at (m * B) x ?F = take (m * B) ?F @ x @ drop (m * B + B) ?F"
      using x F by (simp add: write_at_def assms(2))
    have t: "take (m * B) ?F @ x @ drop (m * B + B) ?F = ?A @ x @ ?C" unfolding e using A assms(1) by simp
    have g: "map f [0..<m] = map ?g [0..<m]" "map f [Suc m..<n] = map ?g [Suc m..<n]" using True by auto
    have "concat (map ?g [0..<n]) = ?A @ x @ ?C" unfolding up map_append list.map g by simp
    moreover have "max n (Suc m) = n" using True by simp
    ultimately show ?thesis by (simp only: w t)
  next
    case False
    let ?p = "\<lambda>i. if i < n then f i else replicate B 0"
    have "concat (map ?p [0..<m]) = ?F @ replicate (m * B - n * B) 0"
      using concat_padded [of n f B 0 "m - n"] False by (simp add: diff_mult_distrib)
    moreover have "length (?F @ replicate (m * B - n * B) 0) = m * B" using F False by simp
    moreover have "drop (m * B + B) ?F = []" using F False by (simp add: trans_le_add1)
    ultimately have w: "write_at (m * B) x ?F = concat (map ?p [0..<m]) @ x"
      using x F False by (simp add: write_at_def assms(2))
    have g: "map ?p [0..<m] = map ?g [0..<m]" by auto
    have "max n (Suc m) = Suc m" "map ?g [0..<Suc m] = map ?g [0..<m] @ [x]" using False by simp_all
    then show ?thesis by (simp only: w g concat_append concat.simps append_Nil2)
  qed
qed

lemma write_at_laid_out:
  assumes "\<And>j. length (content j) = piece_bytes" "\<forall>j \<in> set js. 0 \<le> j" "0 \<le> j"
  shows "write_at (nat (j * 262144)) (content j) (laid_out content js) = laid_out content (js @ [j])"
proof -
  define n where "n = (if js = [] then 0 else nat (Max (set js)) + 1)"
  let ?f = "\<lambda>i. if int i \<in> set js then content (int i) else replicate piece_bytes 0"
  have out: "int i \<notin> set js" if "n \<le> i" for i
  proof
    assume i: "int i \<in> set js"
    then have "int i \<le> Max (set js)" by simp
    moreover have "js \<noteq> []" using i by auto
    ultimately show False using that by (simp add: n_def)
  qed
  have m: "nat (j * 262144) = nat j * piece_bytes" using assms(3) by (simp add: nat_mult_distrib)
  have "write_at (nat j * piece_bytes) (content j) (concat (map ?f [0..<n])) =
      concat (map (\<lambda>i. if i = nat j then content j else if i < n then ?f i else replicate piece_bytes 0)
        [0..<max n (Suc (nat j))])"
    by (rule write_at_blocks) (simp_all add: assms(1))
  also have "(\<lambda>i. if i = nat j then content j else if i < n then ?f i else replicate piece_bytes 0) =
      (\<lambda>i. if int i \<in> set (js @ [j]) then content (int i) else replicate piece_bytes 0)"
    using out assms(3) by (auto simp: fun_eq_iff not_less)
  also have "max n (Suc (nat j)) = nat (Max (set (js @ [j]))) + 1"
  proof (cases "js = []")
    case False
    then have "Max (set (js @ [j])) = max j (Max (set js))" by simp
    moreover have "0 \<le> Max (set js)" using False assms(2) by simp
    ultimately show ?thesis using False assms(3) by (simp add: n_def max_def) linarith
  qed (use assms(3) in \<open>simp add: n_def\<close>)
  finally show ?thesis unfolding m by (simp add: laid_out_def n_def)
qed

lemma laid_out_single:
  assumes "length (content j) = piece_bytes" "0 \<le> j"
  shows "laid_out content [j] = replicate (nat (j * 262144)) 0 @ content j"
proof -
  have z: "concat (map (\<lambda>i. if int i = j then content (int i) else replicate piece_bytes 0) [0..<k]) =
      replicate (k * piece_bytes) 0" if "int k \<le> j" for k
    using that by (induction k) (simp_all add: replicate_add [symmetric] add.commute)
  have "nat (j * 262144) = nat j * piece_bytes" using assms(2) by (simp add: nat_mult_distrib)
  with z [of "nat j"] assms(2) show ?thesis by (simp add: laid_out_def)
qed

section \<open>The pool\<close>

text \<open>The pieces that wait, those with the file open, and those written since it was last opened.\<close>

fun pool_step :: "event \<Rightarrow> int list \<times> int list \<times> int list \<Rightarrow> (int list \<times> int list \<times> int list) option" where
  "pool_step (Save_opened k) (p, r, w) =
     (if k < length p then Some (take k p @ drop (Suc k) p, r @ [p ! k], []) else None)"
| "pool_step (Save_written k) (p, r, w) =
     (if k < length r then Some (p, take k r @ drop (Suc k) r, w @ [r ! k]) else None)"
| "pool_step ev st = None"

fun pool_run :: "event list \<Rightarrow> int list \<times> int list \<times> int list \<Rightarrow> (int list \<times> int list \<times> int list) option" where
  "pool_run [] st = Some st"
| "pool_run (ev # evs) st = (case pool_step ev st of None \<Rightarrow> None | Some st \<Rightarrow> pool_run evs st)"

fun is_open :: "event \<Rightarrow> bool" where
  "is_open (Save_opened k) = True"
| "is_open ev = False"

text \<open>No save opens the file after another one has written to it.\<close>

definition opens_first :: "event list \<Rightarrow> bool" where
  "opens_first evs = (\<not> list_ex is_open (dropWhile is_open evs))"

lemma nth_removed: "k < length xs \<Longrightarrow> add_mset (xs ! k) (mset (take k xs @ drop (Suc k) xs)) = mset xs"
  by (metis id_take_nth_drop mset.simps(2) mset_append union_mset_add_mset_right)

lemma nth_removed_set: "k < length xs \<Longrightarrow> insert (xs ! k) (set (take k xs @ drop (Suc k) xs)) = set xs"
  using arg_cong [OF nth_removed, of k xs set_mset] by simp

lemma pool_step_cases:
  assumes "pool_step ev (p, r, w) = Some st"
  obtains (opened) k where "ev = Save_opened k" "k < length p" "st = (take k p @ drop (Suc k) p, r @ [p ! k], [])"
  | (written) k where "ev = Save_written k" "k < length r" "st = (p, take k r @ drop (Suc k) r, w @ [r ! k])"
  using assms by (cases ev) (auto split: if_splits)

lemma pool_writes:
  assumes "pool_run evs (p, r, w) = Some (p', r', w')" "\<not> list_ex is_open evs"
  shows "p' = p \<and> mset w' + mset r' = mset w + mset r"
  using assms
proof (induction evs arbitrary: r w)
  case (Cons ev evs)
  obtain st where st: "pool_step ev (p, r, w) = Some st" "pool_run evs st = Some (p', r', w')"
    using Cons.prems(1) by (auto split: option.splits)
  from st(1) show ?case
  proof (cases rule: pool_step_cases)
    case (written k)
    with Cons.IH st(2) Cons.prems(2)
    have ih: "p' = p \<and> mset w' + mset r' = mset (w @ [r ! k]) + mset (take k r @ drop (Suc k) r)" by simp
    have "mset (w @ [r ! k]) + mset (take k r @ drop (Suc k) r) = mset w + mset r"
      by (subst nth_removed [OF written(2), symmetric]) simp
    with ih show ?thesis by simp
  qed (use Cons.prems(2) in simp)
qed simp

lemma pool_sets:
  "pool_run evs (p, r, w) = Some (p', r', w') \<Longrightarrow>
   set p' \<union> set r' \<union> set w' \<subseteq> set p \<union> set r \<union> set w \<and> (list_ex is_open evs \<longrightarrow> set w' \<subseteq> set p \<union> set r)"
proof (induction evs arbitrary: p r w)
  case (Cons ev evs)
  obtain st where st: "pool_step ev (p, r, w) = Some st" "pool_run evs st = Some (p', r', w')"
    using Cons.prems by (auto split: option.splits)
  from st(1) show ?case
  proof (cases rule: pool_step_cases)
    case (opened k)
    from Cons.IH [OF st(2) [unfolded opened(3)]] nth_removed_set [OF opened(2)] show ?thesis by auto
  next
    case (written k)
    from Cons.IH [OF st(2) [unfolded written(3)]] nth_removed_set [OF written(2)] written(1) show ?thesis by auto
  qed
qed simp

text \<open>When all saves have ended, the file has all pieces exactly when no open came after a write.\<close>

lemma pool_complete:
  assumes "pool_run evs (p, r, []) = Some ([], [], w)" "distinct (p @ r)"
  shows "set w = set p \<union> set r \<longleftrightarrow> opens_first evs"
  using assms
proof (induction evs arbitrary: p r)
  case (Cons ev evs)
  obtain st where st: "pool_step ev (p, r, []) = Some st" "pool_run evs st = Some ([], [], w)"
    using Cons.prems(1) by (auto split: option.splits)
  from st(1) show ?case
  proof (cases rule: pool_step_cases)
    case (opened k)
    let ?p = "take k p @ drop (Suc k) p"
    have m: "mset (?p @ r @ [p ! k]) = mset (p @ r)"
      using nth_removed [OF opened(2)] by (simp add: union_assoc)
    have "distinct (?p @ r @ [p ! k])" using Cons.prems(2) mset_eq_imp_distinct_iff [OF m] by simp
    then have "set w = set ?p \<union> set (r @ [p ! k]) \<longleftrightarrow> opens_first evs"
      by (intro Cons.IH) (use st(2) opened(3) in simp_all)
    moreover have "set ?p \<union> set (r @ [p ! k]) = set p \<union> set r" using nth_removed_set [OF opened(2)] by auto
    moreover have "opens_first (ev # evs) = opens_first evs" by (simp add: opens_first_def opened(1))
    ultimately show ?thesis by simp
  next
    case (written k)
    let ?r = "take k r @ drop (Suc k) r"
    have run: "pool_run evs (p, ?r, [r ! k]) = Some ([], [], w)" using st(2) written(3) by simp
    have first: "opens_first (ev # evs) \<longleftrightarrow> \<not> list_ex is_open evs" by (simp add: opens_first_def written(1))
    show ?thesis
    proof (cases "list_ex is_open evs")
      case False
      from pool_writes [OF run False] have "p = []" "mset w = add_mset (r ! k) (mset ?r)" by simp_all
      then have "p = []" "set w = set r" using nth_removed [OF written(2)] mset_eq_setD by metis+
      then show ?thesis using False first by simp
    next
      case True
      have "r ! k \<notin> set p \<union> set ?r"
      proof -
        have "distinct r" "r ! k \<in> set r" "set p \<inter> set r = {}" using Cons.prems(2) written(2) by auto
        moreover have "distinct (r ! k # ?r)"
          using \<open>distinct r\<close> mset_eq_imp_distinct_iff [of "r ! k # ?r" r] nth_removed [OF written(2)] by simp
        ultimately show ?thesis by auto
      qed
      then have "r ! k \<notin> set w" using pool_sets [OF run] True by blast
      then show ?thesis using True first written(2) nth_mem by blast
    qed
  qed
qed (simp add: opens_first_def)

text \<open>Saves that run one after the other leave only the last of them.\<close>

definition one_by_one :: "nat list \<Rightarrow> event list" where
  "one_by_one ks = concat (map (\<lambda>k. [Save_opened k, Save_written 0]) ks)"

lemma pool_one_by_one:
  assumes "pool_run (one_by_one ks) (p, [], w) = Some (p', r', w')" "ks \<noteq> []"
  shows "r' = [] \<and> (\<exists>j \<in> set p. w' = [j])"
  using assms
proof (induction ks arbitrary: p w)
  case (Cons k ks)
  let ?p = "take k p @ drop (Suc k) p"
  have k: "k < length p" "pool_run (one_by_one ks) (?p, [], [p ! k]) = Some (p', r', w')"
    using Cons.prems(1) by (auto simp: one_by_one_def split: if_splits)
  show ?case
  proof (cases "ks = []")
    case True
    then show ?thesis using k by (auto simp: one_by_one_def)
  next
    case False
    from Cons.IH [OF k(2) this] nth_removed_set [OF k(1)] show ?thesis by auto
  qed
qed simp

section \<open>The session implements the pool\<close>

text \<open>A piece that can be saved: it is complete, and its offset is an \<open>int\<close>.\<close>

definition savable :: "(int \<Rightarrow> byte list) \<Rightarrow> piece_manager \<Rightarrow> int \<Rightarrow> bool" where
  "savable content pm j =
     (0 \<le> j \<and> j * 262144 \<le> int_max \<and>
      (\<exists>p. get_piece j pm = Inr p \<and> m_index p = j \<and> m_data p = Some (map Some (content j)) \<and>
         m_received_bytes p = 262144))"

lemma pool_simulated:
  assumes "pool_step ev (write_reqs s, saving s, w) = Some (p, r, w')"
    "\<And>j. length (content j) = piece_bytes"
    "\<forall>j \<in> set (write_reqs s) \<union> set (saving s) \<union> set w. savable content (manager s) j"
    "saving s = [] \<or> output_file s = Some (laid_out content w)"
  shows "enabled ev s \<and> (\<exists>s'. handle_event sha1 True ev s = Inr s' \<and> write_reqs s' = p \<and> saving s' = r \<and>
    manager s' = manager s \<and> output_file s' = Some (laid_out content w'))"
  using assms(1)
proof (cases rule: pool_step_cases)
  case (opened k)
  then have "write_reqs s ! k \<in> set (write_reqs s)" by simp
  then obtain q where "get_piece (write_reqs s ! k) (manager s) = Inr q" using assms(3) by (auto simp: savable_def)
  with opened show ?thesis by (simp add: save_opened_def open_output_def Let_def laid_out_def)
next
  case (written k)
  let ?j = "saving s ! k"
  have j: "?j \<in> set (saving s)" using written(2) by simp
  then obtain q where q: "0 \<le> ?j" "?j * 262144 \<le> int_max" "get_piece ?j (manager s) = Inr q" "m_index q = ?j"
    "m_data q = Some (map Some (content ?j))" "m_received_bytes q = 262144"
    using assms(3) by (auto simp: savable_def)
  have f: "output_file s = Some (laid_out content w)" using assms(4) j by auto
  have "\<forall>j \<in> set w. 0 \<le> j" using assms(3) by (auto simp: savable_def)
  from write_at_laid_out [OF assms(2) this q(1)] write_data_eq [OF q(5), of "laid_out content w"] q(1,2,4,6) assms(2)
  have "write_data q (output_file s) = Inr (Some (laid_out content (w @ [?j])))" by (simp add: f)
  with q(3) written show ?thesis by (simp add: save_written_def Let_def)
qed

lemma pool_run_simulated:
  assumes "pool_run evs (write_reqs s, saving s, w) = Some (p, r, w')"
    "\<And>j. length (content j) = piece_bytes"
    "\<forall>j \<in> set (write_reqs s) \<union> set (saving s) \<union> set w. savable content (manager s) j"
    "saving s = [] \<or> output_file s = Some (laid_out content w)"
  shows "may_occur sha1 evs s \<and> (\<exists>s'. run_events sha1 evs s = Inr s' \<and> write_reqs s' = p \<and> saving s' = r \<and>
    (evs \<noteq> [] \<longrightarrow> output_file s' = Some (laid_out content w')))"
  using assms(1,3,4)
proof (induction evs arbitrary: s w)
  case (Cons ev evs)
  obtain p1 r1 w1 where st: "pool_step ev (write_reqs s, saving s, w) = Some (p1, r1, w1)"
    "pool_run evs (p1, r1, w1) = Some (p, r, w')"
    using Cons.prems(1) by (auto split: option.splits)
  obtain s1 where s1: "enabled ev s" "handle_event sha1 True ev s = Inr s1" "write_reqs s1 = p1" "saving s1 = r1"
    "manager s1 = manager s" "output_file s1 = Some (laid_out content w1)"
    using pool_simulated [OF st(1) assms(2) Cons.prems(2,3)] by blast
  have "pool_run [ev] (write_reqs s, saving s, w) = Some (p1, r1, w1)" using st(1) by simp
  from pool_sets [OF this] Cons.prems(2) s1(5)
  have "\<forall>j \<in> set (write_reqs s1) \<union> set (saving s1) \<union> set w1. savable content (manager s1) j"
    by (auto simp: s1(3,4))
  with Cons.IH [of s1 w1] st(2) s1 obtain s' where "may_occur sha1 evs s1" "run_events sha1 evs s1 = Inr s'"
    "write_reqs s' = p" "saving s' = r" "evs \<noteq> [] \<longrightarrow> output_file s' = Some (laid_out content w')" by auto
  with s1 show ?case using st(2) by (cases evs) auto
qed simp

end
