(* ===== verification/Download_Spec.thy ===== *)
theory Download_Spec
  imports Download Simulation Saves
begin

text \<open>
  The download of the pieces of a torrent from start to end: \<open>Simulation\<close> interpreted on the
  rounds of \<open>Download\<close>, for an honest remote, and what follows from it. The remote is honest when
  it sends a block only after a request for it was written to the connection, at most once, with
  the bytes of the content, one complete message after the other; when, in which order and cut into
  which reads (of one message each) is its choice. Other connections have no events. It has
  something to send in every state that is not the end, since bytes that come one by one always
  fit the chunk of the connection (\<open>bytes_may_occur\<close>).
\<close>

section \<open>Rounds of a download\<close>

fun play :: "(byte list \<Rightarrow> byte list) \<Rightarrow> nat \<Rightarrow> round \<Rightarrow> session \<Rightarrow> session res" where
  "play sha1 me (Block j k chunks) s = run_events sha1 (map (Received me) chunks) s"
| "play sha1 me Wake s = handle_event sha1 True Woken s"

fun blocks :: "round list \<Rightarrow> (int \<times> nat) set" where
  "blocks [] = {}"
| "blocks (Block j k chunks # xs) = insert (j, k) (blocks xs)"
| "blocks (Wake # xs) = blocks xs"

text \<open>The honest remote; \<open>hist\<close> are the rounds so far.\<close>

fun honest ::
  "(byte list \<Rightarrow> byte list) \<Rightarrow> (int \<Rightarrow> byte list) \<Rightarrow> nat \<Rightarrow> round list \<Rightarrow> round \<Rightarrow> session \<Rightarrow> bool" where
  "honest sha1 content me hist (Block j k chunks) s =
     (0 \<le> j \<and> j \<le> int_max \<and> k < 16 \<and> (j, k) \<notin> blocks hist \<and>
      (case peer_at me s of Inl _ \<Rightarrow> False | Inr c \<Rightarrow> requested j c k) \<and>
      concat chunks = frame (piece_message j (content j) k) \<and>
      may_occur sha1 (map (Received me) chunks) s)"
| "honest sha1 content me hist Wake s = enabled Woken s"

fun progress_left :: "download \<Rightarrow> nat" where
  "progress_left (Fetching dn i q r K w) = 33 * length q + 2 * (16 - card K) + (if w then 1 else 0)"
| "progress_left (Finished dn) = 0"

fun arrived :: "download \<Rightarrow> (int \<times> nat) set" where
  "arrived (Fetching dn i q r K w) = set dn \<times> {..<16} \<union> {i} \<times> K"
| "arrived (Finished dn) = set dn \<times> {..<16}"

definition download_rel ::
  "(byte list \<Rightarrow> byte list) \<Rightarrow> (int \<Rightarrow> byte list) \<Rightarrow> nat \<Rightarrow> int list \<Rightarrow> int list \<Rightarrow>
   round list \<Rightarrow> session \<Rightarrow> download \<Rightarrow> bool" where
  "download_rel sha1 content me js wr hist s a =
     (good_contents sha1 content \<and> simulates me sha1 content js wr s a \<and> blocks hist = arrived a)"

lemma card_arrived:
  assumes "simulates me sha1 content js wr s (Fetching dn i q r K w)"
  shows "finite K" "K \<subseteq> {..<16}" "card K \<le> 16" "K \<subseteq> {..<r}" "r \<le> 16" "i \<notin> set dn"
proof -
  from assms have K: "K \<subseteq> {..<r}" "r \<le> 16" "i \<notin> set dn" by (auto simp: pieces_at_def assembling_def)
  then show "finite K" "K \<subseteq> {..<16}" "K \<subseteq> {..<r}" "r \<le> 16" "i \<notin> set dn" using finite_subset by auto
  then show "card K \<le> 16" using card_mono [of "{..<16::nat}" K] by simp
qed

lemma wake_simulated:
  assumes "simulates me sha1 content js wr s (Fetching dn i q r K True)" "good_contents sha1 content"
  shows "\<exists>s' a'. handle_event sha1 True Woken s = Inr s' \<and>
           download_step Wake (Fetching dn i q r K True) = Some a' \<and>
           simulates me sha1 content js wr s' a' \<and> arrived a' = arrived (Fetching dn i q r K True)"
proof (cases "card K = 16")
  case False
  then have "card K < 16" using card_arrived(3) [OF assms(1)] by simp
  with ask_round [OF assms(1)] show ?thesis by (auto simp del: simulates.simps)
next
  case True
  then have K: "K = {..<16}" using card_arrived [OF assms(1)] card_subset_eq [of "{..<16::nat}" K] by simp
  show ?thesis
  proof (cases q)
    case Nil
    with last_round [OF assms(1) [unfolded Nil] assms(2) True] K show ?thesis
      by (auto simp del: simulates.simps)
  next
    case (Cons j q')
    with next_round [OF assms(1) [unfolded Cons] assms(2) True] K show ?thesis
      by (auto simp del: simulates.simps)
  qed
qed

lemma block_allowed:
  assumes "download_rel sha1 content me js wr hist s a" "honest sha1 content me hist (Block j k chunks) s"
  obtains dn q r K w where "a = Fetching dn j q r K w" "k < r" "k \<notin> K"
proof (cases a)
  case (Fetching dn i q r K w)
  with assms have "(j, k) \<notin> arrived a" "j \<in> set dn \<or> j = i \<and> k < r" "k < 16"
    by (auto simp: download_rel_def conn_at_def)
  with that Fetching show ?thesis by auto
next
  case (Finished dn)
  with assms show ?thesis by (auto simp: download_rel_def)
qed

lemma round_simulated:
  assumes "download_rel sha1 content me js wr hist s a" "honest sha1 content me hist x s"
  shows "\<exists>s' a'. play sha1 me x s = Inr s' \<and> download_step x a = Some a' \<and>
           download_rel sha1 content me js wr (x # hist) s' a'"
proof -
  have g: "good_contents sha1 content" and sim: "simulates me sha1 content js wr s a"
    and h: "blocks hist = arrived a"
    using assms(1) by (simp_all add: download_rel_def)
  show ?thesis
  proof (cases x)
    case (Block j k chunks)
    obtain dn q r K w where a: "a = Fetching dn j q r K w" "k < r" "k \<notin> K"
      using block_allowed assms unfolding Block by metis
    have k: "concat chunks = frame (piece_message j (content j) k)"
      "may_occur sha1 (map (Received me) chunks) s"
      using assms(2) Block by simp_all
    from block_round [OF sim [unfolded a(1)] g a(2,3) k] Block a g h show ?thesis
      by (auto simp: download_rel_def simp del: simulates.simps)
  next
    case Wake
    then have "async_pending (common s)" using assms(2) by simp
    with sim obtain dn i q r K where a: "a = Fetching dn i q r K True"
      by (cases a) (auto simp: wake_at_def)
    from wake_simulated [OF sim [unfolded a] g] Wake a g h show ?thesis
      by (auto simp: download_rel_def simp del: simulates.simps arrived.simps download_step.simps)
  qed
qed

lemma step_descends:
  assumes "download_rel sha1 content me js wr hist s a" "download_step x a = Some a'"
  shows "progress_left a' < progress_left a"
proof (cases a)
  case (Fetching dn i q r K w)
  with assms(1) have "simulates me sha1 content js wr s (Fetching dn i q r K w)"
    by (simp add: download_rel_def del: simulates.simps)
  note K = card_arrived [OF this]
  show ?thesis
  proof (cases x)
    case (Block j k chunks)
    with assms(2) Fetching have k: "k < r" "k \<notin> K" "a' = Fetching dn i q r (insert k K) True"
      by (auto split: if_splits)
    with K(2,5) have "K \<subset> {..<16}" by auto
    from psubset_card_mono [OF _ this] have "card K < 16" by simp
    with k K(1) Fetching show ?thesis by simp
  next
    case Wake
    with assms(2) Fetching show ?thesis by (auto split: if_splits list.splits)
  qed
qed (use assms(2) in simp)

interpretation piece_download: forward_simulation "play sha1 me" download_step
  "honest sha1 content me" "download_rel sha1 content me js wr" progress_left
  for sha1 me content js wr
  by unfold_locales (rule round_simulated, assumption+, rule step_descends)

section \<open>Progress\<close>

lemma honest_round:
  assumes "download_rel sha1 content me js wr hist s (Fetching dn i q r K w)"
  shows "\<exists>x. honest sha1 content me hist x s"
proof (cases w)
  case True
  with assms have "honest sha1 content me hist Wake s" by (simp add: download_rel_def wake_at_def)
  then show ?thesis by blast
next
  case False
  have sim: "simulates me sha1 content js wr s (Fetching dn i q r K w)" and h: "blocks hist = set dn \<times> {..<16} \<union> {i} \<times> K"
    and len: "length (content i) = 16 * 16384"
    using assms by (simp_all add: download_rel_def good_contents_def del: simulates.simps)
  obtain c where s: "peer_at me s = Inr c" "conn_at me dn i q r c" "pieces_at sha1 content dn i q r K (manager s)"
    "r = min 16 (card K + 5)" "card K < 16"
    using sim False by (auto simp: wake_at_def)
  obtain p where p: "get_piece i (manager s) = Inr p" "assembling (sha1 (content i)) (content i) r K p"
    "piece_ok p" "0 \<le> i" "i \<le> int_max"
    using s(3) pm_ok_get by (fastforce simp: pieces_at_def get_piece_eq)
  have "\<not> {..<r} \<subseteq> K"
    using card_mono [OF card_arrived(1) [OF sim], of "{..<r}"] s(4,5) by auto
  then obtain k where k: "k < r" "k \<notin> K" by auto
  have k16: "k < 16" using k(1) s(4) by simp
  obtain p' where p': "take_block (block_of_message (piece_message i (content i) k)) p = Inr p'"
    by (rule block_taken [OF p(3,2) k len p(4,5)])
  let ?bs = "frame (piece_message i (content i) k)"
  have st: "m_state c = Some READ_MESSAGE_SIZE" "need c = 4" "m_async c" "Uv_close \<notin> set (io_log c)"
    "peer.idle c []"
    using s(2) by (auto simp: conn_at_def serving_def framed_def reading_def peer.idle_def)
  have "may_occur sha1 (map (Received me) (map (\<lambda>b. [b]) ?bs)) s"
    by (rule bytes_may_occur [OF s(1) st(5,4) deliver_block [OF st(3) p(1) p' p(4,5) k16 len st(1,2)]])
  moreover have "requested i c k" using s(2) p(4,5) k(1) k16 by (simp add: conn_at_def)
  moreover have "(i, k) \<notin> blocks hist" using h k(2) card_arrived(6) [OF sim] by simp
  moreover have "concat (map (\<lambda>b. [b]) ?bs) = ?bs" by simp
  ultimately have "honest sha1 content me hist (Block i k (map (\<lambda>b. [b]) ?bs)) s"
    using s(1) p(4,5) k16 by simp
  then show ?thesis by blast
qed

section \<open>The start and the end of a download\<close>

text \<open>The wake-up for piece \<open>i\<close> is pending, the rest of the pieces is in the work queue.\<close>

definition download_start ::
  "(byte list \<Rightarrow> byte list) \<Rightarrow> (int \<Rightarrow> byte list) \<Rightarrow> nat \<Rightarrow> int \<Rightarrow> int list \<Rightarrow> session \<Rightarrow> bool" where
  "download_start sha1 content me i q s =
     (distinct (i # q) \<and> m_work_queue (manager s) = q \<and> pm_ok (manager s) \<and> n_pieces (manager s) \<le> int_max \<and>
      (\<forall>j \<in> set (i # q). unasked sha1 content (manager s) j) \<and>
      (\<exists>c. peer_at me s = Inr c \<and> serving me (set (i # q)) c \<and> m_curr_piece c = -1 \<and>
         (\<forall>j k. 0 \<le> j \<and> j \<le> int_max \<and> k < 16 \<longrightarrow> \<not> requested j c k)) \<and>
      async_pending (common s) \<and>
      async_data (common s) = Some \<lparr>sp_index = i, sp_peer = me, sp_loop = True\<rparr>)"

lemma start_simulates:
  assumes "download_start sha1 content me i q s" "good_contents sha1 content"
  shows "download_rel sha1 content me (i # q) (write_reqs s) [] s (Fetching [] i q 0 {} True)"
proof -
  note d = assms(1) [unfolded download_start_def]
  obtain p where p: "get_piece i (manager s) = Inr p" "fresh_piece (sha1 (content i)) p"
    using d by (auto simp: unasked_def)
  have "piece_ok p" using d pm_ok_get p(1) by blast
  then have "pieces_at sha1 content [] i q 0 {} (manager s)"
    using d p(1) fresh_assembling [OF _ p(2)] by (auto simp: pieces_at_def)
  then have "simulates me sha1 content (i # q) (write_reqs s) s (Fetching [] i q 0 {} True)"
    using d by (auto simp: conn_at_def wake_at_def told_def)
  with assms(2) show ?thesis by (simp add: download_rel_def del: simulates.simps)
qed

text \<open>What the download leaves: the pieces hold their contents, their writes are pending, the others know.\<close>

definition downloaded ::
  "(byte list \<Rightarrow> byte list) \<Rightarrow> (int \<Rightarrow> byte list) \<Rightarrow> nat \<Rightarrow> int list \<Rightarrow> int list \<Rightarrow> session \<Rightarrow> bool" where
  "downloaded sha1 content me js wr s =
     (write_reqs s = wr @ js \<and> (\<forall>j \<in> set js. stored sha1 content (manager s) j) \<and>
      told me js (m_peer_connections s))"

lemma stuck_downloaded:
  assumes "download_rel sha1 content me js wr hist s a" "\<forall>x. \<not> honest sha1 content me hist x s"
  shows "downloaded sha1 content me js wr s"
proof (cases a)
  case (Fetching dn i q r K w)
  with honest_round assms show ?thesis by blast
next
  case (Finished dn)
  with assms(1) show ?thesis by (auto simp: download_rel_def downloaded_def)
qed




text \<open>The end of a download.\<close>

lemma download_ends:
  assumes "good_contents sha1 content" "download_start sha1 content me i q s"
    "allowed_run (play sha1 me) (honest sha1 content me) [] rounds s"
  shows "length rounds \<le> 33 * length (i # q) \<and>
         (\<exists>s'. run_with (play sha1 me) rounds s = Inr s' \<and>
            ((\<exists>x. honest sha1 content me (rev rounds) x s') \<or>
             downloaded sha1 content me (i # q) (write_reqs s) s'))"
proof -
  from piece_download.run_simulated [OF start_simulates [OF assms(2,1)] assms(3)] obtain s' a where
    "run_with (play sha1 me) rounds s = Inr s'"
    "download_rel sha1 content me (i # q) (write_reqs s) (rev rounds) s' a"
    "length rounds + progress_left a \<le> progress_left (Fetching [] i q 0 {} True)" by auto
  with stuck_downloaded show ?thesis by fastforce
qed

section \<open>A sample download\<close>

text \<open>Two pieces of 256 KiB, two connections to remotes that have them.\<close>

definition sample_content :: "int \<Rightarrow> byte list" where
  "sample_content j = replicate (16 * 16384) (if j = 0 then 0 else 1)"

definition sample_pieces :: "piece list" where
  "sample_pieces = [sample_piece (16 * 16384) 0 0 0, (sample_piece (16 * 16384) 0 0 0)\<lparr>m_index := 1\<rparr>]"

definition sample_seed :: peer where
  "sample_seed = sample_peer\<lparr>m_choked := False, m_loop := True,
     peer_bitfield := \<lparr>m_bitfield = Some [Some 255], bf_size = 1\<rparr>\<rparr>"

definition sample_download :: session where
  "sample_download = \<lparr>m_peer_connections = [sample_seed, sample_seed],
     common = \<lparr>p_manager = \<lparr>m_pieces = sample_pieces, m_work_queue = [1]\<rparr>,
        async_data = Some \<lparr>sp_index = 0, sp_peer = 0, sp_loop = True\<rparr>, async_pending = True\<rparr>,
     write_reqs = [], saving = [], output_file = None\<rparr>"

lemma sample_good: "good_contents sample_sha1 sample_content"
proof -
  have "length (sample_content j) = 16 * 16384" for j by (simp only: sample_content_def length_replicate)
  then show ?thesis by (simp add: good_contents_def sample_sha1_def)
qed

lemma sample_digest: "sample_sha1 (sample_content j) = replicate 20 0"
proof -
  have "length (sample_content j) = 16 * 16384" by (simp only: sample_content_def length_replicate)
  then show ?thesis by (simp add: sample_sha1_def)
qed

lemma sample_pieces_ok: "set q \<subseteq> {0, 1} \<Longrightarrow> pm_ok \<lparr>m_pieces = sample_pieces, m_work_queue = q\<rparr>"
proof -
  assume q: "set q \<subseteq> {0, 1}"
  have ok: "piece_ok (sample_piece (16 * 16384) 0 0 0)"
    using sample_session_ok [of "16 * 16384" sample_seed 0 0 0] by (simp add: pm_ok_def sample_session_def)
  then have "piece_ok ((sample_piece (16 * 16384) 0 0 0)\<lparr>m_index := 1\<rparr>)" by (simp add: piece_ok_def)
  with ok q show ?thesis by (auto simp: pm_ok_def sample_pieces_def less_Suc_eq)
qed

lemma sample_unasked:
  assumes "m_pieces pm = sample_pieces" "j = 0 \<or> j = 1"
  shows "unasked sample_sha1 sample_content pm j"
proof -
  have "fresh_piece (replicate 20 0) (sample_piece (16 * 16384) 0 0 0)"
    "fresh_piece (replicate 20 0) ((sample_piece (16 * 16384) 0 0 0)\<lparr>m_index := 1\<rparr>)"
    by (simp_all add: fresh_piece_def sample_piece_def piece_default_def)
  with assms show ?thesis
    unfolding unasked_def sample_digest by (auto simp: get_piece_eq sample_pieces_def)
qed

lemma sample_serving: "serving 0 {0, 1} sample_seed"
proof -
  have "ready sample_seed [] = ready sample_peer []" by (simp add: ready_def sample_seed_def)
  moreover have "framed sample_seed = framed sample_peer"
    by (rule framed_cong) (simp_all add: sample_seed_def)
  moreover have "has_piece (peer_bitfield sample_seed) 0 = Inr True" "has_piece (peer_bitfield sample_seed) 1 = Inr True"
    by (simp_all add: sample_seed_def has_piece_def sdiv_smod_nonneg read_bytes_def mem_get_def init_bytes_def)
  ultimately show ?thesis
    using sample_peer_ready
    by (simp add: serving_def reading_def) (simp add: sample_seed_def sample_peer_def peer_fresh_eq)
qed

lemma sample_idle: "m_curr_piece sample_seed = -1" "io_log sample_seed = []"
  by (simp_all add: sample_seed_def sample_peer_def peer_fresh_eq)

lemma sample_download_start: "download_start sample_sha1 sample_content 0 0 [1] sample_download"
  using sample_serving sample_pieces_ok [of "[1]"] sample_unasked [of "manager sample_download"] sample_idle
  by (simp add: download_start_def sample_download_def peer_at_eq requested_def)
    (simp add: sample_pieces_def)

lemma sample_run:
  obtains rounds s where
    "allowed_run (play sample_sha1 0) (honest sample_sha1 sample_content 0) [] rounds sample_download"
    "run_with (play sample_sha1 0) rounds sample_download = Inr s"
    "\<forall>x. \<not> honest sample_sha1 sample_content 0 (rev rounds) x s"
    "downloaded sample_sha1 sample_content 0 [0, 1] [] s"
proof -
  note start = start_simulates [OF sample_download_start sample_good]
  from piece_download.maximal_run [OF start] obtain rounds s where r:
    "allowed_run (play sample_sha1 0) (honest sample_sha1 sample_content 0) [] rounds sample_download"
    "run_with (play sample_sha1 0) rounds sample_download = Inr s"
    "\<forall>x. \<not> honest sample_sha1 sample_content 0 (rev rounds) x s" by auto
  from piece_download.run_simulated [OF start r(1)] r(2) stuck_downloaded [OF _ r(3)]
  have "downloaded sample_sha1 sample_content 0 [0, 1] (write_reqs sample_download) s" by fastforce
  with r that show ?thesis by (simp add: sample_download_def)
qed

section \<open>Properties\<close>

text \<open>C3: the session implements the abstract download of the pieces in the work queue, for one honest
  remote and no events of other connections. In a round the remote sends one of the requested blocks, in
  whatever order, the message of the block cut into any reads of its own (no read spans two messages), or the
  wake-up callback runs, at any time between complete messages: no callback faults, every round is a step of the abstract
  download, and the session is in the abstract state: the current piece holds exactly the blocks
  that arrived, its requests are its first blocks, never more than five open, the pieces before
  it are complete, on their way to disk and announced, those after it untouched, and a wake-up
  is pending unless all that may be asked for is asked for.\<close>

theorem download_refines:
  assumes "good_contents sha1 content" "download_start sha1 content me i q s"
    "allowed_run (play sha1 me) (honest sha1 content me) [] rounds s"
  shows "\<exists>s' a. run_with (play sha1 me) rounds s = Inr s' \<and>
           spec_with download_step rounds (Fetching [] i q 0 {} True) = Some a \<and>
           simulates me sha1 content (i # q) (write_reqs s) s' a"
  using piece_download.run_simulated [OF start_simulates [OF assms(2,1)] assms(3)]
  by (auto simp: download_rel_def simp del: simulates.simps)

theorem download_refines_witness:
  "\<exists>s' a. run_with (play sample_sha1 0) [Wake] sample_download = Inr s' \<and>
     spec_with download_step [Wake] (Fetching [] 0 [1] 0 {} True) = Some a \<and>
     simulates 0 sample_sha1 sample_content [0, 1] (write_reqs sample_download) s' a"
proof (rule download_refines [OF sample_good sample_download_start])
  have "enabled Woken sample_download" by (simp add: sample_download_def)
  then show "allowed_run (play sample_sha1 0) (honest sample_sha1 sample_content 0) [] [Wake] sample_download"
    by (auto split: sum.splits)
qed

text \<open>C2: an honest remote, in the rounds of the refinement above, lets every download end: after at most 33 rounds for each piece (16 blocks
  and 17 wake-ups) nothing is left that may happen, and whenever nothing is left, every piece
  holds its content, the writes of the pieces to disk are pending in their order and every
  other connection was sent the announcement of every piece.\<close>

theorem download_completes:
  assumes "good_contents sha1 content" "download_start sha1 content me i q s"
    "allowed_run (play sha1 me) (honest sha1 content me) [] rounds s"
  shows "length rounds \<le> 33 * length (i # q) \<and>
         (\<exists>s'. run_with (play sha1 me) rounds s = Inr s' \<and>
            ((\<exists>x. honest sha1 content me (rev rounds) x s') \<or>
             downloaded sha1 content me (i # q) (write_reqs s) s'))"
  using assms by (rule download_ends)

theorem download_completes_witness:
  "\<exists>rounds s'. length rounds \<le> 66 \<and> run_with (play sample_sha1 0) rounds sample_download = Inr s' \<and>
     downloaded sample_sha1 sample_content 0 [0, 1] (write_reqs sample_download) s'"
proof -
  obtain rounds s' where r:
    "allowed_run (play sample_sha1 0) (honest sample_sha1 sample_content 0) [] rounds sample_download"
    "run_with (play sample_sha1 0) rounds sample_download = Inr s'"
    "\<forall>x. \<not> honest sample_sha1 sample_content 0 (rev rounds) x s'"
    using sample_run by metis
  with download_completes [OF sample_good sample_download_start r(1)] show ?thesis by fastforce
qed



text \<open>an unchoke message starts the download of the pieces in the work queue, for a connection to
  a remote that has them and is downloading nothing.\<close>

theorem unchoke_starts_download:
  assumes "peer_at me s = Inr c" "serving me (set (i # q)) (c\<lparr>m_choked := False\<rparr>)" "m_curr_piece c = -1"
    "\<forall>j k. \<not> requested j c k" "m_work_queue (manager s) = i # q" "distinct (i # q)" "pm_ok (manager s)"
    "n_pieces (manager s) \<le> int_max" "\<forall>j \<in> set (i # q). unasked sha1 content (manager s) j"
    "concat chunks = frame [message_id_byte UNCHOKE]" "may_occur sha1 (map (Received me) chunks) s"
  shows "\<exists>s'. run_events sha1 (map (Received me) chunks) s = Inr s' \<and>
           download_start sha1 content me i q s' \<and> write_reqs s' = write_reqs s"
proof -
  let ?c = "c\<lparr>m_choked := False\<rparr>"
  let ?sh = "wake i c (common s)\<lparr>p_manager := (manager s)\<lparr>m_work_queue := q\<rparr>\<rparr>"
  have c: "m_async c" "m_loop c" "self c = me" "m_state c = Some READ_MESSAGE_SIZE" "need c = 4"
    "framed c = framed ?c" "ready c [] = ready ?c []"
    using assms(2) framed_cong [of ?c c] by (auto simp: serving_def framed_def ready_def)
  have "deliver_message [message_id_byte UNCHOKE] (strip c, common s) =
      Some (await READ_MESSAGE_SIZE 4 (strip ?c), ?sh)"
    using c(1) assms(5)
    by (simp add: deliver_message_def deliver_unchoke_def wake_def strip_update to_message_id_def message_id_byte_def)
  then have fd: "feed (concat chunks) ([], strip c, common s) = Some ([], await READ_MESSAGE_SIZE 4 (strip ?c), ?sh)"
    using feed_frame [of "strip c" "[message_id_byte UNCHOKE]" "[]" "common s"] c(4,5) assms(10) by simp
  obtain c' where c': "run_reads on_receive on_remote_close chunks (c, common s) = Inr (c', ?sh)"
    "strip c' = await READ_MESSAGE_SIZE 4 (strip ?c)" "ready c' []"
    using feed_run [OF _ _ received_fit [OF assms(1,11)] fd] c(6,7) assms(2) by (auto simp: serving_def)
  let ?s = "set_peer me c' (s\<lparr>common := ?sh\<rparr>)"
  have run: "run_events sha1 (map (Received me) chunks) s = Inr ?s"
    unfolding run_received [OF assms(1)] using c'(1) by simp
  have log: "\<not> requested j c' k" for j k
    using strip_await(12) [OF c'(2)] assms(4) by (simp add: requested_def)
  have "pm_ok (manager ?s)" using assms(5,7) by (simp add: pm_ok_def)
  moreover have "m_pieces (manager ?s) = m_pieces (manager s)" by simp
  ultimately have "download_start sha1 content me i q ?s"
    unfolding download_start_def
    using peer_at_set_peer [OF assms(1)] serving_await [OF assms(2) c'(2,3)] strip_await(8) [OF c'(2)]
      assms(3,6,8,9) log c(2,3) unasked_cong [of "manager ?s" "manager s" sha1 content]
    by (simp add: wake_def async_send_def)
  with run show ?thesis by auto
qed

definition sample_choked :: session where
  "sample_choked = sample_download\<lparr>m_peer_connections := replicate 2 (sample_seed\<lparr>m_choked := True\<rparr>),
     common := \<lparr>p_manager = \<lparr>m_pieces = sample_pieces, m_work_queue = [0, 1]\<rparr>,
        async_data = None, async_pending = False\<rparr>\<rparr>"

theorem unchoke_starts_download_witness:
  "\<exists>s'. run_events sample_sha1 (map (Received 0) (map (\<lambda>b. [b]) (frame [message_id_byte UNCHOKE]))) sample_choked =
       Inr s' \<and> download_start sample_sha1 sample_content 0 0 [1] s' \<and> write_reqs s' = write_reqs sample_choked"
proof -
  let ?c = "sample_seed\<lparr>m_choked := True\<rparr>"
  have c: "?c\<lparr>m_choked := False\<rparr> = sample_seed" by (simp add: sample_seed_def)
  have at: "peer_at 0 sample_choked = Inr ?c"
    by (simp add: sample_choked_def peer_at_eq)
  have "framed ?c = framed sample_seed" by (rule framed_cong) simp_all
  moreover have "ready ?c [] = ready sample_seed []" by (simp add: ready_def)
  ultimately have st: "framed ?c" "ready ?c []" "m_async ?c" "m_state ?c = Some READ_MESSAGE_SIZE" "need ?c = 4"
    "Uv_close \<notin> set (io_log ?c)"
    using sample_serving by (auto simp: serving_def framed_def reading_def)
  have "deliver_message [message_id_byte UNCHOKE] (strip ?c, common sample_choked) \<noteq> None"
    using st(3) by (simp add: deliver_message_def deliver_unchoke_def to_message_id_def message_id_byte_def
        sample_choked_def)
  then obtain st' where fd: "feed (frame [message_id_byte UNCHOKE]) ([], strip ?c, common sample_choked) = Some st'"
    using feed_frame [of "strip ?c" "[message_id_byte UNCHOKE]" "[]" "common sample_choked"] st(4,5)
    by (fastforce split: option.splits)
  have "peer.idle ?c []" using st by (simp add: peer.idle_def)
  note may = bytes_may_occur [OF at this st(6) fd, of sample_sha1]
  have pm: "m_pieces (manager sample_choked) = sample_pieces" "pm_ok (manager sample_choked)"
    using sample_pieces_ok [of "[0, 1]"] by (simp_all add: sample_choked_def)
  have n: "n_pieces (manager sample_choked) = 2" by (simp add: sample_choked_def sample_pieces_def)
  show ?thesis
    by (rule unchoke_starts_download [OF at _ _ _ _ _ pm(2) _ _ _ may])
      (use sample_serving sample_unasked [OF pm(1)] sample_idle c n in
        \<open>auto simp: sample_choked_def requested_def\<close>)
qed

end
