(* ===== verification/Authentication.thy ===== *)
theory Authentication
  imports Session_Invariant Session_Runs "HOL-Library.Sublist"
begin

text \<open>
  Who may take part. A connection acts on messages only after its remote sent the greeting: the
  protocol identifier, the digest of the torrent and the peer id that the tracker announced. The
  history of a connection is the list of bytes received on it; the invariant relates it to the
  window of the receive buffer and the state of the handshake.
\<close>

section \<open>The greeting\<close>

definition greeting :: "peer_info \<Rightarrow> byte list \<Rightarrow> bool" where
  "greeting info h =
     (\<exists>r d. length r = 8 \<and> m_info_hash info = Some d \<and>
        prefix ([19] @ protocol_id @ r @ take 20 d @ take 20 (m_remote_id info)) h)"

lemma greeting_append: "greeting info h \<Longrightarrow> greeting info (h @ bs)"
  by (auto simp: greeting_def prefix_def)

text \<open>A connection in the handshake: it takes no part in the download.\<close>

definition stranger :: "peer \<Rightarrow> bool" where
  "stranger c = (m_choked c \<and> \<not> m_active c \<and> m_curr_piece c = -1)"

text \<open>\<open>h\<close> is the history, \<open>w\<close> its part in the window, \<open>sh0\<close> the shared state before the read.\<close>

definition shaking :: "byte list \<Rightarrow> byte list \<Rightarrow> peer \<Rightarrow> bool" where
  "shaking h w c =
     (stranger c \<and>
      (case m_state c of
         Some READ_PROTOCOL_ID \<Rightarrow> need c = 20 \<and> h = w
       | Some READ_INFO_HASH \<Rightarrow> need c = 28 \<and> h = [19] @ protocol_id @ w
       | Some READ_PEER_ID \<Rightarrow>
           need c = 20 \<and>
           (\<exists>r d. length r = 8 \<and> m_info_hash (m_peer_info c) = Some d \<and>
              h = [19] @ protocol_id @ r @ take 20 d @ w)
       | _ \<Rightarrow> False))"

lemma shaking_cong:
  "need c' = need c \<Longrightarrow> m_peer_info c' = m_peer_info c \<Longrightarrow> m_state c' = m_state c \<Longrightarrow>
   stranger c' = stranger c \<Longrightarrow> shaking h w c' = shaking h w c"
  by (auto simp: shaking_def split: option.splits p_state.splits)

lemma shaking_disconnect [simp]: "shaking h w (c\<lparr>m_disconnect := x\<rparr>) = shaking h w c"
  by (rule shaking_cong) (simp_all add: stranger_def)

definition tracked :: "byte list \<Rightarrow> shared \<Rightarrow> byte list \<Rightarrow> peer \<times> shared \<Rightarrow> bool" where
  "tracked h sh0 w cs =
     (greeting (m_peer_info (fst cs)) h \<or> shaking h w (fst cs) \<and> snd cs = sh0)"

section \<open>The stages of the handshake\<close>

text \<open>A stage sees exactly the bytes of its message.\<close>

lemma stage_message:
  assumes "window_at (m_recv_buffer p) w k" "get (m_recv_buffer p) = Inr (chunk, n)" "n = int m"
  obtains cs where "chunk = Some cs" "take m cs = map Some (take m w)" "m \<le> length cs" "m \<le> length w"
  using get_window [OF assms(1,2)] that unfolding assms(3) nat_int by blast

lemma protocol_id_shaking:
  assumes "shaking h w p" "window_at (m_recv_buffer p) w k" "read_protocol_id p = Inr (b, q)"
  shows "\<exists>w'. shaking h w' q \<and> window_at (m_recv_buffer q) w' k"
proof -
  consider "q = p" | "q = p\<lparr>m_disconnect := True\<rparr>"
    | chunk c0 rb where "m_state p = Some READ_PROTOCOL_ID" "is_message_finished (m_recv_buffer p)"
        "get (m_recv_buffer p) = Inr (chunk, 20)" "read_bytes (the chunk) 0 1 = Inr c0" "sint (hd c0) = 19"
        "read_bytes (the chunk) 1 19 = Inr protocol_id" "reset 28 (m_recv_buffer p) = Inr rb"
        "q = p\<lparr>m_state := Some READ_INFO_HASH, m_recv_buffer := rb\<rparr>"
    using assms(3) by (auto simp: read_protocol_id_def Let_def split: if_splits)
  then show ?thesis
  proof cases
    case 3
    obtain cs where cs: "chunk = Some cs" "take 20 cs = map Some (take 20 w)" "20 \<le> length cs" "20 \<le> length w"
      using stage_message [OF assms(2) 3(3), of 20] by auto
    have "read_bytes cs 0 1 = Inr (take 1 (take 20 w))" "read_bytes cs 1 19 = Inr (take 19 (drop 1 (take 20 w)))"
      using prefix_read [OF cs(2,3), of 0 1] prefix_read [OF cs(2,3), of 1 19] by simp_all
    with 3(4-6) cs(1) have r: "c0 = take 1 w" "take 19 (drop 1 (take 20 w)) = protocol_id" by simp_all
    have "(of_int (sint (hd c0)) :: byte) = hd c0" by simp
    then have "hd c0 = 19" unfolding 3(5) by simp
    then have "take 20 w = [19] @ protocol_id"
      using r cs(4) by (cases w) (simp_all add: numeral_eq_Suc)
    then have w: "w = [19] @ protocol_id @ drop 20 w" using append_take_drop_id [of 20 w] by simp
    have need: "need p = 20" "h = w" "stranger p" using assms(1) 3(1) by (auto simp: shaking_def)
    have "shaking h (drop 20 w) q"
      using need w reset_window(2) [OF assms(2) 3(2) _ 3(7)] by (simp add: shaking_def 3(8) stranger_def)
    moreover have "window_at rb (drop 20 w) k"
      using reset_window(1) [OF assms(2) 3(2) _ 3(7)] need(1) by simp
    ultimately show ?thesis unfolding 3(8) by auto
  qed (use assms(1,2) in auto)
qed

lemma info_hash_shaking:
  assumes "shaking h w p" "window_at (m_recv_buffer p) w k" "read_info_hash p = Inr (b, q)"
  shows "\<exists>w'. shaking h w' q \<and> window_at (m_recv_buffer q) w' k"
proof -
  consider "q = p" | "q = p\<lparr>m_disconnect := True\<rparr>"
    | chunk d rb where "m_state p = Some READ_INFO_HASH" "is_message_finished (m_recv_buffer p)"
        "get (m_recv_buffer p) = Inr (chunk, 28)" "hash_set (drop 8 (the chunk)) 20 info_hash_default = Inr d"
        "\<not> hash_neq (m_info_hash (m_peer_info p)) d" "reset 20 (m_recv_buffer p) = Inr rb"
        "q = p\<lparr>m_state := Some READ_PEER_ID, m_recv_buffer := rb\<rparr>"
    using assms(3) by (auto simp: read_info_hash_def Let_def split: if_splits)
  then show ?thesis
  proof cases
    case 3
    obtain cs where cs: "chunk = Some cs" "take 28 cs = map Some (take 28 w)" "28 \<le> length cs" "28 \<le> length w"
      using stage_message [OF assms(2) 3(3), of 28] by auto
    have "take 20 (drop 8 cs) = map Some (take 20 (drop 8 w))"
      using drop_take_map_Some [OF cs(2), of 8] by (simp add: drop_take)
    then have "d = Some (take 20 (drop 8 w))"
      using 3(4) cs(1) by (auto simp: hash_set_def read_bytes_eq inj_map_eq_map)
    then obtain e where e: "m_info_hash (m_peer_info p) = Some e" "take 20 e = take 20 (drop 8 w)"
      using 3(5) by (auto simp: hash_neq_def hash_eq_def split: option.splits)
    have need: "need p = 28" "h = [19] @ protocol_id @ w" "stranger p"
      using assms(1) 3(1) by (auto simp: shaking_def)
    have "w = take 8 w @ take 20 e @ drop 28 w"
      using append_take_drop_id [of 8 w] append_take_drop_id [of 20 "drop 8 w"] e(2) by simp
    then have h: "h = [19] @ protocol_id @ take 8 w @ take 20 e @ drop 28 w" using need(2) by simp
    have "shaking h (drop 28 w) q"
      using need(3) cs(4) e(1) h reset_window(2) [OF assms(2) 3(2) _ 3(6)]
      unfolding shaking_def 3(7) stranger_def by (auto intro!: exI [of _ "take 8 w"])
    moreover have "window_at rb (drop 28 w) k"
      using reset_window(1) [OF assms(2) 3(2) _ 3(6)] need(1) by simp
    ultimately show ?thesis unfolding 3(7) by auto
  qed (use assms(1,2) in auto)
qed

lemma peer_id_shaking:
  assumes "shaking h w p" "window_at (m_recv_buffer p) w k" "read_peer_id p = Inr (b, q)"
  shows "greeting (m_peer_info q) h \<or> (\<exists>w'. shaking h w' q \<and> window_at (m_recv_buffer q) w' k)"
proof -
  consider "q = p" | "q = p\<lparr>m_disconnect := True\<rparr>"
    | chunk bs where "m_state p = Some READ_PEER_ID" "get (m_recv_buffer p) = Inr (chunk, 20)"
        "read_bytes (the chunk) 0 20 = Inr bs" "mem_get (m_remote_id (m_peer_info p)) 0 20 = Inr bs"
        "m_peer_info q = m_peer_info p"
  proof (cases "m_state p = Some READ_PEER_ID \<and> is_message_finished (m_recv_buffer p)")
    case True
    then obtain chunk bs rid where r: "get (m_recv_buffer p) = Inr (chunk, 20)" "read_bytes (the chunk) 0 20 = Inr bs"
      "mem_get (m_remote_id (m_peer_info p)) 0 20 = Inr rid"
      "(if bs \<noteq> rid then Inr (True, p\<lparr>m_disconnect := True\<rparr>)
        else bindE (reset 4 (m_recv_buffer p)) (\<lambda>rb. Inr (False, p\<lparr>m_active := True,
          m_state := Some READ_MESSAGE_SIZE, m_recv_buffer := rb\<rparr>))) = Inr (b, q)"
      using assms(3) by (simp add: read_peer_id_def) blast
    show ?thesis
    proof (cases "bs = rid")
      case True
      with r have "m_peer_info q = m_peer_info p" by auto
      with that(3) [OF _ r(1,2)] r(3) \<open>m_state p = _ \<and> _\<close> True show ?thesis by simp
    next
      case False
      with r(4) that(2) show ?thesis by simp
    qed
  next
    case False
    with assms(3) that(1) show ?thesis by (auto simp: read_peer_id_def split: if_splits)
  qed
  then show ?thesis
  proof cases
    case 3
    obtain cs where cs: "chunk = Some cs" "take 20 cs = map Some (take 20 w)" "20 \<le> length cs" "20 \<le> length w"
      using stage_message [OF assms(2) 3(2), of 20] by auto
    have "read_bytes cs 0 20 = Inr (take 20 w)"
      using prefix_read [OF cs(2,3), of 0 20] by simp
    then have id: "take 20 w = take 20 (m_remote_id (m_peer_info p))"
      using 3(3,4) cs(1) by (simp add: mem_get_eq)
    obtain r d where r: "length r = 8" "m_info_hash (m_peer_info p) = Some d"
      "h = [19] @ protocol_id @ r @ take 20 d @ w"
      using assms(1) 3(1) by (auto simp: shaking_def)
    have "prefix ([19] @ protocol_id @ r @ take 20 d @ take 20 (m_remote_id (m_peer_info p))) h"
      unfolding r(3) id [symmetric] by (simp add: take_is_prefix)
    with r(1,2) 3(5) show ?thesis by (auto simp: greeting_def)
  qed (use assms(1,2) in auto)
qed

lemma size_shaking:
  assumes "shaking h w p" "read_message_size p = Inr (b, q)"
  shows "q = p"
proof -
  have "m_state p \<noteq> Some READ_MESSAGE_SIZE" using assms(1) by (auto simp: shaking_def)
  with assms(2) show ?thesis by (simp add: read_message_size_def)
qed

text \<open>The stages and the message handlers keep the relation.\<close>

definition follows :: "byte list \<Rightarrow> shared \<Rightarrow> int \<Rightarrow> peer \<times> shared \<Rightarrow> bool" where
  "follows h sh0 k cs = (\<exists>w. tracked h sh0 w cs \<and> window_at (m_recv_buffer (fst cs)) w k)"

lemma follows_handled: "follows h sh0 k (p, sh) \<Longrightarrow> greeting (m_peer_info p) h \<Longrightarrow> handled p k q \<Longrightarrow> follows h sh0 k (q, sh')"
  by (auto simp: follows_def tracked_def handled_def windowed_def)

lemma stage_follows:
  assumes "follows h sh0 k (p, sh)" "\<And>b q. f p = Inr (b, q) \<Longrightarrow> handled p k q"
    "\<And>w b q. shaking h w p \<Longrightarrow> window_at (m_recv_buffer p) w k \<Longrightarrow> f p = Inr (b, q) \<Longrightarrow>
       greeting (m_peer_info q) h \<or> (\<exists>w'. shaking h w' q \<and> window_at (m_recv_buffer q) w' k)"
    "f p = Inr (b, q)"
  shows "follows h sh0 k (q, sh)"
proof -
  obtain w where w: "tracked h sh0 w (p, sh)" "window_at (m_recv_buffer p) w k"
    using assms(1) by (auto simp: follows_def)
  have h: "handled p k q" by (rule assms(2) [OF assms(4)])
  show ?thesis
  proof (cases "greeting (m_peer_info p) h")
    case True
    from follows_handled [OF assms(1) True h] show ?thesis .
  next
    case False
    then have s: "shaking h w p" "sh = sh0" using w(1) by (auto simp: tracked_def)
    from assms(3) [OF s(1) w(2) assms(4)] show ?thesis
    proof
      assume "greeting (m_peer_info q) h"
      with h show ?thesis by (auto simp: follows_def tracked_def handled_def windowed_def)
    next
      assume "\<exists>w'. shaking h w' q \<and> window_at (m_recv_buffer q) w' k"
      with s(2) show ?thesis by (auto simp: follows_def tracked_def)
    qed
  qed
qed

lemma follows_windowed: "follows h sh0 k (p, sh) \<Longrightarrow> windowed (m_recv_buffer p) k"
  by (auto simp: follows_def windowed_def)

lemma stages_follow:
  assumes "follows h sh0 k (p, sh)"
    "chain (chain (chain (read_protocol_id p) read_info_hash) read_peer_id) read_message_size = Inr (b, q)"
  shows "follows h sh0 k (q, sh)"
  using assms(2,1)
proof (rule stages_keep)
  note handled = stage_handled [OF follows_windowed]
  fix q b q'
  assume q: "follows h sh0 k (q, sh)"
  show "read_protocol_id q = Inr (b, q') \<Longrightarrow> follows h sh0 k (q', sh)"
    using stage_follows [OF q, of read_protocol_id] handled(1) [OF q] protocol_id_shaking by blast
  show "read_info_hash q = Inr (b, q') \<Longrightarrow> follows h sh0 k (q', sh)"
    using stage_follows [OF q, of read_info_hash] handled(2) [OF q] info_hash_shaking by blast
  show "read_peer_id q = Inr (b, q') \<Longrightarrow> follows h sh0 k (q', sh)"
    using stage_follows [OF q, of read_peer_id] handled(3) [OF q] peer_id_shaking by blast
  show "read_message_size q = Inr (b, q') \<Longrightarrow> follows h sh0 k (q', sh)"
    using stage_follows [OF q, of read_message_size] handled(4) [OF q] size_shaking by blast
qed

lemma on_receive_follows:
  assumes "follows h sh0 k (p, sh)" "shared_ok n sh" "self p < n" "on_receive r (p, sh) = Inr (p', sh')"
  shows "follows h sh0 k (p', sh')"
proof -
  obtain ret q where q:
    "chain (chain (chain (read_protocol_id p) read_info_hash) read_peer_id) read_message_size =
      Inr (ret, q)"
    "(if ret then Inr (q, sh) else read_message (q, sh)) = Inr (p', sh')"
    using assms(4) unfolding on_receive_def fst_conv snd_conv by auto
  have f: "follows h sh0 k (q, sh)" by (rule stages_follow [OF assms(1) q(1)])
  consider "p' = q" "sh' = sh"
    | "m_state q = Some READ_MESSAGE" "is_message_finished (m_recv_buffer q)" "do_message (q, sh) = Inr (p', sh')"
    using q(2) by (auto simp: read_message_def split: if_splits)
  then show ?thesis
  proof cases
    case 1
    with f show ?thesis by simp
  next
    case 2
    have "greeting (m_peer_info q) h" using f 2(1) by (auto simp: follows_def tracked_def shaking_def)
    moreover have "self q < n"
      using stages_handled [OF follows_windowed [OF assms(1)] q(1)] assms(3) by (simp add: handled_def)
    then have "handled q k p'"
      using do_message_handled [OF follows_windowed [OF f] 2(2) assms(2) _ 2(3)] by blast
    ultimately show ?thesis using follows_handled [OF f] by blast
  qed
qed

text \<open>The contract of the transport half, with the history.\<close>

interpretation history: transport_invariant on_receive
  "\<lambda>w cs. conn_inv n m i cur cs \<and> tracked h sh0 w cs \<and> m_peer_info (fst cs) = info" for n m i cur h sh0 info
proof unfold_locales
  fix c c' :: peer and s s' :: shared and k r
  fix w :: "byte list"
  let ?inv = "\<lambda>w cs. conn_inv n m i cur cs \<and> tracked h sh0 w cs \<and> m_peer_info (fst cs) = info"
  assume a: "?inv w (c, s)" "window_at (m_recv_buffer c) w k" "on_receive r (c, s) = Inr (c', s')"
  then have ok: "shared_ok n s" "self c < n" "follows h sh0 k (c, s)" "windowed (m_recv_buffer c) k"
    by (auto simp: conn_inv_def follows_def windowed_def)
  from on_receive_handled [OF ok(4,1,2) a(3)] have h: "handled c k c'" "shared_ok n s'"
    "length (m_pieces (p_manager s')) = length (m_pieces (p_manager s))" by simp_all
  have "conn_inv n m i cur (c', s')"
    using handled_conn_inv [OF _ h(1,2)] a(1) h(3) by (auto simp: conn_inv_def)
  moreover obtain w' where "tracked h sh0 w' (c', s')" "window_at (m_recv_buffer c') w' k"
    using on_receive_follows [OF ok(3,1,2) a(3)] by (auto simp: follows_def)
  moreover have "m_peer_info c' = info" using h(1) a(1) by (simp add: handled_def)
  ultimately show "\<exists>w'. ?inv w' (c', s') \<and> window_at (m_recv_buffer c') w' k" by auto
qed (auto simp: conn_inv_def tracked_def shaking_def stranger_def split: option.splits p_state.splits)

end
