(* ===== verification/Session_Authentication.thy ===== *)
theory Session_Authentication
  imports Authentication Session_Opening
begin

text \<open>
  The greeting at the level of the session: in every run from the start, a connection that has left
  the handshake has received the greeting of its remote, and as long as no connection has, the
  session is as it was started, whatever the remotes send and in whatever order the events come.
\<close>

section \<open>What the wake-up leaves of a connection\<close>

definition touched :: "peer \<Rightarrow> peer \<Rightarrow> bool" where
  "touched c c' =
     (m_peer_info c' = m_peer_info c \<and> m_state c' = m_state c \<and> m_choked c' = m_choked c \<and>
      m_active c' = m_active c \<and> m_socket c' = m_socket c \<and>
      (Uv_close \<in> set (io_log c) \<longrightarrow> Uv_close \<in> set (io_log c')) \<and>
      (m_choked c \<longrightarrow> m_curr_piece c' = m_curr_piece c) \<and>
      (\<forall>w. ready c w \<longrightarrow> ready c' w \<and> need c' = need c))"

definition touches :: "session \<Rightarrow> session \<Rightarrow> bool" where
  "touches s s' = list_all2 touched (m_peer_connections s) (m_peer_connections s')"

lemma touched_refl [simp]: "touched c c"
  by (simp add: touched_def)

lemma touched_trans: "touched c d \<Longrightarrow> touched d e \<Longrightarrow> touched c e"
  by (auto simp: touched_def)

lemma touches_refl: "m_peer_connections s' = m_peer_connections s \<Longrightarrow> touches s s'"
  by (simp add: touches_def list_all2_refl)

lemma touches_trans: "touches s t \<Longrightarrow> touches t u \<Longrightarrow> touches s u"
  unfolding touches_def by (rule list_all2_trans [OF touched_trans])

lemma touches_set_peer:
  assumes "touches s s'" "i < length (m_peer_connections s')" "touched (m_peer_connections s' ! i) c"
  shows "touches s (set_peer i c s')"
proof -
  have "touches s' (set_peer i c s')"
    using assms(2,3) by (auto simp: touches_def list_all2_conv_all_nth nth_list_update)
  with assms(1) show ?thesis by (rule touches_trans)
qed

lemma touched_log: "touched c (c\<lparr>io_log := io_log c @ l\<rparr>)"
  by (simp add: touched_def ready_def)

lemma touched_curr: "\<not> m_choked c \<Longrightarrow> touched c (c\<lparr>m_curr_piece := x\<rparr>)"
  by (simp add: touched_def ready_def)

lemma touches_announce: "touches s (s\<lparr>m_peer_connections := announce me i (m_peer_connections s)\<rparr>)"
  using touched_log by (auto simp: touches_def list_all2_conv_all_nth announce_nth log_io_def)

lemma touched_setup_receive:
  assumes "setup_receive c = Inr c'"
  shows "touched c c'"
proof -
  have "ready c' w \<and> need c' = need c" if "ready c w" for w
    using setup_receive_window [OF ready_window [OF that] assms] by simp
  moreover have "m_peer_info c' = m_peer_info c" "m_state c' = m_state c" "m_choked c' = m_choked c"
    "m_active c' = m_active c" "m_socket c' = m_socket c" "m_curr_piece c' = m_curr_piece c"
    "io_log c' = io_log c @ [Uv_read_start]"
    using assms by (auto simp: setup_receive_def log_io_def)
  ultimately show ?thesis by (simp add: touched_def)
qed

lemma fetch_touches:
  assumes "session_ok s" "0 \<le> index" "index < n_pieces (manager s)" "peer_at me s = Inr c" "\<not> m_choked c"
    "fetch_piece sha1 me index s = Inr (ans, s')"
  shows "touches s s'"
proof -
  define i where "i = (if m_curr_piece c = -1 then index else m_curr_piece c)"
  define s1 where "s1 = (if m_curr_piece c = -1 then s else push_work index s)"
  define c1 where "c1 = c\<lparr>m_curr_piece := i\<rparr>"
  define s2 where "s2 = set_peer me c1 s1"
  have s1: "m_peer_connections s1 = m_peer_connections s" by (simp add: s1_def)
  have me: "me < length (m_peer_connections s)" "m_peer_connections s ! me = c"
    using assms(4) by (auto simp: peer_at_eq)
  have free: "\<not> m_choked c1" using assms(5) by (simp add: c1_def)
  have s2: "touches s s2" "me < length (m_peer_connections s2)" "m_peer_connections s2 ! me = c1"
    using touches_set_peer [OF touches_refl [OF s1], of me c1] touched_curr [OF assms(5)] me s1
    by (simp_all add: s2_def c1_def)
  from assms(6,4) i_def s1_def c1_def s2_def show ?thesis
  proof (cases rule: fetch_piece_cases)
    case (idle p)
    with s2 show ?thesis by simp
  next
    case (verified p x)
    have x: "x = s2\<lparr>m_peer_connections := announce me i (m_peer_connections s2)\<rparr>"
      using verified(3) by (simp add: send_have_eq)
    have "m_peer_connections x ! me = c1" using s2 by (simp add: x announce_nth)
    with touches_set_peer [OF touches_trans [OF s2(1) touches_announce [of s2 me i]], of me] touched_curr [OF free] s2(2)
    show ?thesis by (simp add: verified(5) x)
  next
    case (failed p)
    have "touches s (push_work i s2)" using touches_trans [OF s2(1) touches_refl] by simp
    from touches_set_peer [OF this, of me] touched_curr [OF free] s2 show ?thesis by (simp add: failed)
  next
    case (requested p p' c' c'')
    have pk: "piece_ok p" "m_backlog p \<le> 5"
      using pieces_ok_get [OF session_ok_pieces [OF assms(1)] requested(1)] by auto
    then have "piece_length p = m_piece_length p"
      by (auto simp: piece_ok_def piece_length_def intro!: narrow32_id)
    from request_blocks_keeps [OF requested(2) pk this] obtain l where "c' = c1\<lparr>io_log := io_log c1 @ l\<rparr>"
      by auto
    then have "touched c1 c'" using touched_log by simp
    from touched_trans [OF this touched_setup_receive [OF requested(3)]] have "touched c1 c''" .
    moreover have "touches s (set_manager (put_piece i p' (manager s2)) s2)"
      using touches_trans [OF s2(1) touches_refl] by simp
    ultimately show ?thesis using touches_set_peer s2 by (simp add: requested(5))
  qed
qed

lemma try_download_touches:
  assumes "session_ok s" "try_download sha1 s = Inr s'"
  shows "touches s s'"
proof -
  obtain d where d: "async_data (common s) = Some d"
    using assms(2) by (auto simp: try_download_def split: option.splits)
  define s0 where "s0 = s\<lparr>common := (common s)\<lparr>async_data := None\<rparr>\<rparr>"
  have s0: "session_ok s0" "touches s s0"
    using assms(1) by (auto simp: s0_def session_ok_def shared_ok_def touches_refl)
  have ix: "0 \<le> sp_index d" "sp_index d < n_pieces (manager s0)"
    using assms(1) d by (auto simp: session_ok_def shared_ok_def s0_def)
  from assms(2) d s0_def show ?thesis
  proof (cases rule: try_download_cases)
    case queued
    with touches_trans [OF s0(2) touches_refl] show ?thesis by simp
  next
    case (fetched c ans)
    with fetch_touches [OF s0(1) ix fetched(1,2,4)] touches_trans [OF s0(2)] show ?thesis by blast
  next
    case (finished c ans s1 nxt q a)
    have t1: "touches s0 s1" by (rule fetch_touches [OF s0(1) ix finished(1,2,4)])
    from fetch_keeps [OF s0(1) ix finished(4)] finished(3)
    have s1: "session_ok s1" "0 \<le> ans" "ans < n_pieces (manager s1)" by (auto simp: same_shape_def)
    let ?s3 = "set_manager ((manager s1)\<lparr>m_work_queue := q\<rparr>) (s1\<lparr>write_reqs := write_reqs s1 @ [ans]\<rparr>)"
    have s3: "session_ok ?s3"
      using session_ok_queue [OF session_ok_write [OF s1], of q] finished(6) by simp
    have nxt: "0 \<le> nxt" "nxt < n_pieces (manager ?s3)"
      using queue_front_range [of "manager s1" nxt] session_ok_pieces [OF s1(1)] finished(5)
      by (auto simp: pieces_ok_def)
    obtain c1 where "peer_at (sp_peer d) ?s3 = Inr c1" "\<not> m_choked c1"
      using t1 finished(1,2) by (auto simp: touches_def list_all2_conv_all_nth peer_at_eq touched_def)
    from fetch_touches [OF s3 nxt this finished(7)] have "touches s1 s'" by (simp add: touches_def)
    with t1 s0(2) show ?thesis by (blast intro: touches_trans)
  qed
qed

section \<open>The invariant\<close>

text \<open>A connection with remote \<open>info\<close> and history \<open>h\<close>.\<close>

definition known :: "peer_info \<Rightarrow> byte list \<Rightarrow> peer \<Rightarrow> bool" where
  "known info h c =
     (m_peer_info c = info \<and>
      (greeting info h \<or>
       stranger c \<and> m_state c \<notin> {Some READ_MESSAGE_SIZE, Some READ_MESSAGE} \<and>
       (if m_socket c then Uv_close \<in> set (io_log c) \<or> (\<exists>w. ready c w \<and> shaking h w c) else h = [])))"

lemma known_touched:
  assumes "known info h c" "touched c c'"
  shows "known info h c'"
proof (cases "greeting info h")
  case True
  with assms show ?thesis by (simp add: known_def touched_def)
next
  case False
  then have k: "m_peer_info c = info" "stranger c" "m_state c \<notin> {Some READ_MESSAGE_SIZE, Some READ_MESSAGE}"
    "if m_socket c then Uv_close \<in> set (io_log c) \<or> (\<exists>w. ready c w \<and> shaking h w c) else h = []"
    using assms(1) by (simp_all add: known_def)
  have t: "m_peer_info c' = m_peer_info c" "m_state c' = m_state c" "m_socket c' = m_socket c" "stranger c'"
    "Uv_close \<in> set (io_log c) \<Longrightarrow> Uv_close \<in> set (io_log c')"
    using assms(2) k(2) by (auto simp: touched_def stranger_def)
  have "ready c' w \<and> shaking h w c'" if "ready c w" "shaking h w c" for w
  proof -
    have "ready c' w" "need c' = need c" using assms(2) that(1) by (auto simp: touched_def)
    with shaking_cong [of c' c h w] t(1,2,4) k(2) that(2) show ?thesis by simp
  qed
  then have "(\<exists>w. ready c w \<and> shaking h w c) \<Longrightarrow> (\<exists>w. ready c' w \<and> shaking h w c')" by blast
  with k t show ?thesis unfolding known_def by (auto split: if_splits)
qed

definition quiet :: "session \<Rightarrow> session \<Rightarrow> bool" where
  "quiet s0 s =
     (common s = common s0 \<and> write_reqs s = write_reqs s0 \<and> saving s = saving s0 \<and>
      output_file s = output_file s0)"

text \<open>\<open>H\<close> are the histories of the connections.\<close>

definition authenticated :: "session \<Rightarrow> peer_info list \<Rightarrow> (nat \<Rightarrow> byte list) \<Rightarrow> session \<Rightarrow> bool" where
  "authenticated s0 infos H s =
     (session_ok s \<and> length (m_peer_connections s) = length infos \<and>
      (\<forall>i < length infos. known (infos ! i) (H i) (m_peer_connections s ! i)) \<and>
      ((\<exists>i < length infos. greeting (infos ! i) (H i)) \<or> quiet s0 s))"

lemma known_connect:
  assumes "known info h c" "link_ok c" "\<not> m_socket c" "on_connect status c = Inr c'"
  shows "known info h c'"
  using assms(2-4)
proof (cases rule: on_connect_cases)
  case failed
  with assms(1) show ?thesis by simp
next
  case (greeted rb d hs)
  have same: "m_peer_info c' = m_peer_info c" "stranger c' = stranger c" "m_state c' = Some READ_PROTOCOL_ID"
    "m_socket c'"
    by (simp_all add: greeted(1) stranger_def)
  have "shaking [] [] c'" if "stranger c" using that same(2,3) greeted(3) by (simp add: shaking_def)
  with assms(1,3) same greeted(2) show ?thesis by (auto simp: known_def)
qed

lemma known_read:
  assumes "known info h c" "\<not> greeting info (h @ bs)" "reading c" "stream_data c = Some (off, sz)"
    "int (length bs) \<le> sz" "conn_inv n m i (m_curr_piece c) (c, sh)"
    "on_read on_receive on_remote_close (Inr bs) (c, sh) = Inr (c', sh')"
  shows "known info (h @ bs) c' \<and> sh' = sh"
proof -
  have "\<not> greeting info h" using assms(2) greeting_append by blast
  with assms(1,3) obtain w where w: "ready c w" "shaking h w c" "m_peer_info c = info"
    by (auto simp: known_def reading_def)
  have "shaking (h @ bs) (w @ bs) c"
    using w(2) by (auto simp: shaking_def split: option.splits p_state.splits)
  with assms(6) w(3) have "conn_inv n m i (m_curr_piece c) (c, sh) \<and> tracked (h @ bs) sh (w @ bs) (c, sh) \<and>
      m_peer_info (fst (c, sh)) = info"
    by (simp add: tracked_def)
  from history.read_keeps [OF this w(1) assms(4,5,7)] obtain w' where
    "conn_inv n m i (m_curr_piece c) (c', sh')" "tracked (h @ bs) sh w' (c', sh')" "m_peer_info c' = info"
    "ready c' w' \<or> Uv_close \<in> set (io_log c')" by auto
  with assms(2) show ?thesis by (auto simp: tracked_def known_def conn_inv_def shaking_def)
qed

lemma known_greeted_read:
  assumes "m_peer_info c = info" "conn_inv n m i (m_curr_piece c) (c, sh)" "ready c w"
    "stream_data c = Some (off, sz)" "int (length bs) \<le> sz" "greeting info h"
    "on_read on_receive on_remote_close (Inr bs) (c, sh) = Inr (c', sh')"
  shows "known info h c'"
proof -
  have "conn_inv n m i (m_curr_piece c) (c, sh) \<and> tracked h sh (w @ bs) (c, sh) \<and> m_peer_info (fst (c, sh)) = info"
    using assms(1,2,6) by (simp add: tracked_def)
  from history.read_keeps [OF this assms(3-5,7)] show ?thesis using assms(6) by (auto simp: known_def)
qed

lemma known_closed:
  assumes "known info h c" "on_read on_receive on_remote_close (Inl err) (c, sh) = Inr (c', sh')"
  shows "known info h c' \<and> (greeting info h \<or> sh' = sh)"
proof (cases "greeting info h")
  case True
  have "m_peer_info c' = m_peer_info c"
    using assms(2) by (auto simp: on_read_def on_remote_close_def Let_def split: if_splits)
  with True assms(1) show ?thesis by (simp add: known_def)
next
  case False
  then have c: "stranger c" "m_state c \<notin> {Some READ_MESSAGE_SIZE, Some READ_MESSAGE}" "m_peer_info c = info"
    "m_socket c \<or> h = []"
    using assms(1) by (auto simp: known_def split: if_splits)
  then have "c' = log_io Uv_close c" "sh' = sh"
    using assms(2) by (auto simp: on_read_def on_remote_close_def stranger_def log_io_def)
  with c show ?thesis by (auto simp: known_def stranger_def log_io_def)
qed

text \<open>One event.\<close>

lemma authenticated_step:
  assumes "authenticated s0 infos H s" "enabled ev s" "handle_event sha1 can_open ev s = Inr s'"
    "\<not> async_pending (common s0)" "write_reqs s0 = []" "saving s0 = []"
  shows "authenticated s0 infos (\<lambda>i. H i @ received_from i [ev]) s'"
proof -
  note a = assms(1) [unfolded authenticated_def]
  let ?H = "\<lambda>i. H i @ received_from i [ev]"
  let ?n = "length (m_peer_connections s)"
  have k: "session_ok s'" "length (m_peer_connections s') = length infos"
    using handle_event_keeps [OF _ assms(2,3)] a by (auto simp: same_shape_def)
  have mono: "greeting (infos ! i) (H i) \<Longrightarrow> greeting (infos ! i) (?H i)" for i by (rule greeting_append)
  have "(\<forall>i < ?n. known (infos ! i) (?H i) (m_peer_connections s' ! i)) \<and>
      ((\<exists>i < ?n. greeting (infos ! i) (?H i)) \<or> quiet s s' \<or> ev = Woken \<or> (\<exists>k. ev = Save_opened k \<or> ev = Save_written k))"
  proof (cases ev)
    case (Connected i status)
    obtain c c' where c: "peer_at i s = Inr c" "on_connect status c = Inr c'" "s' = set_peer i c' s"
      using assms(3) Connected by auto
    have "link_ok c" "\<not> m_socket c"
      using session_ok_peer [OF _ c(1)] a assms(2) Connected c(1)
      by (auto simp: peer_ok_def peer_at_eq Let_def)
    from known_connect [OF _ this c(2)] have "known (infos ! i) (H i) c'"
      using a c(1) by (simp add: peer_at_eq)
    with a c(1,3) Connected show ?thesis by (auto simp: nth_list_update quiet_def peer_at_eq)
  next
    case (Received j bs)
    obtain c c' sh where c: "peer_at j s = Inr c"
      "on_read on_receive on_remote_close (Inr bs) (c, common s) = Inr (c', sh)"
      "s' = set_peer j c' (s\<lparr>common := sh\<rparr>)"
      using assms(3) Received by (auto simp: read_event_def)
    have j: "j < ?n" "m_peer_connections s ! j = c" using c(1) by (auto simp: peer_at_eq)
    obtain off sz where d: "stream_data c = Some (off, sz)" "int (length bs) \<le> sz" "reading c"
      using assms(2) Received j by (auto simp: Let_def split: option.splits)
    have pc: "peer_ok j (n_pieces (manager s)) c" using session_ok_peer [OF _ c(1)] a by blast
    then have inv: "conn_inv ?n (length (m_pieces (manager s))) j (m_curr_piece c) (c, common s)"
      using a j(1) d(3) by (auto simp: conn_inv_def peer_ok_def session_ok_def reading_def)
    obtain w where w: "ready c w" using pc d(3) by (auto simp: peer_ok_def link_ok_def reading_def)
    have kn: "known (infos ! j) (H j) c" using a j by auto
    have hj: "?H j = H j @ bs" "\<And>i. i \<noteq> j \<Longrightarrow> ?H i = H i" using Received by simp_all
    have "known (infos ! j) (H j @ bs) c' \<and> (greeting (infos ! j) (H j @ bs) \<or> sh = common s)"
    proof (cases "greeting (infos ! j) (H j @ bs)")
      case True
      from known_greeted_read [OF _ inv w d(1,2) True c(2)] kn True show ?thesis by (simp add: known_def)
    next
      case False
      from known_read [OF kn False d(3,1,2) inv c(2)] show ?thesis by simp
    qed
    with a j(1) hj c(3) show ?thesis
      by (auto simp: nth_list_update quiet_def set_peer_def)
  next
    case (Read_failed j err)
    obtain c c' sh where c: "peer_at j s = Inr c"
      "on_read on_receive on_remote_close (Inl err) (c, common s) = Inr (c', sh)"
      "s' = set_peer j c' (s\<lparr>common := sh\<rparr>)"
      using assms(3) Read_failed by (auto simp: read_event_def)
    have j: "j < ?n" "m_peer_connections s ! j = c" using c(1) by (auto simp: peer_at_eq)
    then have "known (infos ! j) (H j) c" using a by auto
    from known_closed [OF this c(2)] a j(1) c(3) Read_failed show ?thesis
      by (auto simp: nth_list_update quiet_def set_peer_def)
  next
    case Woken
    let ?s = "s\<lparr>common := (common s)\<lparr>async_pending := False\<rparr>\<rparr>"
    have "session_ok ?s" using a by (simp add: session_ok_def shared_ok_def split: option.splits)
    then have "touches ?s s'" using try_download_touches [of ?s sha1 s'] assms(3) Woken by simp
    then show ?thesis using a Woken known_touched by (auto simp: touches_def list_all2_conv_all_nth)
  next
    case (Save_opened k)
    with assms(3) a show ?thesis by (auto simp: save_opened_def open_output_def Let_def split: if_splits)
  next
    case (Save_written k)
    with assms(3) a show ?thesis by (auto simp: save_written_def Let_def)
  qed
  moreover have "ev \<noteq> Woken" "ev \<noteq> Save_opened k" "ev \<noteq> Save_written k" if "quiet s0 s" for k
    using that assms(2,4-6) by (auto simp: quiet_def)
  moreover have "quiet s0 s \<Longrightarrow> quiet s s' \<Longrightarrow> quiet s0 s'" by (simp add: quiet_def)
  ultimately show ?thesis using k a mono unfolding authenticated_def by metis
qed

lemma authenticated_run:
  assumes "authenticated s0 infos H s" "run_events sha1 evs s = Inr s'" "may_occur sha1 evs s"
    "\<not> async_pending (common s0)" "write_reqs s0 = []" "saving s0 = []"
  shows "authenticated s0 infos (\<lambda>i. H i @ received_from i evs) s'"
  using assms(1-3)
proof (induction evs arbitrary: s H)
  case (Cons ev evs)
  then obtain s1 where s1: "handle_event sha1 True ev s = Inr s1" "run_events sha1 evs s1 = Inr s'"
    "enabled ev s" "may_occur sha1 evs s1"
    by auto
  from authenticated_step [OF Cons.prems(1) s1(3,1) assms(4-6)]
  have "authenticated s0 infos (\<lambda>i. H i @ received_from i [ev]) s1" .
  from Cons.IH [OF this s1(2,4)] show ?case
    using received_from_append [of _ "[ev]" evs] by simp
qed simp

section \<open>From the start\<close>

text \<open>A connection copies the first 20 bytes of the digest; the greeting is the same.\<close>

definition trimmed :: "peer_info \<Rightarrow> peer_info" where
  "trimmed info = info\<lparr>m_info_hash := map_option (take 20) (m_info_hash info)\<rparr>"

lemma greeting_trimmed [simp]: "greeting (trimmed info) h = greeting info h"
  by (auto simp: greeting_def trimmed_def)

lemma greeting_nil [simp]: "\<not> greeting info []"
  by (simp add: greeting_def)

lemma authenticated_start:
  assumes "session_start conv ip_ver len hashes infos = Inr s0" "0 \<le> len" "len \<le> int_max"
  shows "authenticated s0 (map trimmed infos) (\<lambda>_. []) s0" "\<not> async_pending (common s0)" "write_reqs s0 = []"
    "saving s0 = []" "output_file s0 = None"
proof -
  obtain pm where s0: "common s0 = \<lparr>p_manager = pm, async_data = None, async_pending = False\<rparr>"
    "write_reqs s0 = []" "saving s0 = []" "output_file s0 = None" "length (m_peer_connections s0) = length infos"
    "\<And>i. i < length infos \<Longrightarrow> standby i (infos ! i) (m_peer_connections s0 ! i)"
    using session_start_state [OF assms(1)] by metis
  then show "\<not> async_pending (common s0)" "write_reqs s0 = []" "saving s0 = []" "output_file s0 = None" by simp_all
  have "known (trimmed (infos ! i)) [] (m_peer_connections s0 ! i)" if "i < length infos" for i
    using standby_fields [OF s0(6) [OF that]] by (auto simp: known_def trimmed_def stranger_def)
  with session_start_ok [OF assms] show "authenticated s0 (map trimmed infos) (\<lambda>_. []) s0"
    by (simp add: authenticated_def quiet_def)
qed

lemma authenticated_reached:
  assumes "session_start conv ip_ver len hashes infos = Inr s0" "0 \<le> len" "len \<le> int_max"
    "run_events sha1 evs s0 = Inr s" "may_occur sha1 evs s0"
  shows "authenticated s0 (map trimmed infos) (\<lambda>i. received_from i evs) s"
  using authenticated_run [OF authenticated_start(1) [OF assms(1-3)] assms(4,5) authenticated_start(2-4) [OF assms(1-3)]]
  by simp

section \<open>Properties\<close>

text \<open>C7: in every run from the start, a connection takes part in the download (is active, is unchoked, has
  a current piece, or waits for messages) only after it received, from its first byte on, the protocol
  identifier, the digest of the torrent and the peer id that the tracker announced for it.\<close>

theorem only_greeted_take_part:
  assumes "session_start conv ip_ver len hashes infos = Inr s0" "0 \<le> len" "len \<le> int_max"
    "run_events sha1 evs s0 = Inr s" "may_occur sha1 evs s0" "peer_at i s = Inr c"
    "m_active c \<or> \<not> m_choked c \<or> m_curr_piece c \<noteq> -1 \<or> m_state c \<in> {Some READ_MESSAGE_SIZE, Some READ_MESSAGE}"
  shows "i < length infos \<and> greeting (infos ! i) (received_from i evs)"
proof -
  have a: "authenticated s0 (map trimmed infos) (\<lambda>i. received_from i evs) s"
    by (rule authenticated_reached [OF assms(1-5)])
  then have i: "i < length infos" "m_peer_connections s ! i = c"
    using assms(6) by (auto simp: authenticated_def peer_at_eq)
  with a have "known (trimmed (infos ! i)) (received_from i evs) c" by (auto simp: authenticated_def)
  with assms(7) i(1) show ?thesis by (auto simp: known_def stranger_def)
qed

text \<open>C8: as long as no remote sent the greeting expected of it, whatever the remotes send and in whatever
  order the events come, the pieces, the work queue and the wake-up are as they were at the start, nothing
  is queued for writing or being written, and the output file is not opened.\<close>

theorem strangers_change_nothing:
  assumes "session_start conv ip_ver len hashes infos = Inr s0" "0 \<le> len" "len \<le> int_max"
    "run_events sha1 evs s0 = Inr s" "may_occur sha1 evs s0"
    "\<forall>i < length infos. \<not> greeting (infos ! i) (received_from i evs)"
  shows "common s = common s0 \<and> write_reqs s = [] \<and> saving s = [] \<and> output_file s = None"
proof -
  have "authenticated s0 (map trimmed infos) (\<lambda>i. received_from i evs) s"
    by (rule authenticated_reached [OF assms(1-5)])
  with assms(6) have "quiet s0 s" by (auto simp: authenticated_def)
  with authenticated_start(3-5) [OF assms(1-3)] show ?thesis by (simp add: quiet_def)
qed

text \<open>The sample remote greets, and sends three bytes of something else.\<close>

lemma sample_opening:
  assumes "session_start (\<lambda>_. Inr 80) (\<lambda>_. 4) 16 (replicate 20 0) [sample_info] = Inr s0"
  shows "\<exists>c. peer_at 0 s0 = Inr c \<and> standby 0 sample_info c \<and> connecting c"
proof -
  obtain p q where pq: "build_peers 0 [sample_info] = Inr [p]" "core_start (\<lambda>_. Inr 80) (\<lambda>_. 4) True p = Inr q"
    "m_peer_connections s0 = [q]"
    using assms by (auto simp: session_start_def)
  have p: "unstarted 0 sample_info p" using build_peers_unstarted [OF pq(1)] by simp
  have "connecting q"
    using pq(2) unstarted_fields(6) [OF p]
    by (auto simp: core_start_def Let_def log_io_def connecting_def)
  with core_start_ok [OF p pq(2)] pq(3) show ?thesis by (auto simp: peer_at_eq)
qed

theorem only_greeted_take_part_witness:
  "\<exists>s0 s c. session_start (\<lambda>_. Inr 80) (\<lambda>_. 4) 16 (replicate 20 0) [sample_info] = Inr s0 \<and>
     run_events id (opening_events 0 0 sample_handshake) s0 = Inr s \<and>
     peer_at 0 s = Inr c \<and> m_active c \<and> greeting sample_info sample_handshake"
proof -
  obtain s0 where s0: "session_start (\<lambda>_. Inr 80) (\<lambda>_. 4) 16 (replicate 20 0) [sample_info] = Inr s0"
    using sample_start by blast
  obtain c where c: "peer_at 0 s0 = Inr c" "standby 0 sample_info c" "connecting c"
    using sample_opening [OF s0] by blast
  have info: "m_info_hash sample_info = Some (replicate 20 3)" "m_remote_id sample_info = replicate 20 2"
    "length (m_id sample_info) = 20"
    by (simp_all add: sample_info_def)
  let ?a = "await READ_MESSAGE_SIZE 4 ((opened c)\<lparr>m_active := True\<rparr>)"
  have fd: "feed sample_handshake ([], opened c, common s0) = Some ([], ?a, common s0)"
    unfolding sample_handshake_def by (rule greeting_feed [OF info(1) _ info(2) _ c(2)]) simp_all
  obtain c' where c': "may_occur id (opening_events 0 0 sample_handshake) s0"
    "run_events id (opening_events 0 0 sample_handshake) s0 = Inr (set_peer 0 c' (s0\<lparr>common := common s0\<rparr>))"
    "strip c' = ?a"
    by (rule opening_bytes [where status = 0 and ?sha1.0 = id, OF c(1,2) info(1) _ info(3) _ c(3) fd]) simp_all
  have "m_active c'" using arg_cong [OF c'(3), of m_active] by (simp add: await_def)
  moreover have at: "peer_at 0 (set_peer 0 c' (s0\<lparr>common := common s0\<rparr>)) = Inr c'"
    by (rule peer_at_set_peer [OF c(1)])
  ultimately show ?thesis
    using only_greeted_take_part [OF s0 _ _ c'(2,1) at] s0 c'(2) by auto
qed

theorem strangers_change_nothing_witness:
  "\<exists>s0 s. session_start (\<lambda>_. Inr 80) (\<lambda>_. 4) 16 (replicate 20 0) [sample_info] = Inr s0 \<and>
     run_events id (opening_events 0 0 [7, 7, 7]) s0 = Inr s \<and>
     common s = common s0 \<and> write_reqs s = [] \<and> saving s = [] \<and> output_file s = None"
proof -
  obtain s0 where s0: "session_start (\<lambda>_. Inr 80) (\<lambda>_. 4) 16 (replicate 20 0) [sample_info] = Inr s0"
    using sample_start by blast
  obtain c where c: "peer_at 0 s0 = Inr c" "standby 0 sample_info c" "connecting c"
    using sample_opening [OF s0] by blast
  have info: "m_info_hash sample_info = Some (replicate 20 3)" "length (m_id sample_info) = 20"
    by (simp_all add: sample_info_def)
  have fd: "feed [7, 7, 7] ([], opened c, common s0) = Some ([7, 7, 7], opened c, common s0)"
    using feed_short [of "[]" "[7, 7, 7]" need "(opened c, common s0)" deliver] by (simp add: feed_def)
  obtain s where s: "may_occur id (opening_events 0 0 [7, 7, 7]) s0" "run_events id (opening_events 0 0 [7, 7, 7]) s0 = Inr s"
    by (rule opening_bytes [where status = 0 and ?sha1.0 = id, OF c(1,2) info(1) _ info(2) _ c(3) fd]) simp_all
  have "\<forall>i < length [sample_info]. \<not> greeting ([sample_info] ! i) (received_from i (opening_events 0 0 [7, 7, 7]))"
    by (auto simp: greeting_def prefix_def)
  from strangers_change_nothing [OF s0 _ _ s(2,1) this] s0 s(2) show ?thesis by auto
qed

end
