(* ===== verification/Ssl_Socket.thy ===== *)
theory Ssl_Socket
  imports Prelude
begin

text \<open>
  \<open>src/socketSSL.cpp\<close>: the socket to the tracker. The resolver, the kernel and OpenSSL are an
  environment that answers the calls in order; a call the answers do not cover has not returned, and
  then neither has the function: its result is \<open>None\<close>. Pointers of OpenSSL are flags that say
  whether they are null. The \<open>COMET_LOG_ERROR\<close> and \<open>std::cerr\<close> lines are not modelled.
\<close>

type_synonym 'a io = "'a res option"

record ssl_socket =
  ssl_fd :: int
  ssl_ctx :: bool
  ssl_session :: bool

text \<open>
  One address of \<open>getaddrinfo\<close>: the descriptor \<open>socket\<close> returns and whether \<open>connect\<close> succeeds.
  \<open>Done n\<close> is a successful transfer, \<open>Want\<close> asks to call again (\<open>SSL_ERROR_WANT_READ\<close> or
  \<open>WANT_WRITE\<close>), \<open>Stop\<close> is every other failure, also the end of the connection.
\<close>

type_synonym address = "int \<times> bool"

datatype 'a ssl_answer = Done 'a | Want | Stop

text \<open>\<open>init_openssl\<close>, with what \<open>SSL_CTX_new\<close> returns; the constructor calls it.\<close>

definition init_openssl :: "bool \<Rightarrow> ssl_socket \<Rightarrow> ssl_socket" where
  "init_openssl ctx sock = sock\<lparr>ssl_ctx := ctx\<rparr>"

definition socket_new :: "bool \<Rightarrow> ssl_socket" where
  "socket_new ctx = init_openssl ctx \<lparr>ssl_fd = 0, ssl_ctx = False, ssl_session = False\<rparr>"

text \<open>Move assignment: the new object and what is left of the other.\<close>

definition socket_move :: "ssl_socket \<Rightarrow> ssl_socket \<times> ssl_socket" where
  "socket_move other = (other, other\<lparr>ssl_session := False, ssl_ctx := False\<rparr>)"

definition new_socket :: "int \<Rightarrow> int res" where
  "new_socket fd = (if fd < 0 then Inl Exit_failure else Inr fd)"

text \<open>The loop over the addresses: the last descriptor, and whether one was connected.\<close>

fun try_addresses :: "int \<Rightarrow> address list \<Rightarrow> (int \<times> bool) res" where
  "try_addresses fd [] = Inr (fd, False)"
| "try_addresses fd ((new_fd, ok) # as) =
     bindE (new_socket new_fd) (\<lambda>fd. if ok then Inr (fd, True) else try_addresses fd as)"

text \<open>
  \<open>connect_to\<close>: \<open>resolved\<close> is \<open>None\<close> when \<open>getaddrinfo\<close> fails, \<open>session\<close> whether \<open>SSL_new\<close>
  returns an object; a null one is printed and then passed to \<open>SSL_set_fd\<close>, which dereferences it.
  The result of the handshake \<open>SSL_connect\<close> is printed, not used.
\<close>

definition connect_to :: "address list option \<Rightarrow> bool \<Rightarrow> ssl_socket \<Rightarrow> ssl_socket res" where
  "connect_to resolved session sock =
     (case resolved of
        None \<Rightarrow> Inr sock
      | Some as \<Rightarrow>
          bindE (try_addresses (ssl_fd sock) as) (\<lambda>(fd, connected).
          if \<not> connected then Inr (sock\<lparr>ssl_fd := fd\<rparr>)
          else
            bindE (assertE (ssl_ctx sock)) (\<lambda>_.
            bindE (ensure session) (\<lambda>_.
            Inr (sock\<lparr>ssl_fd := fd, ssl_session := True\<rparr>)))))"

text \<open>\<open>operator bool\<close>.\<close>

definition socket_ok :: "ssl_socket \<Rightarrow> bool" where
  "socket_ok sock = ssl_session sock"

text \<open>
  The loop of \<open>send\<close>: it ends with the first failure; when everything is written it still calls
  \<open>SSL_write\<close>, with no bytes left.
\<close>

fun send_loop :: "nat \<Rightarrow> nat ssl_answer list \<Rightarrow> nat option" where
  "send_loop tot [] = None"
| "send_loop tot (Done n # as) = send_loop (tot + n) as"
| "send_loop tot (Want # as) = send_loop tot as"
| "send_loop tot (Stop # as) = Some tot"

definition ssl_send :: "nat ssl_answer list \<Rightarrow> ssl_socket \<Rightarrow> int io" where
  "ssl_send as sock =
     (if ssl_session sock then map_option (\<lambda>tot. Inr (int tot)) (send_loop 0 as)
      else Some (Inl Abort))"

text \<open>The loop of \<open>recv\<close>: the memory of the caller and the bytes received.\<close>

fun recv_loop :: "byte list \<Rightarrow> nat \<Rightarrow> byte list ssl_answer list \<Rightarrow> (byte list \<times> nat) io" where
  "recv_loop mem tot [] = None"
| "recv_loop mem tot (Done bs # as) =
     (case mem_put mem (int tot) bs of
        Inl e \<Rightarrow> Some (Inl e)
      | Inr mem' \<Rightarrow> recv_loop mem' (tot + length bs) as)"
| "recv_loop mem tot (Want # as) = recv_loop mem tot as"
| "recv_loop mem tot (Stop # as) = Some (Inr (mem, tot))"

text \<open>\<open>recv\<close> into a buffer of \<open>n\<close> bytes: it is zeroed first, and terminated at \<open>total + 1\<close>.\<close>

definition ssl_recv :: "nat \<Rightarrow> byte list ssl_answer list \<Rightarrow> ssl_socket \<Rightarrow> (byte list \<times> int) io" where
  "ssl_recv n as sock =
     (if \<not> ssl_session sock then Some (Inl Abort)
      else
        (case recv_loop (replicate n 0) 0 as of
           None \<Rightarrow> None
         | Some (Inl e) \<Rightarrow> Some (Inl e)
         | Some (Inr (mem, tot)) \<Rightarrow>
             Some (bindE (mem_put mem (int (tot + 1)) [0]) (\<lambda>mem. Inr (mem, int tot)))))"

section \<open>What the loops transfer\<close>

text \<open>The answers of a connection that delivers the pieces \<open>parts\<close> and then ends.\<close>

definition deliver :: "byte list list \<Rightarrow> byte list ssl_answer list" where
  "deliver parts = map Done parts @ [Stop]"

lemma recv_loop_deliver:
  assumes "tot + length (concat parts) \<le> length mem" "mem = pre @ tail" "length pre = tot"
  shows "recv_loop mem tot (deliver parts @ ms) =
    Some (Inr (pre @ concat parts @ drop (length (concat parts)) tail, tot + length (concat parts)))"
  using assms
proof (induction parts arbitrary: mem tot pre tail)
  case (Cons bs parts)
  let ?mem = "(pre @ bs) @ drop (length bs) tail"
  have "mem_put mem (int tot) bs = Inr ?mem"
    using Cons.prems by (simp add: mem_put_def)
  moreover have "recv_loop ?mem (tot + length bs) (deliver parts @ ms) =
      Some (Inr ((pre @ bs) @ concat parts @ drop (length (concat parts)) (drop (length bs) tail),
        tot + length bs + length (concat parts)))"
    using Cons.prems by (intro Cons.IH) auto
  ultimately show ?case by (simp add: deliver_def add.commute)
qed (simp add: deliver_def)

lemma ssl_recv_deliver:
  assumes "ssl_session sock" "length (concat parts) \<le> n"
  shows "ssl_recv n (deliver parts @ ms) sock =
    (if length (concat parts) + 2 \<le> n
     then Some (Inr (concat parts @ replicate (n - length (concat parts)) 0, int (length (concat parts))))
     else Some (Inl Undefined))"
proof -
  let ?l = "length (concat parts)"
  have "recv_loop (replicate n 0) 0 (deliver parts @ ms) = Some (Inr (concat parts @ replicate (n - ?l) 0, ?l))"
    using recv_loop_deliver [of 0 parts "replicate n 0" "[]" "replicate n 0" ms] assms(2) by simp
  moreover have "mem_put (concat parts @ replicate (n - ?l) 0) (int (?l + 1)) [0 :: byte] =
      (if ?l + 2 \<le> n then Inr (concat parts @ replicate (n - ?l) 0) else Inl Undefined)"
  proof -
    define k where "k = ?l + 1"
    have "take k (concat parts @ replicate (n - ?l) 0) @ [0] @ drop (k + 1) (concat parts @ replicate (n - ?l) 0) =
        concat parts @ replicate (n - ?l) (0 :: byte)" if le: "k + 1 \<le> n"
    proof -
      obtain m where m: "n = k + 1 + m" using le_Suc_ex [OF le] by blast
      show ?thesis by (simp add: m k_def)
    qed
    moreover have "length (concat parts @ replicate (n - ?l) (0 :: byte)) = n" using assms(2) by simp
    ultimately have "mem_put (concat parts @ replicate (n - ?l) 0) (int k) [0 :: byte] =
        (if k + 1 \<le> n then Inr (concat parts @ replicate (n - ?l) 0) else Inl Undefined)"
      unfolding mem_put_def nat_int by simp
    then show ?thesis by (simp add: k_def)
  qed
  ultimately show ?thesis using assms(1) by (simp add: ssl_recv_def)
qed

text \<open>C32: A response delivered in any pieces is received as their concatenation, in a zeroed buffer; one
  that leaves less than two bytes of the buffer free makes \<open>recv\<close> write its terminator outside.\<close>

theorem ssl_recv_concat:
  assumes "ssl_session sock" "length (concat parts) \<le> n"
  shows "ssl_recv n (map Done parts @ Stop # ms) sock =
    (if length (concat parts) + 2 \<le> n
     then Some (Inr (concat parts @ replicate (n - length (concat parts)) 0, int (length (concat parts))))
     else Some (Inl Undefined))"
  using ssl_recv_deliver [OF assms, of ms] by (simp add: deliver_def)

theorem ssl_recv_concat_witness:
  "ssl_recv 6 [Done [1, 2], Done [3], Stop] \<lparr>ssl_fd = 3, ssl_ctx = True, ssl_session = True\<rparr> =
     Some (Inr ([1, 2, 3, 0, 0, 0], 3)) \<and>
   ssl_recv 4 [Done [1, 2], Done [3], Stop] \<lparr>ssl_fd = 3, ssl_ctx = True, ssl_session = True\<rparr> =
     Some (Inl Undefined)"
  using ssl_recv_concat [of "\<lparr>ssl_fd = 3, ssl_ctx = True, ssl_session = True\<rparr>" "[[1, 2], [3]]" 6 "[]"]
    ssl_recv_concat [of "\<lparr>ssl_fd = 3, ssl_ctx = True, ssl_session = True\<rparr>" "[[1, 2], [3]]" 4 "[]"]
  by (simp add: numeral_eq_Suc)

text \<open>A connection that stays open does not let \<open>recv\<close> return, whatever it has delivered.\<close>

lemma ssl_recv_open:
  assumes "ssl_session sock" "list_all (\<lambda>a. a \<noteq> Stop) as" "\<And>e. recv_loop (replicate n 0) 0 as \<noteq> Some (Inl e)"
  shows "ssl_recv n as sock = None"
proof -
  have "recv_loop mem tot as \<noteq> Some (Inr r)" for mem tot r
    using assms(2) by (induction mem tot as rule: recv_loop.induct) (auto split: sum.splits)
  then have "recv_loop (replicate n 0) 0 as = None"
    using assms(3) by (metis not_None_eq sum.exhaust)
  then show ?thesis using assms(1) by (simp add: ssl_recv_def)
qed

end
