(* ===== verification/Torrent.thy ===== *)
theory Torrent
  imports Peer_Core Bencode Ssl_Socket
begin

text \<open>
  \<open>src/torrent.cpp\<close>, \<open>include/torrent.h\<close>: the metainfo file. \<open>std::string\<close> and
  \<open>std::vector<char>\<close> are lists of bytes; members that the constructor leaves without a value are
  options. Reading the entry of a dictionary through \<open>operator[]\<close> inserts a null pointer for a
  missing key: for the member \<open>m_info\<close> the insertion is kept, for local copies of a dictionary it
  cannot be observed. Dereferencing a null pointer is a fault, \<open>std::get\<close> of another alternative
  throws. \<open>&v[0]\<close> of an empty vector is taken for \<open>v.data()\<close>.

  SHA1, \<open>rand\<close> and the fuel of the decoder are parameters.
\<close>

section \<open>State\<close>

record info_file =
  file_length :: int
  file_path :: "byte list"

type_synonym dict = "(byte list \<times> bnode option) list"

record torrent =
  torrent_info_hash :: info_hash
  torrent_id :: "byte list"
  torrent_buff :: "byte list"
  m_announce :: "byte list"
  m_announce_list :: "byte list list"
  m_comment :: "byte list"
  m_created_by :: "byte list"
  m_creation_date :: int
  m_encoding :: "byte list"
  m_info :: dict
  m_info_private :: int
  m_info_files :: "info_file list"
  m_info_name :: "byte list"
  m_length :: "int option"
  m_info_piecelen :: "int option"
  m_info_pieces :: "byte list"
  m_sock :: ssl_socket
  m_peers_info :: "peer_info list"

definition gen_peer_id :: "(nat \<Rightarrow> int) \<Rightarrow> byte list" where
  "gen_peer_id rand = ascii ''-PC0001-'' @ concat (map (\<lambda>i. to_string (rand i mod 10)) [0..<12])"

lemma gen_peer_id_length: "length (gen_peer_id rand) = 20"
proof -
  have "length (to_string (rand i mod 10)) = 1" for i
  proof -
    have "nat (rand i mod 10) < 10" by (simp add: nat_less_iff)
    then show ?thesis by (simp add: to_string_def digits.simps)
  qed
  then show ?thesis by (simp add: gen_peer_id_def length_concat comp_def sum_list_triv)
qed

text \<open>The constructors, which do the same.\<close>

definition torrent_new :: "(nat \<Rightarrow> int) \<Rightarrow> bool \<Rightarrow> torrent" where
  "torrent_new rand ctx =
     \<lparr>torrent_info_hash = info_hash_default, torrent_id = gen_peer_id rand, torrent_buff = [],
      m_announce = [], m_announce_list = [], m_comment = [], m_created_by = [], m_creation_date = 0,
      m_encoding = [], m_info = [], m_info_private = -1, m_info_files = [], m_info_name = [],
      m_length = None, m_info_piecelen = None, m_info_pieces = [], m_sock = socket_new ctx,
      m_peers_info = []\<rparr>"

definition torrent_set :: "byte list \<Rightarrow> torrent \<Rightarrow> torrent" where
  "torrent_set b t = t\<lparr>torrent_buff := b\<rparr>"

section \<open>Reading nodes\<close>

text \<open>\<open>d[key]\<close>, and \<open>std::get\<close> of the four alternatives behind a pointer.\<close>

definition at_key :: "string \<Rightarrow> dict \<Rightarrow> bnode option" where
  "at_key k d = (case map_of d (ascii k) of None \<Rightarrow> None | Some p \<Rightarrow> p)"

definition touch_key :: "string \<Rightarrow> dict \<Rightarrow> dict" where
  "touch_key k d = (if map_of d (ascii k) = None then d @ [(ascii k, None)] else d)"

fun get_int :: "bnode option \<Rightarrow> int res" where
  "get_int None = Inl Undefined"
| "get_int (Some (Bint v)) = Inr v"
| "get_int (Some _) = Inl (Throw Bad_variant_access)"

fun get_bytes :: "bnode option \<Rightarrow> byte list res" where
  "get_bytes None = Inl Undefined"
| "get_bytes (Some (Bstr s)) = Inr s"
| "get_bytes (Some _) = Inl (Throw Bad_variant_access)"

fun get_list :: "bnode option \<Rightarrow> bnode option list res" where
  "get_list None = Inl Undefined"
| "get_list (Some (Blist ns)) = Inr ns"
| "get_list (Some _) = Inl (Throw Bad_variant_access)"

fun get_dict :: "bnode option \<Rightarrow> dict res" where
  "get_dict None = Inl Undefined"
| "get_dict (Some (Bdict d)) = Inr d"
| "get_dict (Some _) = Inl (Throw Bad_variant_access)"

definition first_elem :: "bnode option list \<Rightarrow> bnode option res" where
  "first_elem ns = (case ns of [] \<Rightarrow> Inl Undefined | n # _ \<Rightarrow> Inr n)"

section \<open>The files of the torrent\<close>

definition info_file_path :: "dict \<Rightarrow> byte list res" where
  "info_file_path d =
     bindE (get_list (at_key ''path'' d)) (\<lambda>ns.
     bindE (first_elem ns) (\<lambda>list_node. get_bytes list_node))"

fun extract_info_files :: "bnode option list \<Rightarrow> info_file list res" where
  "extract_info_files [] = Inr []"
| "extract_info_files (elem # elems) =
     bindE (get_dict elem) (\<lambda>f.
     bindE (get_int (at_key ''length'' f)) (\<lambda>len.
     bindE (info_file_path f) (\<lambda>path.
     bindE (extract_info_files elems) (\<lambda>fs.
     Inr (\<lparr>file_length = narrow32 len, file_path = path\<rparr> # fs)))))"

section \<open>The info dictionary in the file\<close>

text \<open>
  The loop of \<open>find_pattern\<close>, with its bound \<open>n\<close> (the size less the length of the pattern);
  \<open>j \<le> i\<close> holds in it.
\<close>

function find_loop :: "byte list \<Rightarrow> byte list \<Rightarrow> nat \<Rightarrow> nat \<Rightarrow> nat \<Rightarrow> int" where
  "find_loop buff pattern n i j =
     (if i < n \<and> j \<le> i then
        if buff ! i = pattern ! j then
          if Suc j = length pattern then int i - int (Suc j) + 1 else find_loop buff pattern n (Suc i) (Suc j)
        else find_loop buff pattern n (Suc (i - j)) 0
      else -1)"
  by pat_completeness auto
termination
  by (relation "measures [\<lambda>(buff, pattern, n, i, j). n - (i - j), \<lambda>(buff, pattern, n, i, j). n - i]") auto

declare find_loop.simps [simp del]

definition find_pattern :: "byte list \<Rightarrow> byte list \<Rightarrow> int" where
  "find_pattern buff pattern = find_loop buff pattern (length buff - length pattern) 0 0"

text \<open>\<open>find_info_dict\<close>: the start and the size of what is hashed.\<close>

definition find_info_dict :: "byte list \<Rightarrow> (int \<times> int) res" where
  "find_info_dict bencode =
     (let start = find_pattern bencode (ascii ''4:infod'') in
      if start = -1 then Inl Exit_failure
      else
        let start = start + 6; end_pos = int (length bencode) - 2 in
        Inr (start, end_pos - start + 1))"

section \<open>Reading the file\<close>

fun read_announce_list :: "bnode option list \<Rightarrow> byte list list res" where
  "read_announce_list [] = Inr []"
| "read_announce_list (elem # elems) =
     bindE (get_list elem) (\<lambda>elem_list.
     bindE (first_elem elem_list) (\<lambda>n.
     bindE (get_bytes n) (\<lambda>announce.
     bindE (read_announce_list elems) (\<lambda>as. Inr (announce # as)))))"

text \<open>The optional fields of the document: three of them are read when there is a comment.\<close>

definition read_optional :: "dict \<Rightarrow> torrent \<Rightarrow> torrent res" where
  "read_optional document t =
     bindE (if at_key ''announce-list'' document \<noteq> None then
              bindE (get_list (at_key ''announce-list'' document)) (\<lambda>ns.
              bindE (read_announce_list ns) (\<lambda>as. Inr (t\<lparr>m_announce_list := m_announce_list t @ as\<rparr>)))
            else Inr t) (\<lambda>t.
     bindE (if at_key ''comment'' document \<noteq> None then
              bindE (get_bytes (at_key ''comment'' document)) (\<lambda>s. Inr (t\<lparr>m_comment := s\<rparr>))
            else Inr t) (\<lambda>t.
     bindE (if at_key ''comment'' document \<noteq> None then
              bindE (get_bytes (at_key ''created by'' document)) (\<lambda>s. Inr (t\<lparr>m_created_by := s\<rparr>))
            else Inr t) (\<lambda>t.
     bindE (if at_key ''comment'' document \<noteq> None then
              bindE (get_int (at_key ''creation date'' document)) (\<lambda>v. Inr (t\<lparr>m_creation_date := v\<rparr>))
            else Inr t) (\<lambda>t.
     if at_key ''encoding'' document \<noteq> None then
       bindE (get_bytes (at_key ''encoding'' document)) (\<lambda>s. Inr (t\<lparr>m_encoding := s\<rparr>))
     else Inr t))))"

text \<open>The info dictionary; \<open>m_info\<close> collects a null entry for every missing key that is read.\<close>

definition touch_info :: "string \<Rightarrow> torrent \<Rightarrow> torrent" where
  "touch_info k t = t\<lparr>m_info := touch_key k (m_info t)\<rparr>"

definition read_info :: "dict \<Rightarrow> torrent \<Rightarrow> torrent res" where
  "read_info document t =
     bindE (get_dict (at_key ''info'' document)) (\<lambda>info.
     let t = touch_info ''name'' (t\<lparr>m_info := info\<rparr>) in
     bindE (get_bytes (at_key ''name'' (m_info t))) (\<lambda>name.
     let t = touch_info ''files'' (t\<lparr>m_info_name := name\<rparr>) in
     bindE (if at_key ''files'' (m_info t) \<noteq> None then
              bindE (get_list (at_key ''files'' (m_info t))) (\<lambda>ns.
              bindE (extract_info_files ns) (\<lambda>fs. Inr (t\<lparr>m_info_files := fs\<rparr>)))
            else
              let t = touch_info ''length'' t in
              if at_key ''length'' (m_info t) \<noteq> None then
                bindE (get_int (at_key ''length'' (m_info t))) (\<lambda>v. Inr (t\<lparr>m_length := Some v\<rparr>))
              else Inr t) (\<lambda>t.
     let t = touch_info ''private'' t in
     bindE (if at_key ''private'' (m_info t) \<noteq> None then
              bindE (get_int (at_key ''private'' (m_info t))) (\<lambda>v. Inr (t\<lparr>m_info_private := narrow32 v\<rparr>))
            else Inr t) (\<lambda>t.
     let t = touch_info ''piece length'' t in
     bindE (get_int (at_key ''piece length'' (m_info t))) (\<lambda>v.
     let t = touch_info ''pieces'' (t\<lparr>m_info_piecelen := Some v\<rparr>) in
     bindE (get_bytes (at_key ''pieces'' (m_info t))) (\<lambda>s. Inr (t\<lparr>m_info_pieces := s\<rparr>)))))))"

definition read_document :: "dict \<Rightarrow> torrent \<Rightarrow> torrent res" where
  "read_document document t =
     bindE (get_bytes (at_key ''announce'' document)) (\<lambda>announce.
     bindE (read_optional document (t\<lparr>m_announce := announce\<rparr>)) (\<lambda>t. read_info document t))"

definition init_torrent_data :: "(byte list \<Rightarrow> byte list) \<Rightarrow> nat \<Rightarrow> torrent \<Rightarrow> torrent run" where
  "init_torrent_data sha1 fuel t =
     bindR (Some (find_info_dict (torrent_buff t))) (\<lambda>(info_begin, info_size).
     bindR (Some (info_hash_of sha1 (map Some (drop (nat info_begin) (torrent_buff t))) info_size)) (\<lambda>h.
     bindR (decode fuel (set_bencode (torrent_buff t) decoder_default)) (\<lambda>(data, d).
     bindR (Some (get_dict data)) (\<lambda>document.
     Some (read_document document (t\<lparr>torrent_info_hash := fst (hash_move h)\<rparr>))))))"

interpretation pattern: naive_search find_loop "\<lambda>pat e. int e - int (length pat) + 1" "-1"
  by unfold_locales (subst find_loop.simps, simp add: Suc_diff_le)+

end
