(* ===== verification/Http_Parser.thy ===== *)
theory Http_Parser
  imports Text
begin

text \<open>
  \<open>src/http_parser.cpp\<close>: the request and the response of the tracker. A pointer into a message is
  an index into \<open>mem\<close>, the whole object the message lies in; the message itself is its first
  \<open>n\<close> bytes. Reading outside \<open>mem\<close> is a fault. \<open>header_t\<close> is a partial function.

  The lemmas show that a well-formed response is parsed into its fields, and where the body is found.
\<close>

section \<open>Parsing a response\<close>

text \<open>The loops \<open>while(p != e && *p != c) p++\<close> of \<open>parse_header\<close>.\<close>

function scan_until :: "(byte \<Rightarrow> bool) \<Rightarrow> byte list \<Rightarrow> nat \<Rightarrow> nat \<Rightarrow> nat res" where
  "scan_until stop mem e i =
     (if i = e then Inr i
      else if length mem \<le> i then Inl Undefined
      else if stop (mem ! i) then Inr i
      else scan_until stop mem e (Suc i))"
  by pat_completeness auto
termination
  by (relation "measure (\<lambda>(stop, mem, e, i). length mem - i)") auto

declare scan_until.simps [simp del]

definition slice :: "nat \<Rightarrow> nat \<Rightarrow> byte list \<Rightarrow> byte list" where
  "slice a b mem = take (b - a) (drop a mem)"

definition memchr :: "byte \<Rightarrow> byte list \<Rightarrow> nat \<Rightarrow> nat \<Rightarrow> nat option" where
  "memchr c mem a b =
     (let p = length (takeWhile (\<lambda>x. x \<noteq> c) (slice a b mem)) in
      if p < length (slice a b mem) then Some (a + p) else None)"

type_synonym header = "byte list \<rightharpoonup> byte list"

lemma scan_until_ge: "scan_until stop mem e i = Inr j \<Longrightarrow> i \<le> j"
proof (induction stop mem e i rule: scan_until.induct)
  case (1 stop mem e i)
  then show ?case by (subst (asm) (2) scan_until.simps) (auto split: if_splits)
qed

text \<open>The loop over the header lines; a line without a colon ends the process.\<close>

function header_loop :: "byte list \<Rightarrow> nat \<Rightarrow> nat \<Rightarrow> header \<Rightarrow> header res" where
  "header_loop mem msg_end i header =
     (if i = msg_end then Inr header
      else if length mem \<le> i then Inl Undefined
      else if mem ! i = 13 then Inr header
      else
        bindE (scan_until (\<lambda>c. c = 13) mem msg_end i) (\<lambda>e.
        case memchr 58 mem i e of
          None \<Rightarrow> Inl Exit_failure
        | Some colon \<Rightarrow>
            bindE (scan_until (\<lambda>c. c \<noteq> 32) mem e (Suc colon)) (\<lambda>value_start.
            header_loop mem msg_end (e + 2) (header(slice i colon mem \<mapsto> slice value_start e mem)))))"
  by pat_completeness auto
termination
  by (relation "measure (\<lambda>(mem, msg_end, i, header). length mem - i)") (auto dest: scan_until_ge)

declare header_loop.simps [simp del]

definition parse_header :: "byte list \<Rightarrow> nat \<Rightarrow> header res" where
  "parse_header mem n =
     bindE (scan_until (\<lambda>c. c = 32) mem n 0) (\<lambda>e1.
     bindE (scan_until (\<lambda>c. c \<noteq> 32) mem n e1) (\<lambda>start.
     bindE (scan_until (\<lambda>c. c = 32) mem n start) (\<lambda>e2.
     bindE (scan_until (\<lambda>c. c = 13) mem n e2) (\<lambda>e3.
     header_loop mem n (e3 + 2)
       [ascii ''version'' \<mapsto> slice 0 e1 mem, ascii ''status'' \<mapsto> slice start e2 mem]))))"

section \<open>Building a request\<close>

record query_params =
  m_values :: "byte list \<rightharpoonup> byte list"
  m_insert_order :: "byte list list"

definition query_new :: query_params where
  "query_new = \<lparr>m_values = Map.empty, m_insert_order = []\<rparr>"

text \<open>
  \<open>operator[]\<close> records the key, again when it is already there, and returns the value, an empty one
  for a new key; \<open>query_assign\<close> is the assignment \<open>params[key] = value\<close> through it.
\<close>

definition query_index :: "byte list \<Rightarrow> query_params \<Rightarrow> query_params" where
  "query_index key q =
     q\<lparr>m_insert_order := m_insert_order q @ [key],
       m_values := (if m_values q key = None then (m_values q)(key \<mapsto> []) else m_values q)\<rparr>"

definition query_assign :: "byte list \<Rightarrow> byte list \<Rightarrow> query_params \<Rightarrow> query_params" where
  "query_assign key v q = (let q = query_index key q in q\<lparr>m_values := (m_values q)(key \<mapsto> v)\<rparr>)"

definition query_string :: "query_params \<Rightarrow> byte list" where
  "query_string q =
     concat (map (\<lambda>key. key @ ascii ''='' @ (case m_values q key of None \<Rightarrow> [] | Some v \<Rightarrow> v) @ ascii ''&'')
       (m_insert_order q))"

definition crlf :: "byte list" where "crlf = [13, 10]"

definition build_request :: "byte list \<Rightarrow> byte list \<Rightarrow> query_params \<Rightarrow> byte list" where
  "build_request host path query =
     ascii ''GET '' @ path @ ascii ''?'' @ query_string query @ ascii '' HTTP/1.1'' @ crlf @
     ascii ''Host: '' @ takeWhile (\<lambda>c. c \<noteq> 0) host @ crlf @ crlf"

section \<open>Finding the body\<close>

text \<open>
  The loop of \<open>get_body\<close>: \<open>n\<close> is its bound, \<open>j \<le> i\<close> holds in it (both start at 0). After the last
  character of the separator it stops with the index behind it.
\<close>

function body_loop :: "byte list \<Rightarrow> byte list \<Rightarrow> nat \<Rightarrow> nat \<Rightarrow> nat \<Rightarrow> nat option" where
  "body_loop msg sep n i j =
     (if i < n \<and> j \<le> i then
        if msg ! i = sep ! j then
          if Suc j = length sep then Some (i + 1) else body_loop msg sep n (Suc i) (Suc j)
        else body_loop msg sep n (Suc (i - j)) 0
      else None)"
  by pat_completeness auto
termination
  by (relation "measures [\<lambda>(msg, sep, n, i, j). n - (i - j), \<lambda>(msg, sep, n, i, j). n - i]") auto

declare body_loop.simps [simp del]

definition get_body :: "byte list \<Rightarrow> nat option" where
  "get_body msg = body_loop msg (crlf @ crlf) (length msg - 4) 0 0"

interpretation body: naive_search body_loop "\<lambda>sep e. Some (e + 1)" None
  by unfold_locales (subst body_loop.simps, simp add: Suc_diff_le)+

section \<open>What the parser reads\<close>

lemma scan_until_run:
  assumes "drop i mem = xs @ ys" "i \<le> length mem" "\<forall>x \<in> set xs. \<not> stop x" "i + length xs \<le> e"
    "i + length xs = e \<or> (ys \<noteq> [] \<and> stop (hd ys))"
  shows "scan_until stop mem e i = Inr (i + length xs)"
  using assms
proof (induction xs arbitrary: i)
  case Nil
  then show ?case
    by (subst scan_until.simps) (auto simp: hd_drop_conv_nth)
next
  case (Cons x xs)
  have i: "i < length mem" "mem ! i = x"
    using drop_eq_parts(1,3) [of i mem "[x]" "xs @ ys"] Cons.prems(1,2) by force+
  have "drop (Suc i) mem = xs @ ys" using drop_eq_parts(2) [of i mem "[x]" "xs @ ys"] Cons.prems(1,2) by simp
  with Cons.IH [of "Suc i"] Cons.prems i show ?case by (subst scan_until.simps) simp
qed

lemma slice_run: "drop i mem = xs @ ys \<Longrightarrow> slice i (i + length xs) mem = xs"
  by (simp add: slice_def)

lemma memchr_run:
  assumes "drop i mem = xs @ c # ys @ zs" "c \<notin> set xs"
  shows "memchr c mem i (i + length xs + Suc (length ys)) = Some (i + length xs)"
proof -
  have "slice i (i + length xs + Suc (length ys)) mem = xs @ c # ys"
    using slice_run [of i mem "xs @ c # ys" zs] assms(1) by (simp add: add.assoc)
  moreover have "takeWhile (\<lambda>x. x \<noteq> c) (xs @ c # ys) = xs" using assms(2) by (induction xs) auto
  ultimately show ?thesis by (simp add: memchr_def Let_def)
qed

text \<open>A response as a server writes it.\<close>

definition header_line :: "byte list \<times> byte list \<Rightarrow> byte list" where
  "header_line kv = fst kv @ ascii '': '' @ snd kv @ crlf"

definition response_head :: "byte list \<Rightarrow> byte list \<Rightarrow> byte list \<Rightarrow> (byte list \<times> byte list) list \<Rightarrow> byte list" where
  "response_head version status reason lines =
     version @ [32] @ status @ [32] @ reason @ crlf @ concat (map header_line lines) @ crlf"

definition line_ok :: "byte list \<times> byte list \<Rightarrow> bool" where
  "line_ok kv = (13 \<notin> set (fst kv) \<and> 58 \<notin> set (fst kv) \<and> 13 \<notin> set (snd kv) \<and>
     (snd kv \<noteq> [] \<longrightarrow> hd (snd kv) \<noteq> 32))"

lemma header_line_pair: "header_line (k, v) = k @ 58 # 32 # v @ crlf"
  by (simp add: header_line_def)

lemma header_loop_lines:
  assumes "drop i mem = concat (map header_line lines) @ crlf @ rest" "i \<le> length mem"
    "list_all line_ok lines" "i + length (concat (map header_line lines)) + 2 \<le> e"
  shows "header_loop mem e i h = Inr (h ++ map_of (rev lines))"
  using assms
proof (induction lines arbitrary: i h)
  case Nil
  have "i < length mem" "mem ! i = 13"
    using drop_eq_parts(1,3) [of i mem crlf rest] Nil.prems(1,2) by (force simp: crlf_def)+
  then show ?case using Nil.prems(4) by (subst header_loop.simps) simp
next
  case (Cons kv lines)
  obtain k v where kv: "kv = (k, v)" by (cases kv)
  let ?tl = "concat (map header_line lines) @ crlf @ rest"
  have dr: "drop i mem = k @ 58 # (32 # v) @ (crlf @ ?tl)"
    using Cons.prems(1) by (simp add: kv header_line_pair)
  have ok: "13 \<notin> set k" "58 \<notin> set k" "13 \<notin> set v" "v \<noteq> [] \<longrightarrow> hd v \<noteq> 32"
    using Cons.prems(3) by (auto simp: kv line_ok_def)
  let ?c = "i + length k" and ?e = "i + length k + Suc (length (32 # v))"
  have e: "?e + 2 \<le> e" using Cons.prems(4) by (simp add: kv header_line_pair crlf_def)
  have line: "drop i mem = (k @ 58 # 32 # v) @ (crlf @ ?tl)" using dr by simp
  have scan: "scan_until (\<lambda>c. c = 13) mem e i = Inr ?e"
  proof -
    have "\<forall>x \<in> set (k @ 58 # 32 # v). \<not> x = 13" using ok(1,3) by auto
    from scan_until_run [OF line Cons.prems(2) this, of e] e show ?thesis by (simp add: crlf_def add.assoc)
  qed
  have colon: "memchr 58 mem i ?e = Some ?c" by (rule memchr_run [OF dr ok(2)])
  have at: "drop ?c mem = [58] @ ([32] @ (v @ (crlf @ ?tl)))" "?c \<le> length mem"
    using drop_eq_parts(1,2) [OF _ Cons.prems(2)] dr by auto
  have sp: "drop (Suc ?c) mem = [32] @ (v @ (crlf @ ?tl))" "Suc ?c \<le> length mem"
    using drop_eq_parts(1,2) [OF at] by auto
  have val: "drop (Suc (Suc ?c)) mem = v @ (crlf @ ?tl)"
    using drop_eq_parts(2) [OF sp] by simp
  have vs: "scan_until (\<lambda>c. c \<noteq> 32) mem ?e (Suc ?c) = Inr (Suc (Suc ?c))"
    using scan_until_run [OF sp, of "\<lambda>c. c \<noteq> 32" ?e] ok(4) by (cases v) auto
  have key: "slice i ?c mem = k" and valu: "slice (Suc (Suc ?c)) ?e mem = v"
    using slice_run [OF dr] slice_run [OF val] by (simp_all add: add.assoc)
  have first: "i < length mem" "mem ! i \<noteq> 13"
    using drop_eq_parts(1) [OF line Cons.prems(2)] drop_eq_parts(3) [OF line Cons.prems(2), of 0] ok(1)
    by (cases k; auto)+
  have nxt: "drop (?e + 2) mem = ?tl" "?e + 2 \<le> length mem"
    using drop_eq_parts(1,2) [of i mem "k @ 58 # 32 # v @ crlf" ?tl] line Cons.prems(2)
    by (auto simp: crlf_def add.assoc)
  have "header_loop mem e i h = header_loop mem e (?e + 2) (h(k \<mapsto> v))"
    using first e scan colon vs key valu by (subst header_loop.simps) simp
  also have "\<dots> = Inr (h(k \<mapsto> v) ++ map_of (rev lines))"
    using Cons.IH [OF nxt(1,2)] Cons.prems(3,4) by (simp add: kv header_line_pair crlf_def)
  finally show ?case by (simp add: kv map_add_upd_left map_add_def fun_eq_iff split: option.splits)
qed

lemma parse_header_ok:
  assumes "32 \<notin> set version" "32 \<notin> set status" "status \<noteq> []" "13 \<notin> set reason" "list_all line_ok lines"
    "msg = response_head version status reason lines @ body"
  shows "parse_header (msg @ beyond) (length msg) =
    Inr ([ascii ''version'' \<mapsto> version, ascii ''status'' \<mapsto> status] ++ map_of (rev lines))"
proof -
  let ?mem = "msg @ beyond" and ?n = "length msg"
  let ?tl = "concat (map header_line lines) @ crlf @ (body @ beyond)"
  let ?a = "length version" let ?b = "Suc ?a" let ?c = "?b + length status" let ?d = "Suc ?c + length reason"
  have n: "?d + 2 + length (concat (map header_line lines)) + 2 \<le> ?n"
    by (simp add: assms(6) response_head_def crlf_def)
  have s0: "drop 0 ?mem = version @ ([32] @ (status @ ([32] @ (reason @ (crlf @ ?tl)))))"
    by (simp add: assms(6) response_head_def)
  note p0 = drop_eq_parts(1,2) [OF s0]
  then have s1: "drop ?a ?mem = [32] @ (status @ ([32] @ (reason @ (crlf @ ?tl))))" "?a \<le> length ?mem" by simp_all
  then have s2: "drop ?b ?mem = status @ ([32] @ (reason @ (crlf @ ?tl)))" "?b \<le> length ?mem"
    using drop_eq_parts(1,2) [OF s1] by simp_all
  then have s3: "drop ?c ?mem = (32 # reason) @ (crlf @ ?tl)" "?c \<le> length ?mem"
    using drop_eq_parts(1,2) [OF s2] by simp_all
  then have s4: "drop (?d + 2) ?mem = ?tl" "?d + 2 \<le> length ?mem"
    using drop_eq_parts(1,2) [of ?c ?mem "32 # reason @ crlf" ?tl] by (simp_all add: crlf_def)
  have e1: "scan_until (\<lambda>c. c = 32) ?mem ?n 0 = Inr ?a"
    using scan_until_run [OF s0, of "\<lambda>c. c = 32" ?n] assms(1) n by auto
  have e2: "scan_until (\<lambda>c. c \<noteq> 32) ?mem ?n ?a = Inr ?b"
    using scan_until_run [OF s1, of "\<lambda>c. c \<noteq> 32" ?n] assms(2,3) n by (cases status) auto
  have e3: "scan_until (\<lambda>c. c = 32) ?mem ?n ?b = Inr ?c"
    using scan_until_run [OF s2, of "\<lambda>c. c = 32" ?n] assms(2) n by auto
  have e4: "scan_until (\<lambda>c. c = 13) ?mem ?n ?c = Inr ?d"
    using scan_until_run [OF s3, of "\<lambda>c. c = 13" ?n] assms(4) n by (auto simp: crlf_def)
  have v: "slice 0 ?a ?mem = version" "slice ?b ?c ?mem = status"
    using slice_run [OF s0] slice_run [OF s2(1)] by simp_all
  show ?thesis
    using header_loop_lines [OF s4 assms(5), of ?n] n e1 e2 e3 e4 v by (simp add: parse_header_def)
qed

lemma get_body_at:
  assumes "first_match (crlf @ crlf) msg k"
  shows "get_body msg = (if k + 8 \<le> length msg then Some (k + 4) else None)"
proof (cases "k + 8 \<le> length msg")
  case True
  with assms have "first_match (crlf @ crlf) (take (length msg - 4) msg) k"
    by (auto simp: first_match_def matches_at_take crlf_def)
  from body.run_found [OF _ _ this] True show ?thesis by (simp add: get_body_def crlf_def)
next
  case False
  have "\<not> matches_at (crlf @ crlf) (take (length msg - 4) msg) l" for l
    using assms False by (cases "l < k") (auto simp: first_match_def matches_at_take crlf_def)
  with body.run_missing [of "length msg - 4" msg "crlf @ crlf"] False show ?thesis
    by (simp add: get_body_def crlf_def)
qed

text \<open>The separator ends the head of a response, so its body is found there.\<close>

lemma matches_separator:
  assumes "matches_at (crlf @ crlf) t l"
  shows "t ! l = 13" "t ! (l + 2) = 13"
proof -
  have a: "\<forall>i < 4. t ! (l + i) = (crlf @ crlf) ! i" using assms by (simp add: matches_at_nth crlf_def)
  show "t ! l = 13" using spec [OF a, of 0] by (simp add: crlf_def)
  show "t ! (l + 2) = 13" using spec [OF a, of 2] by (simp add: crlf_def)
qed

lemma lines_no_separator:
  assumes "list_all line_ok lines" "13 \<notin> set xs" "l < length xs + length (concat (map header_line lines))"
  shows "\<not> matches_at (crlf @ crlf) (xs @ crlf @ concat (map header_line lines) @ crlf @ body) l"
  using assms
proof (induction lines arbitrary: xs l)
  case Nil
  show ?case
  proof
    assume "matches_at (crlf @ crlf) (xs @ crlf @ concat (map header_line []) @ crlf @ body) l"
    from matches_separator(1) [OF this] have "xs ! l = 13" using Nil.prems(3) by (simp add: nth_append)
    then show False using Nil.prems(2,3) nth_mem [of l xs] by simp
  qed
next
  case (Cons kv lines)
  obtain k v where kv: "kv = (k, v)" by (cases kv)
  let ?x = "k @ 58 # 32 # v" and ?tl = "crlf @ concat (map header_line lines) @ crlf @ body"
  have x: "13 \<notin> set ?x" using Cons.prems(1) by (simp add: kv line_ok_def)
  have t: "xs @ crlf @ concat (map header_line (kv # lines)) @ crlf @ body = xs @ crlf @ ?x @ ?tl"
    by (simp add: kv header_line_pair)
  have "\<not> matches_at (crlf @ crlf) (xs @ crlf @ ?x @ ?tl) l"
  proof
    assume m: "matches_at (crlf @ crlf) (xs @ crlf @ ?x @ ?tl) l"
    note c = matches_separator [OF m]
    consider "l < length xs" | "l = length xs" | "l = Suc (length xs)" | "length xs + 2 \<le> l" by linarith
    then show False
    proof cases
      case 1
      then show False using c(1) Cons.prems(2) nth_mem [of l xs] by (simp add: nth_append)
    next
      case 2
      then have "(?x @ ?tl) ! 0 = 13" using c(2) by (simp add: nth_append crlf_def)
      then have "hd ?x = 13" by (cases k) simp_all
      then show False using x hd_in_set [of ?x] by (metis append_is_Nil_conv list.distinct(1))
    next
      case 3
      then show False using c(1) by (simp add: nth_append crlf_def)
    next
      case 4
      define r where "r = l - (length xs + 2)"
      have l: "l = length xs + 2 + r" using 4 by (simp add: r_def)
      have "drop l (xs @ crlf @ ?x @ ?tl) = drop r (?x @ ?tl)" by (simp add: l crlf_def)
      moreover have "l + 4 \<le> length (xs @ crlf @ ?x @ ?tl)" using m by (simp add: matches_at_def crlf_def)
      ultimately have "matches_at (crlf @ crlf) (?x @ ?tl) r"
        using m by (simp add: matches_at_def l crlf_def)
      moreover have "r < length ?x + length (concat (map header_line lines))"
        using Cons.prems(3) by (simp add: l kv header_line_pair crlf_def)
      ultimately show False using Cons.IH [of ?x r] x Cons.prems(1) by simp
    qed
  qed
  then show ?case unfolding t .
qed

text \<open>The separator ends the head of a response, so its body is found there.\<close>

lemma get_body_response:
  assumes "13 \<notin> set version" "13 \<notin> set status" "13 \<notin> set reason" "list_all line_ok lines" "4 \<le> length body"
  shows "get_body (response_head version status reason lines @ body) =
    Some (length (response_head version status reason lines))"
proof -
  let ?x = "version @ [32] @ status @ [32] @ reason" and ?ls = "concat (map header_line lines)"
  let ?m = "?x @ crlf @ ?ls @ crlf @ body" and ?k = "length ?x + length ?ls"
  have "13 \<notin> set ?x" using assms by auto
  then have "\<forall>l < ?k. \<not> matches_at (crlf @ crlf) ?m l" using lines_no_separator [OF assms(4)] by blast
  moreover have "matches_at (crlf @ crlf) ?m ?k"
  proof (cases lines rule: rev_cases)
    case Nil
    then show ?thesis using matches_at_append [of "crlf @ crlf" ?x body] by simp
  next
    case (snoc ls kv)
    obtain k v where kv: "kv = (k, v)" by (cases kv)
    have "?m = (?x @ crlf @ concat (map header_line ls) @ k @ 58 # 32 # v) @ (crlf @ crlf) @ body"
      by (simp add: snoc kv header_line_pair)
    moreover have "?k = length (?x @ crlf @ concat (map header_line ls) @ k @ 58 # 32 # v)"
      by (simp add: snoc kv header_line_pair crlf_def)
    ultimately show ?thesis using matches_at_append [of "crlf @ crlf"] by metis
  qed
  ultimately have "first_match (crlf @ crlf) ?m ?k" by (simp add: first_match_def)
  from get_body_at [OF this] assms(5) show ?thesis by (simp add: response_head_def crlf_def)
qed

text \<open>The text of a request: every assignment appends its key, and a key assigned twice is printed
  twice, with its last value.\<close>

definition query_of :: "(byte list \<times> byte list) list \<Rightarrow> query_params" where
  "query_of kvs = foldl (\<lambda>q kv. query_assign (fst kv) (snd kv) q) query_new kvs"

lemma query_of_fields:
  "m_insert_order (query_of kvs) = map fst kvs \<and> m_values (query_of kvs) = map_of (rev kvs)"
  by (induction kvs rule: rev_induct)
    (auto simp: query_of_def query_new_def query_assign_def query_index_def Let_def)

lemma query_string_distinct:
  assumes "distinct (map fst kvs)"
  shows "query_string (query_of kvs) = concat (map (\<lambda>kv. fst kv @ ascii ''='' @ snd kv @ ascii ''&'') kvs)"
proof -
  have "map_of (rev kvs) k = Some v" if "(k, v) \<in> set kvs" for k v
    using assms that by (simp add: map_of_eq_Some_iff flip: rev_map)
  then show ?thesis
    by (auto simp: query_string_def query_of_fields comp_def intro!: arg_cong [of _ _ concat])
qed

section \<open>Properties\<close>

text \<open>C28: A well-formed response, whatever follows it in the buffer, is parsed into its version, its
  status code and the fields of its header lines, the last of two equal ones winning.\<close>

theorem parse_header_response:
  assumes "32 \<notin> set version" "32 \<notin> set status" "status \<noteq> []" "13 \<notin> set reason" "list_all line_ok lines"
  shows "parse_header (response_head version status reason lines @ body @ beyond)
      (length (response_head version status reason lines @ body)) =
    Inr ([ascii ''version'' \<mapsto> version, ascii ''status'' \<mapsto> status] ++ map_of (rev lines))"
  using parse_header_ok [OF assms refl, of body beyond] by simp

text \<open>\<open>HTTP/1.1 200 OK\<close> with one header line and a body of four bytes.\<close>

definition sample_response :: "byte list" where
  "sample_response = ascii ''HTTP/1.1 200 OK'' @ crlf @ ascii ''Content-Length: 4'' @ crlf @ crlf @ [100, 101, 102, 103]"

lemma sample_response_head:
  "response_head (ascii ''HTTP/1.1'') (ascii ''200'') (ascii ''OK'') [(ascii ''Content-Length'', ascii ''4'')] @
    [100, 101, 102, 103] = sample_response"
  by (simp add: sample_response_def response_head_def header_line_pair)

lemma length_sample_response: "length sample_response = 42"
  by (simp add: sample_response_def crlf_def)

theorem parse_header_response_witness:
  "parse_header (sample_response @ [0, 0]) 42 =
    Inr ([ascii ''version'' \<mapsto> ascii ''HTTP/1.1'', ascii ''status'' \<mapsto> ascii ''200''] ++
      map_of [(ascii ''Content-Length'', ascii ''4'')])"
proof -
  have ok: "list_all line_ok [(ascii ''Content-Length'', ascii ''4'')]" by (simp add: line_ok_def)
  have "32 \<notin> set (ascii ''HTTP/1.1'')" "32 \<notin> set (ascii ''200'')" "ascii ''200'' \<noteq> []" "13 \<notin> set (ascii ''OK'')"
    by simp_all
  from parse_header_response [OF this ok, of "[100, 101, 102, 103]" "[0, 0]"] show ?thesis
    unfolding sample_response_head append_assoc [symmetric] length_sample_response by simp
qed

text \<open>\<open>get_body\<close> returns the position behind the first empty line, but only if at least four bytes
  follow it: a shorter body is not found.\<close>

theorem get_body_first:
  assumes "first_match (crlf @ crlf) msg k"
  shows "get_body msg = (if k + 8 \<le> length msg then Some (k + 4) else None)"
  by (rule get_body_at [OF assms])

theorem get_body_first_witness: "get_body [1, 13, 10, 13, 10, 2, 3, 4] = None \<and> get_body [1, 13, 10, 13, 10, 2, 3, 4, 5] = Some 5"
proof -
  have m: "first_match (crlf @ crlf) ([1, 13, 10, 13, 10] @ xs) 1" for xs :: "byte list"
    by (auto simp: first_match_def matches_at_def crlf_def)
  show ?thesis using get_body_first [OF m, of "[2, 3, 4]"] get_body_first [OF m, of "[2, 3, 4, 5]"] by simp
qed

text \<open>A request built from distinct parameters lists them in the order of their insertion, each
  followed by an ampersand, also the last one.\<close>

theorem request_text:
  assumes "distinct (map fst kvs)" "0 \<notin> set host"
  shows "build_request host path (query_of kvs) =
    ascii ''GET '' @ path @ ascii ''?'' @
    concat (map (\<lambda>kv. fst kv @ ascii ''='' @ snd kv @ ascii ''&'') kvs) @ ascii '' HTTP/1.1'' @ crlf @
    ascii ''Host: '' @ host @ crlf @ crlf"
proof -
  have "takeWhile (\<lambda>c. c \<noteq> 0) host = host" using assms(2) by (auto simp: takeWhile_eq_all_conv)
  then show ?thesis by (simp add: build_request_def query_string_distinct [OF assms(1)])
qed

theorem request_text_witness:
  "build_request (ascii ''t'') (ascii ''/announce'')
     (query_of [(ascii ''uploaded'', ascii ''0''), (ascii ''port'', ascii ''443'')]) =
   ascii ''GET /announce?uploaded=0&port=443& HTTP/1.1'' @ crlf @ ascii ''Host: t'' @ crlf @ crlf"
  using request_text [of "[(ascii ''uploaded'', ascii ''0''), (ascii ''port'', ascii ''443'')]" "ascii ''t''"
      "ascii ''/announce''"] by simp

end
