(* ===== verification/Tracker.thy ===== *)
theory Tracker
  imports Torrent Http_Parser
begin

text \<open>
  The second half of \<open>src/torrent.cpp\<close>: the announce URL and the request to the tracker. The tracker
  and the network are an environment: the addresses of a host and port, and how the connection
  answers the writes and reads of a given request.

  \<open>setup_peerinfo\<close> is split at the request: \<open>request_peers\<close> is the part from sending it on, for any
  request.
\<close>

section \<open>The announce URL\<close>

definition substr :: "byte list \<Rightarrow> nat \<Rightarrow> nat \<Rightarrow> byte list res" where
  "substr s pos n = (if pos > length s then Inl (Throw Out_of_range) else Inr (take n (drop pos s)))"

definition get_protocol :: "byte list \<Rightarrow> byte list" where
  "get_protocol url = takeWhile (\<lambda>c. c \<noteq> 58) url"

definition get_host :: "byte list \<Rightarrow> byte list res" where
  "get_host url =
     (let start = length (get_protocol url) + 3;
          n = length (takeWhile (\<lambda>c. c \<noteq> 47 \<and> c \<noteq> 58) (drop start url)) in
      substr url start n)"

text \<open>The character at the end of a \<open>std::string\<close> is a zero.\<close>

definition get_port :: "byte list \<Rightarrow> byte list res" where
  "get_port url =
     bindE (get_host url) (\<lambda>host.
     let start = length (get_protocol url) + length host + 3;
         c = (if start < length url then url ! start else 0) in
     if c = 47 then Inr []
     else if c = 58 then substr url (start + 1) (length (takeWhile isdigit (drop (start + 1) url)))
     else Inr [])"

section \<open>The response\<close>

text \<open>\<open>std::vector<char>(body, body + content_len)\<close>, for the body of the first \<open>n\<close> bytes of the buffer.\<close>

definition body_range :: "byte list \<Rightarrow> nat \<Rightarrow> int \<Rightarrow> byte list res" where
  "body_range buff n content_len =
     (case get_body (take n buff) of
        None \<Rightarrow> if content_len = 0 then Inr [] else Inl Undefined
      | Some off \<Rightarrow> mem_get buff (int off) content_len)"

fun read_peers :: "byte list \<Rightarrow> info_hash \<Rightarrow> bnode option list \<Rightarrow> peer_info list res" where
  "read_peers my_id h [] = Inr []"
| "read_peers my_id h (peer # peers) =
     bindE (get_dict peer) (\<lambda>peer_doc.
     bindE (get_bytes (at_key ''peer id'' peer_doc)) (\<lambda>pid.
     bindE (get_bytes (at_key ''ip'' peer_doc)) (\<lambda>ip.
     bindE (get_int (at_key ''port'' peer_doc)) (\<lambda>port.
     bindE (hash_copy h) (\<lambda>h'.
     bindE (read_peers my_id h peers) (\<lambda>infos.
     Inr (peer_info_move \<lparr>m_remote_id = pid, m_remote_ip = text_of ip, m_remote_port = text_of (to_string port),
            m_id = my_id, m_info_hash = h'\<rparr> # infos)))))))"

definition read_response :: "bnode option \<Rightarrow> torrent \<Rightarrow> torrent res" where
  "read_response response t =
     bindE (get_dict response) (\<lambda>document.
     bindE (get_list (at_key ''peers'' document)) (\<lambda>peers.
     bindE (read_peers (torrent_id t) (torrent_info_hash t) peers) (\<lambda>infos.
     Inr (t\<lparr>m_peers_info := m_peers_info t @ infos\<rparr>))))"

section \<open>The request\<close>

text \<open>\<open>left\<close> is computed in \<open>size_t\<close>; an unset piece length is an indeterminate value.\<close>

definition bytes_left :: "torrent \<Rightarrow> int res" where
  "bytes_left t =
     (case m_info_piecelen t of
        None \<Rightarrow> Inl Undefined
      | Some len \<Rightarrow> Inr (sint (word_of_int (int (length (m_info_pieces t) div 20) * len) :: 64 word)))"

definition announce_params :: "byte list \<Rightarrow> byte list \<Rightarrow> int \<Rightarrow> query_params" where
  "announce_params hex my_id bytes =
     query_assign (ascii ''compact'') (ascii ''1'')
     (query_assign (ascii ''port'') (ascii ''443'')
     (query_assign (ascii ''left'') (to_string bytes)
     (query_assign (ascii ''downloaded'') (ascii ''0'')
     (query_assign (ascii ''uploaded'') (ascii ''0'')
     (query_assign (ascii ''peer_id'') my_id
     (query_assign (ascii ''info_hash'') hex query_new))))))"

text \<open>The environment: the answers to the writes and the reads may depend on the request.\<close>

record tracker_env =
  resolved :: "byte list \<Rightarrow> byte list \<Rightarrow> address list option"
  session_created :: bool
  writes :: "byte list \<Rightarrow> nat ssl_answer list"
  reads :: "byte list \<Rightarrow> byte list ssl_answer list"

abbreviation buff_size :: nat where "buff_size \<equiv> 1024 * 32"

text \<open>From the connected socket to the bytes of the body.\<close>

definition announce_request :: "byte list \<Rightarrow> torrent \<Rightarrow> byte list res" where
  "announce_request host t =
     bindE (bytes_left t) (\<lambda>bytes.
     bindE (hex_str (torrent_info_hash t)) (\<lambda>hex.
     Inr (build_request host (ascii ''/announce'') (announce_params hex (torrent_id t) bytes))))"

definition exchange :: "tracker_env \<Rightarrow> byte list \<Rightarrow> ssl_socket \<Rightarrow> byte list io" where
  "exchange env req sock =
     bindR (ssl_send (writes env req) sock) (\<lambda>_.
     bindR (ssl_recv buff_size (reads env req) sock) (\<lambda>(buff, n).
     bindR (Some (parse_header buff (nat n))) (\<lambda>headers.
     bindR (Some (stoi (case headers (ascii ''Content-Length'') of None \<Rightarrow> [] | Some v \<Rightarrow> v))) (\<lambda>content_len.
     Some (body_range buff (nat n) content_len)))))"

text \<open>From sending the request to the peers of the response.\<close>

definition request_peers :: "nat \<Rightarrow> tracker_env \<Rightarrow> byte list \<Rightarrow> torrent \<Rightarrow> torrent run" where
  "request_peers fuel env req t =
     bindR (exchange env req (m_sock t)) (\<lambda>body.
     bindR (decode fuel (set_bencode body decoder_default)) (\<lambda>(response, d).
     Some (read_response response t)))"

definition setup_peerinfo :: "nat \<Rightarrow> tracker_env \<Rightarrow> torrent \<Rightarrow> torrent run" where
  "setup_peerinfo fuel env t =
     bindR (Some (get_host (m_announce t))) (\<lambda>host.
     let protocol = get_protocol (m_announce t) in
     bindR (Some (get_port (m_announce t))) (\<lambda>port.
     if protocol = ascii ''udp'' then Some (Inl Exit_failure)
     else
       let service = (if protocol = ascii ''https'' \<and> port = [] then ascii ''443'' else port) in
       bindR (Some (connect_to (resolved env host service) (session_created env) (m_sock t))) (\<lambda>sock.
       let t = t\<lparr>m_sock := sock\<rparr> in
       if \<not> socket_ok sock then Some (Inr t)
       else
         bindR (Some (announce_request host t)) (\<lambda>req.
         request_peers fuel env req t))))"

end
