(* ===== verification/Bencode_Codec.thy ===== *)
theory Bencode_Codec
  imports Bencode
begin

text \<open>
  What the decoder of \<open>Bencode\<close> does: it inverts the encoder of the format on nodes without null
  pointers and negative numbers, it ends with twice the length of the input as fuel, and where it
  leaves the format (the byte 255, numbers from \<open>2 ^ 31\<close>, an unterminated length).
\<close>

text \<open>The overflow test is harmless below \<open>2 ^ 31\<close> and undefined from there to \<open>2 ^ 32\<close>.\<close>

lemma digit_overflows_small:
  assumes "0 \<le> v" "v \<le> int_max"
  shows "digit_overflows v c = Inr False"
proof -
  have "sint c \<le> 127" using sint_lt [of c] by simp
  moreover have "narrow32 v = v" using assms by (intro narrow32_id) auto
  ultimately show ?thesis using assms by (auto simp: digit_overflows_def i64_def Let_def)
qed

lemma narrow32_negative:
  assumes "int_max < v" "v < 2 ^ 32"
  shows "narrow32 v < 0"
proof -
  have "narrow32 v = narrow32 (v - 2 ^ 32)"
  proof -
    have "(word_of_int v :: 32 word) = word_of_int (v - 2 ^ 32)"
      by (rule word_of_int_eq_iff [THEN iffD2]) (simp add: take_bit_eq_mod)
    then show ?thesis unfolding narrow32_def by (rule arg_cong)
  qed
  also have "\<dots> = v - 2 ^ 32" using assms by (intro narrow32_id) auto
  finally show ?thesis using assms(2) by simp
qed

lemma digit_overflows_large:
  assumes "int_max < v" "v < 2 ^ 32" "isdigit c"
  shows "digit_overflows v c = Inl Undefined"
  using digit_sint [OF assms(3)] narrow32_negative [OF assms(1,2)] narrow32_range(1) [of v]
  by (simp add: digit_overflows_def i64_def Let_def)

text \<open>Running the two number loops over the digits of a number.\<close>

lemma int_loop_digit:
  assumes "i < length b" "b ! i = of_nat (48 + n)" "n < 10" "0 \<le> v" "v \<le> int_max"
  shows "int_loop b i v k = int_loop b (Suc i) (v * 10 + int n) (Suc k)"
  unfolding int_loop.simps [of b i] assms(2)
  using assms digit_char [OF assms(3)] digit_overflows_small [OF assms(4,5)] by (simp add: i64_def)

lemma str_len_loop_digit:
  assumes "i < length b" "b ! i = of_nat (48 + n)" "n < 10" "0 \<le> v" "v \<le> int_max"
  shows "str_len_loop b i v = str_len_loop b (Suc i) (v * 10 + int n)"
  unfolding str_len_loop.simps [of b i] assms(2)
  using assms digit_char [OF assms(3)] digit_overflows_small [OF assms(4,5)] by (simp add: i64_def)

text \<open>All but the last digit of \<open>n\<close> must stay below \<open>2 ^ 31\<close>.\<close>

lemma loops_digits:
  assumes "drop i b = digits n @ rest" "i \<le> length b" "int (n div 10) \<le> int_max"
  shows "\<exists>k. 0 < k \<and> int_loop b i 0 0 = int_loop b (i + length (digits n)) (int n) k"
    "str_len_loop b i 0 = str_len_loop b (i + length (digits n)) (int n)"
proof -
  have "(\<exists>k. 0 < k \<and> int_loop b i 0 0 = int_loop b (i + length (digits n)) (int n) k) \<and>
      str_len_loop b i 0 = str_len_loop b (i + length (digits n)) (int n)"
    using assms
  proof (induction n arbitrary: rest rule: digits.induct)
    case (1 n)
    show ?case
    proof (cases "n < 10")
      case True
      then have d: "digits n = [of_nat (48 + n)]" by (simp add: digits.simps)
      note p = drop_eq_parts [OF "1.prems"(1,2)]
      have "i < length b" "b ! i = of_nat (48 + n)" using p(1) p(3) [of 0] by (simp_all add: d)
      with int_loop_digit [of i b n 0 0] str_len_loop_digit [of i b n 0] True d show ?thesis by auto
    next
      case False
      let ?m = "n div 10" and ?c = "of_nat (48 + n mod 10) :: byte"
      have d: "digits n = digits ?m @ [?c]" using False by (subst digits.simps) simp
      have dr: "drop i b = digits ?m @ (?c # rest)" using "1.prems"(1) by (simp add: d)
      have "int (?m div 10) \<le> int_max" using "1.prems"(3) by linarith
      from "1.IH" [OF False dr "1.prems"(2) this] obtain k where
        ih: "0 < k" "int_loop b i 0 0 = int_loop b (i + length (digits ?m)) (int ?m) k"
        "str_len_loop b i 0 = str_len_loop b (i + length (digits ?m)) (int ?m)" by auto
      have l: "i + length (digits ?m) < length b" "b ! (i + length (digits ?m)) = ?c"
        using drop_eq_parts [of i b "digits ?m @ [?c]" rest] dr "1.prems"(2)
        by (auto simp: nth_append)
      have "int ?m * 10 + int (n mod 10) = int n"
        using div_mult_mod_eq [of n 10] by linarith
      with int_loop_digit [OF l _ _ "1.prems"(3), of k] str_len_loop_digit [OF l _ _ "1.prems"(3)] ih d
      show ?thesis by auto
    qed
  qed
  then show "\<exists>k. 0 < k \<and> int_loop b i 0 0 = int_loop b (i + length (digits n)) (int n) k"
    "str_len_loop b i 0 = str_len_loop b (i + length (digits n)) (int n)" by auto
qed

section \<open>The encoder of the format\<close>

definition encode_string :: "byte list \<Rightarrow> byte list" where
  "encode_string s = digits (length s) @ [sdel_token] @ s"

fun encode :: "bnode \<Rightarrow> byte list" where
  "encode (Bint n) = [int_token] @ digits (nat n) @ [end_token]"
| "encode (Bstr s) = encode_string s"
| "encode (Blist ns) = [list_token] @
     concat (map (\<lambda>n. case n of None \<Rightarrow> [] | Some x \<Rightarrow> encode x) ns) @ [end_token]"
| "encode (Bdict m) = [dict_token] @
     concat (map (\<lambda>(k, n). encode_string k @ (case n of None \<Rightarrow> [] | Some x \<Rightarrow> encode x)) m) @
     [end_token]"

text \<open>
  The nodes the encoder is meant for: no null pointers, distinct keys, numbers that are not
  negative and that the decoder's overflow test lets through.
\<close>

fun plain :: "bnode \<Rightarrow> bool" where
  "plain (Bint n) = (0 \<le> n \<and> n div 10 \<le> int_max)"
| "plain (Bstr s) = True"
| "plain (Blist ns) = (\<forall>n \<in> set ns. case n of None \<Rightarrow> False | Some x \<Rightarrow> plain x)"
| "plain (Bdict m) =
     (distinct (map fst m) \<and> (\<forall>(k, n) \<in> set m. case n of None \<Rightarrow> False | Some x \<Rightarrow> plain x))"

text \<open>\<open>n\<close> is decoded from its encoding at the index, which advances behind it.\<close>

definition decodes :: "bnode \<Rightarrow> bool" where
  "decodes n =
     (\<forall>d rest fuel. m_index d \<le> length (m_bencode d) \<longrightarrow> drop (m_index d) (m_bencode d) = encode n @ rest \<longrightarrow>
        int (length (m_bencode d)) \<le> int_max \<longrightarrow> length (encode n) \<le> fuel \<longrightarrow>
        decode fuel d = Some (Inr (Some n, d\<lparr>m_index := m_index d + length (encode n), m_node := Some n\<rparr>)))"

lemma peek_drop:
  "drop (m_index d) (m_bencode d) = c # rest \<Longrightarrow> m_index d \<le> length (m_bencode d) \<Longrightarrow>
   peek d = c \<and> m_index d < length (m_bencode d)"
  using drop_eq_parts(1,3) [of "m_index d" "m_bencode d" "[c]" rest]
  by (force simp: peek_def)

lemma encode_length: "plain n \<Longrightarrow> 0 < length (encode n)"
  by (cases n) (auto simp: encode_string_def)

lemma decode_string_ok:
  assumes "m_index d \<le> length (m_bencode d)" "drop (m_index d) (m_bencode d) = encode_string s @ rest"
    "int (length (m_bencode d)) \<le> int_max" "length (encode_string s) \<le> fuel"
  shows "decode fuel d = Some (Inr (Some (Bstr s),
    d\<lparr>m_index := m_index d + length (encode_string s), m_node := Some (Bstr s)\<rparr>))"
proof -
  let ?b = "m_bencode d" and ?i = "m_index d" and ?n = "length s"
  let ?j = "?i + length (digits ?n)"
  have dr: "drop ?i ?b = digits ?n @ (sdel_token # s @ rest)" using assms(2) by (simp add: encode_string_def)
  note p = drop_eq_parts [OF dr assms(1)]
  have q: "?j < length ?b" "?b ! ?j = sdel_token" "drop (Suc ?j) ?b = s @ rest"
    using p(1,2) drop_eq_parts [of ?j ?b "[sdel_token]" "s @ rest"] by force+
  have len: "Suc ?j + ?n \<le> length ?b" using drop_eq_parts(1) [OF q(3)] q(1) by simp
  have "int (?n div 10) \<le> int_max" using len assms(3) by linarith
  from loops_digits(2) [OF dr assms(1) this]
  have g: "get_str_len d = Inr (int ?n, d\<lparr>m_index := Suc ?j\<rparr>)"
    using q(1,2) by (simp add: get_str_len_def str_len_loop.simps [of ?b ?j])
  obtain c k cs where c: "digits ?n = c # cs" "c = of_nat (48 + k)" "k < 10"
    using digits_head [of ?n] by blast
  then have cc: "isdigit c" "c \<noteq> eof_char" "c \<noteq> int_token" "c \<noteq> list_token" "c \<noteq> dict_token"
    using digit_char [of k] by simp_all
  have pk: "peek d = c" "?i < length ?b" using peek_drop [of d c] dr assms(1) c(1) by auto
  obtain f where f: "fuel = Suc f" using assms(4) c(1) by (cases fuel) (auto simp: encode_string_def)
  have s: "decode_string (int ?n) (d\<lparr>m_index := Suc ?j\<rparr>) = Inr (Bstr s)"
    using q(3) len assms(3) by (simp add: decode_string_def i64_def)
  show ?thesis
    unfolding f using pk cc g s len
    by (simp add: keep_def step_by_def encode_string_def)
qed

lemma encode_head:
  assumes "plain n"
  shows "\<exists>c cs. encode n = c # cs \<and> c \<noteq> end_token"
proof (cases n)
  case (Bstr s)
  obtain k cs where "k < 10" "digits (length s) = of_nat (48 + k) # cs"
    using digits_head [of "length s"] by blast
  with Bstr digit_char [of k] show ?thesis by (simp add: encode_string_def)
qed auto

text \<open>One turn of a loop: the element at the index is not the end token.\<close>

lemma element_ahead:
  assumes "drop (m_index d) (m_bencode d) = encode n @ rest" "m_index d \<le> length (m_bencode d)" "plain n"
  shows "m_index d < length (m_bencode d) \<and> m_bencode d ! m_index d \<noteq> end_token"
proof -
  obtain c cs where "encode n = c # cs" "c \<noteq> end_token" using encode_head [OF assms(3)] by blast
  with drop_eq_parts(1,3) [of "m_index d" "m_bencode d" "[c]" "cs @ rest"] assms(1,2) show ?thesis
    by force
qed

lemma list_loop_ok:
  assumes "\<forall>x \<in> set ns. plain x \<and> decodes x"
    "m_index d \<le> length (m_bencode d)" "int (length (m_bencode d)) \<le> int_max"
    "drop (m_index d) (m_bencode d) = concat (map encode ns) @ end_token # rest"
    "length (concat (map encode ns)) < fuel"
  shows "\<exists>m. list_loop fuel acc d = Some (Inr (Blist (acc @ map Some ns),
    d\<lparr>m_index := m_index d + length (concat (map encode ns)), m_node := m\<rparr>))"
  using assms
proof (induction ns arbitrary: fuel acc d)
  case Nil
  then obtain f where "fuel = Suc f" by (cases fuel) auto
  moreover have "m_index d < length (m_bencode d)" "m_bencode d ! m_index d = end_token"
    using drop_eq_parts [of "m_index d" "m_bencode d" "[end_token]" rest] Nil.prems(2,4) by force+
  ultimately show ?case by (auto intro: exI [of _ "m_node d"])
next
  case (Cons n ns)
  let ?l = "length (encode n)"
  obtain f where f: "fuel = Suc f" using Cons.prems(5) by (cases fuel) auto
  have dr: "drop (m_index d) (m_bencode d) = encode n @ (concat (map encode ns) @ end_token # rest)"
    using Cons.prems(4) by simp
  have n: "plain n" "decodes n" using Cons.prems(1) by auto
  let ?d = "d\<lparr>m_index := m_index d + ?l, m_node := Some n\<rparr>"
  have dec: "decode f d = Some (Inr (Some n, ?d))"
    using n(2) dr Cons.prems(2,3,5) f by (auto simp: decodes_def)
  have step: "list_loop fuel acc d = list_loop f (acc @ [Some n]) ?d"
    using element_ahead [OF dr Cons.prems(2) n(1)] dec by (simp add: f)
  have "length (concat (map encode ns)) < f"
    using Cons.prems(5) encode_length [OF n(1)] f by (simp del: length_greater_0_conv)
  with Cons.IH [of ?d f "acc @ [Some n]"] drop_eq_parts [OF dr Cons.prems(2)] Cons.prems(1,3)
  show ?case by (auto simp: step add.assoc)
qed

abbreviation encode_entry :: "byte list \<times> bnode \<Rightarrow> byte list" where
  "encode_entry e \<equiv> encode_string (fst e) @ encode (snd e)"

lemma dict_loop_ok:
  assumes "\<forall>x \<in> snd ` set es. plain x \<and> decodes x" "distinct (map fst acc @ map fst es)"
    "m_index d \<le> length (m_bencode d)" "int (length (m_bencode d)) \<le> int_max"
    "drop (m_index d) (m_bencode d) = concat (map encode_entry es) @ end_token # rest"
    "length (concat (map encode_entry es)) < fuel"
  shows "\<exists>m. dict_loop fuel acc d = Some (Inr (Bdict (acc @ map (map_prod id Some) es),
    d\<lparr>m_index := m_index d + length (concat (map encode_entry es)), m_node := m\<rparr>))"
  using assms
proof (induction es arbitrary: fuel acc d)
  case Nil
  then obtain f where "fuel = Suc f" by (cases fuel) auto
  moreover have "m_index d < length (m_bencode d)" "m_bencode d ! m_index d = end_token"
    using drop_eq_parts [of "m_index d" "m_bencode d" "[end_token]" rest] Nil.prems(3,5) by force+
  ultimately show ?case by (auto intro: exI [of _ "m_node d"])
next
  case (Cons e es)
  obtain k n where e: "e = (k, n)" by (cases e)
  let ?lk = "length (encode_string k)" and ?ln = "length (encode n)"
  let ?tail = "concat (map encode_entry es) @ end_token # rest"
  obtain f where f: "fuel = Suc f" using Cons.prems(6) by (cases fuel) auto
  have dr: "drop (m_index d) (m_bencode d) = encode_string k @ (encode n @ ?tail)"
    using Cons.prems(5) by (simp add: e)
  have n: "plain n" "decodes n" using Cons.prems(1) by (auto simp: e)
  let ?d = "d\<lparr>m_index := m_index d + ?lk, m_node := Some (Bstr k)\<rparr>"
  let ?d' = "?d\<lparr>m_index := m_index ?d + ?ln, m_node := Some n\<rparr>"
  have k: "decode f d = Some (Inr (Some (Bstr k), ?d))"
    using decode_string_ok [OF Cons.prems(3) dr Cons.prems(4), of f] Cons.prems(6) f by (simp add: e)
  note p = drop_eq_parts [OF dr Cons.prems(3)]
  have v: "decode f ?d = Some (Inr (Some n, ?d'))"
    using n(2) p(1,2) Cons.prems(4,6) f by (auto simp: decodes_def e)
  have ahead: "m_index d < length (m_bencode d) \<and> m_bencode d ! m_index d \<noteq> end_token"
    using element_ahead [of d "Bstr k"] dr Cons.prems(3) by simp
  have fresh: "AList.update k (Some n) acc = acc @ [(k, Some n)]"
    using Cons.prems(2) by (induction acc) (auto simp: e)
  have step: "dict_loop fuel acc d = dict_loop f (acc @ [(k, Some n)]) ?d'"
    using ahead k v fresh by (simp add: f)
  have "length (concat (map encode_entry es)) < f"
    using Cons.prems(6) encode_length [OF n(1)] f by (simp add: e del: length_greater_0_conv)
  moreover have "drop (m_index d + ?lk + ?ln) (m_bencode d) = ?tail"
    "m_index d + ?lk + ?ln \<le> length (m_bencode d)"
    using drop_eq_parts [OF p(2,1)] by auto
  ultimately show ?case
    using Cons.IH [of "acc @ [(k, Some n)]" ?d' f] Cons.prems(1,2,4) by (auto simp: step e add.assoc)
qed

lemma plain_decodes: "plain n \<Longrightarrow> decodes n"
proof (induction n)
  case (Bint v)
  show ?case
    unfolding decodes_def
  proof (intro allI impI)
    fix d :: decoder and rest fuel
    let ?b = "m_bencode d" and ?i = "m_index d" and ?ds = "digits (nat v)"
    assume a: "?i \<le> length ?b" "drop ?i ?b = encode (Bint v) @ rest" "int (length ?b) \<le> int_max"
      "length (encode (Bint v)) \<le> fuel"
    have dr: "drop ?i ?b = [int_token] @ (?ds @ end_token # rest)" using a(2) by simp
    note p = drop_eq_parts [OF dr a(1)]
    have i: "?i < length ?b" "peek d = int_token" using peek_drop [of d int_token] dr a(1) by auto
    have st: "m_index (step_by 1 d) = Suc ?i" "step_by 1 d = d\<lparr>m_index := Suc ?i\<rparr>"
      using i(1) by (simp_all add: step_by_def)
    let ?j = "Suc ?i + length ?ds"
    have ds: "drop (Suc ?i) ?b = ?ds @ (end_token # rest)" "Suc ?i \<le> length ?b" using p(1,2) by auto
    have e: "?j < length ?b" "?b ! ?j = end_token"
      using drop_eq_parts [OF ds] drop_eq_parts [of ?j ?b "[end_token]" rest] by force+
    have "int (nat v div 10) \<le> int_max" using Bint by (simp add: zdiv_int)
    from loops_digits(1) [OF ds this] obtain k where
      k: "0 < k" "int_loop ?b (Suc ?i) 0 0 = int_loop ?b ?j (int (nat v)) k" by auto
    have "int_loop ?b ?j (int (nat v)) k = Inr (int (nat v), k, ?j)"
      by (subst int_loop.simps) (use e in simp)
    then have "decode_int (step_by 1 d) = Inr (Bint v, d\<lparr>m_index := ?j\<rparr>)"
      using k e(1) Bint by (simp add: decode_int_def st(2) del: One_nat_def)
    moreover obtain f where "fuel = Suc f" using a(4) by (cases fuel) auto
    ultimately show "decode fuel d =
        Some (Inr (Some (Bint v), d\<lparr>m_index := ?i + length (encode (Bint v)), m_node := Some (Bint v)\<rparr>))"
      using i e by (simp add: keep_def step_by_def)
  qed
next
  case (Bstr s)
  then show ?case using decode_string_ok by (simp add: decodes_def)
next
  case (Blist ns)
  obtain xs where xs: "ns = map Some xs"
    using Blist.prems by (metis ex_map_conv not_None_eq option.simps(4) plain.simps(3))
  have ok: "\<forall>x \<in> set xs. plain x \<and> decodes x" using Blist by (auto simp: xs)
  have enc: "encode (Blist ns) = [list_token] @ (concat (map encode xs) @ [end_token])"
    by (simp add: xs comp_def)
  show ?case
    unfolding decodes_def
  proof (intro allI impI)
    fix d :: decoder and rest fuel
    let ?b = "m_bencode d" and ?i = "m_index d" and ?l = "length (concat (map encode xs))"
    assume a: "?i \<le> length ?b" "drop ?i ?b = encode (Blist ns) @ rest" "int (length ?b) \<le> int_max"
      "length (encode (Blist ns)) \<le> fuel"
    have dr: "drop ?i ?b = [list_token] @ (concat (map encode xs) @ end_token # rest)" using a(2) enc by simp
    note p = drop_eq_parts [OF dr a(1)]
    have i: "?i < length ?b" "peek d = list_token" using peek_drop [of d list_token] dr a(1) by auto
    let ?d = "d\<lparr>m_index := Suc ?i\<rparr>"
    have st: "step_by 1 d = ?d" using i(1) by (simp add: step_by_def)
    obtain f where f: "fuel = Suc f" using a(4) by (cases fuel) auto
    have "?l < f" using a(4) f enc by simp
    with list_loop_ok [OF ok, of ?d rest f "[]"] p(1,2) a(3) obtain m where
      m: "list_loop f [] ?d = Some (Inr (Blist ns, ?d\<lparr>m_index := Suc ?i + ?l, m_node := m\<rparr>))"
      by (auto simp: xs)
    have "Suc ?i + ?l < length ?b"
      using drop_eq_parts(1) [of "Suc ?i" ?b "concat (map encode xs) @ [end_token]" rest] p(1,2) by simp
    then show "decode fuel d =
        Some (Inr (Some (Blist ns), d\<lparr>m_index := ?i + length (encode (Blist ns)), m_node := Some (Blist ns)\<rparr>))"
      unfolding enc using i st m by (simp add: f keep_def step_by_def)
  qed
next
  case (Bdict m)
  define es where "es = map (\<lambda>(k, n). (k, the n)) m"
  have some: "case n of None \<Rightarrow> False | Some x \<Rightarrow> plain x" if "(k, n) \<in> set m" for k n
    using Bdict.prems that by auto
  have each: "map_prod id Some (case e of (k, n) \<Rightarrow> (k, the n)) = e" if "e \<in> set m" for e
    using some [of "fst e" "snd e"] that by (cases e; cases "snd e") auto
  have m: "m = map (map_prod id Some) es"
    unfolding es_def map_map comp_def by (rule sym, rule map_idI) (rule each)
  have ok: "\<forall>x \<in> snd ` set es. plain x \<and> decodes x"
  proof
    fix x
    assume "x \<in> snd ` set es"
    then obtain k where "(k, x) \<in> set es" by auto
    then have k: "(k, Some x) \<in> set m" by (force simp: m)
    then have "plain x" using some [OF k] by simp
    with Bdict.IH [OF k, of "Some x" x] show "plain x \<and> decodes x" by simp
  qed
  have dist: "distinct (map fst ([] :: (byte list \<times> bnode option) list) @ map fst es)"
    using Bdict.prems by (simp add: m comp_def)
  have enc: "encode (Bdict m) = [dict_token] @ (concat (map encode_entry es) @ [end_token])"
    by (simp add: m comp_def case_prod_beta)
  show ?case
    unfolding decodes_def
  proof (intro allI impI)
    fix d :: decoder and rest fuel
    let ?b = "m_bencode d" and ?i = "m_index d" and ?l = "length (concat (map encode_entry es))"
    assume a: "?i \<le> length ?b" "drop ?i ?b = encode (Bdict m) @ rest" "int (length ?b) \<le> int_max"
      "length (encode (Bdict m)) \<le> fuel"
    have dr: "drop ?i ?b = [dict_token] @ (concat (map encode_entry es) @ end_token # rest)"
      using a(2) enc by simp
    note p = drop_eq_parts [OF dr a(1)]
    have i: "?i < length ?b" "peek d = dict_token" using peek_drop [of d dict_token] dr a(1) by auto
    let ?d = "d\<lparr>m_index := Suc ?i\<rparr>"
    have st: "step_by 1 d = ?d" using i(1) by (simp add: step_by_def)
    obtain f where f: "fuel = Suc f" using a(4) by (cases fuel) auto
    have "?l < f" using a(4) f enc by simp
    with dict_loop_ok [OF ok dist, of ?d rest f] p(1,2) a(3) obtain q where
      q: "dict_loop f [] ?d = Some (Inr (Bdict m, ?d\<lparr>m_index := Suc ?i + ?l, m_node := q\<rparr>))"
      by (auto simp: m)
    have "Suc ?i + ?l < length ?b"
      using drop_eq_parts(1) [of "Suc ?i" ?b "concat (map encode_entry es) @ [end_token]" rest] p(1,2) by simp
    then show "decode fuel d =
        Some (Inr (Some (Bdict m), d\<lparr>m_index := ?i + length (encode (Bdict m)), m_node := Some (Bdict m)\<rparr>))"
      unfolding enc using i st q by (simp add: f keep_def step_by_def)
  qed
qed

text \<open>C14: Decoding the encoding of a node that is \<open>plain\<close> (no null pointers, the keys of a dictionary
  distinct, every number \<open>n\<close> with \<open>0 \<le> n\<close> and \<open>n div 10 \<le> INT_MAX\<close>, beyond which \<open>decode_int\<close> is
  undefined), whatever follows it in an input of at most \<open>INT_MAX\<close> bytes, returns the node and stops right
  behind its encoding; the length of the encoding is enough fuel.\<close>

theorem decode_encode:
  assumes "plain n" "int (length (encode n @ rest)) \<le> int_max"
  shows "decode (length (encode n)) (decoder_new (encode n @ rest)) =
    Some (Inr (Some n, \<lparr>m_bencode = encode n @ rest, m_index = length (encode n), m_node = Some n\<rparr>))"
  using plain_decodes [OF assms(1)] assms(2) by (simp add: decodes_def decoder_new_def)

text \<open>The node of the witnesses: \<open>d3:fool1:ai7eee\<close>.\<close>

definition sample_node :: bnode where
  "sample_node = Bdict [([102, 111, 111], Some (Blist [Some (Bstr [97]), Some (Bint 7)]))]"

lemma sample_encoding:
  "encode sample_node = [100, 51, 58, 102, 111, 111, 108, 49, 58, 97, 105, 55, 101, 101, 101]"
  by (simp add: sample_node_def encode_string_def digits.simps)

theorem decode_encode_witness:
  "decode 15 (decoder_new [100, 51, 58, 102, 111, 111, 108, 49, 58, 97, 105, 55, 101, 101, 101, 0]) =
    Some (Inr (Some sample_node,
      \<lparr>m_bencode = [100, 51, 58, 102, 111, 111, 108, 49, 58, 97, 105, 55, 101, 101, 101, 0],
       m_index = 15, m_node = Some sample_node\<rparr>))"
proof -
  have p: "plain sample_node" by (simp add: sample_node_def)
  have l: "length (encode sample_node) = 15" by (simp add: sample_encoding)
  have "int (length (encode sample_node @ [0])) \<le> int_max" by (simp add: l)
  from decode_encode [OF p this] show ?thesis
    unfolding l by (simp only: sample_encoding append.simps)
qed

section \<open>Progress and fuel\<close>

lemma int_loop_progress: "int_loop b i a k = Inr (v, c, j) \<Longrightarrow> i \<le> j"
proof (induction "length b - i" arbitrary: i a k rule: less_induct)
  case less
  show ?case
    using less.prems less.hyps [of "Suc i"]
    by (subst (asm) int_loop.simps) (fastforce split: if_splits)
qed

lemma str_len_loop_progress: "str_len_loop b i a = Inr (v, j) \<Longrightarrow> i < j"
proof (induction "length b - i" arbitrary: i a rule: less_induct)
  case less
  show ?case
    using less.prems less.hyps [of "Suc i"]
    by (subst (asm) str_len_loop.simps) (fastforce split: if_splits)
qed

text \<open>\<open>d'\<close> is a later state of the decoder \<open>d\<close>.\<close>

definition later :: "decoder \<Rightarrow> decoder \<Rightarrow> bool" where
  "later d d' = (m_bencode d' = m_bencode d \<and> m_index d \<le> m_index d')"

lemma later_refl [simp]: "later d d" by (simp add: later_def)

lemma later_trans: "later d d' \<Longrightarrow> later d' d'' \<Longrightarrow> later d d''" by (simp add: later_def)

lemma later_step [simp]: "later d (step_by n d)" by (simp add: later_def step_by_def)

lemma later_keep: "keep n d = (x, d') \<Longrightarrow> later d d'" by (auto simp: later_def keep_def)

lemma later_decode_int: "decode_int d = Inr (n, d') \<Longrightarrow> later d d'"
  by (auto simp: decode_int_def later_def bindE_def dest!: int_loop_progress split: sum.splits if_splits)

lemma later_get_str_len: "get_str_len d = Inr (n, d') \<Longrightarrow> later d d' \<and> m_index d < m_index d'"
  by (auto simp: get_str_len_def later_def bindE_def dest!: str_len_loop_progress split: sum.splits)

lemma step_one: "m_index d < length (m_bencode d) \<Longrightarrow> m_index (step_by 1 d) = Suc (m_index d)"
  by (simp add: step_by_def)

lemma bindR_Some_Inr: "bindR r f = Some (Inr y) \<longleftrightarrow> (\<exists>x. r = Some (Inr x) \<and> f x = Some (Inr y))"
  by (auto simp: bindR_def split: option.splits sum.splits)

lemma bindR_None: "bindR r f = None \<longleftrightarrow> r = None \<or> (\<exists>x. r = Some (Inr x) \<and> f x = None)"
  by (auto simp: bindR_def split: option.splits sum.splits)

text \<open>A turn of the loop of a dictionary that goes on.\<close>

lemma dict_turn:
  assumes "dict_loop (Suc fuel) es d = Some (Inr r)"
    "m_index d < length (m_bencode d) \<and> m_bencode d ! m_index d \<noteq> end_token"
  obtains k d1 n d2 where "decode fuel d = Some (Inr (Some (Bstr k), d1))"
    "decode fuel d1 = Some (Inr (n, d2))" "dict_loop fuel (AList.update k n es) d2 = Some (Inr r)"
proof -
  from assms obtain x d1 where x: "decode fuel d = Some (Inr (x, d1))"
    "(case x of None \<Rightarrow> Some (Inl Undefined)
      | Some (Bstr key) \<Rightarrow> bindR (decode fuel d1) (\<lambda>(n, d2). dict_loop fuel (AList.update key n es) d2)
      | Some _ \<Rightarrow> Some (Inl (Throw (Invalid_argument ''Invalid syntax : Key must be of string type'')))) =
      Some (Inr r)"
    by (auto simp: bindR_Some_Inr)
  obtain k where k: "x = Some (Bstr k)"
    using x(2) by (cases x) (auto split: bnode.splits)
  with x(2) obtain n d2 where "decode fuel d1 = Some (Inr (n, d2))"
    "dict_loop fuel (AList.update k n es) d2 = Some (Inr r)"
    by (auto simp: bindR_Some_Inr)
  with x(1) k that show thesis by blast
qed

text \<open>\<open>decode\<close> moves the index, unless it is at the end or at the byte 255.\<close>

lemma decode_later:
  "decode fuel d = Some (Inr (n, d')) \<Longrightarrow> later d d' \<and>
     (m_index d < length (m_bencode d) \<longrightarrow> m_bencode d ! m_index d \<noteq> eof_char \<longrightarrow> m_index d < m_index d')"
  "list_loop fuel xs d = Some (Inr (m, d')) \<Longrightarrow> later d d'"
  "dict_loop fuel es d = Some (Inr (m, d')) \<Longrightarrow> later d d'"
proof (induction fuel d and fuel xs d and fuel es d
    arbitrary: n d' and m d' and m d' rule: decode_list_loop_dict_loop.induct)
  case (2 fuel d)
  let ?d = "step_by 1 d"
  have run: "later d e' \<and> (m_index d < length (m_bencode d) \<longrightarrow> m_index d < m_index e')"
    if "later ?d e" "keep x (step_by 1 e) = (y, e')" for e x y e'
    using that step_one [of d] later_trans [OF later_step that(1)]
    by (auto simp: later_def keep_def step_by_def split: if_splits)
  have str: "later d e' \<and> m_index d < m_index e'"
    if "get_str_len d = Inr (l, e)" "keep x (step_by k e) = (y, e')" for l e k x y e'
    using later_get_str_len [OF that(1)] that(2) by (auto simp: later_def keep_def step_by_def split: if_splits)
  have ll: "later ?d e" if "list_loop fuel [] ?d = Some (Inr (x, e))" "peek d = list_token"
    "m_index d < length (m_bencode d)" for x e
    using "2.IH"(1) [of "peek d"] that by auto
  have dl: "later ?d e" if "dict_loop fuel [] ?d = Some (Inr (x, e))" "peek d = dict_token"
    "m_index d < length (m_bencode d)" for x e
    using "2.IH"(2) [of "peek d"] that by auto
  have "peek d = m_bencode d ! m_index d" if "m_index d < length (m_bencode d)"
    using that by (simp add: peek_def)
  with "2.prems" show ?case
    by (auto simp: Let_def bindR_Some_Inr simp del: One_nat_def split: if_splits
      dest!: later_decode_int ll dl run str)
next
  case (4 fuel xs d)
  then show ?case
    by (auto simp: bindR_Some_Inr split: if_splits intro: later_trans)
next
  case (6 fuel es d)
  show ?case
  proof (cases "m_index d < length (m_bencode d) \<and> m_bencode d ! m_index d \<noteq> end_token")
    case True
    from dict_turn [OF "6.prems" this] obtain k d1 n d2 where
      t: "decode fuel d = Some (Inr (Some (Bstr k), d1))" "decode fuel d1 = Some (Inr (n, d2))"
        "dict_loop fuel (AList.update k n es) d2 = Some (Inr (m, d'))" by blast
    have "later d d1" using "6.IH"(1) [OF True t(1)] by simp
    moreover have "later d1 d2" using "6.IH"(2) [OF True t(1) refl refl refl t(2)] by simp
    moreover have "later d2 d'" using "6.IH"(3) [OF True t(1) refl refl refl t(2) refl t(3)] .
    ultimately show ?thesis by (meson later_trans)
  next
    case False
    with "6.prems" show ?thesis by (auto split: if_splits)
  qed
qed auto

text \<open>Every turn of a loop uses at least one byte, and at most two units of fuel.\<close>

lemma enough_fuel:
  "eof_char \<notin> set (m_bencode d) \<Longrightarrow> max 1 (2 * (length (m_bencode d) - m_index d)) \<le> fuel \<Longrightarrow>
     decode fuel d \<noteq> None"
  "eof_char \<notin> set (m_bencode d) \<Longrightarrow> 2 * (length (m_bencode d) - m_index d) < fuel \<Longrightarrow>
     list_loop fuel xs d \<noteq> None"
  "eof_char \<notin> set (m_bencode d) \<Longrightarrow> 2 * (length (m_bencode d) - m_index d) < fuel \<Longrightarrow>
     dict_loop fuel es d \<noteq> None"
proof (induction fuel d and fuel xs d and fuel es d rule: decode_list_loop_dict_loop.induct)
  case (2 fuel d)
  let ?d = "step_by 1 d"
  have rem: "2 * (length (m_bencode ?d) - m_index ?d) < fuel" if "m_index d < length (m_bencode d)"
    using "2.prems"(2) that by (simp add: step_by_def)
  have ll: "list_loop fuel [] ?d \<noteq> None" if "peek d = list_token" "m_index d < length (m_bencode d)"
    using "2.IH"(1) [of "peek d"] that rem "2.prems"(1) by simp
  have dl: "dict_loop fuel [] ?d \<noteq> None" if "peek d = dict_token" "m_index d < length (m_bencode d)"
    using "2.IH"(2) [of "peek d"] that rem "2.prems"(1) by simp
  show ?case using ll dl by (auto simp: Let_def bindR_None simp del: One_nat_def not_None_eq)
next
  case (4 fuel xs d)
  show ?case
  proof (cases "m_index d < length (m_bencode d) \<and> m_bencode d ! m_index d \<noteq> end_token")
    case True
    then have "m_bencode d ! m_index d \<noteq> eof_char" using "4.prems"(1) by (metis nth_mem)
    have "list_loop fuel (xs @ [n]) d1 \<noteq> None" if t: "decode fuel d = Some (Inr (n, d1))" for n d1
    proof -
      have l: "m_bencode d1 = m_bencode d" "m_index d < m_index d1"
        using decode_later(1) [OF t] True \<open>m_bencode d ! m_index d \<noteq> eof_char\<close> by (auto simp: later_def)
      then have "2 * (length (m_bencode d1) - m_index d1) < fuel" using "4.prems"(2) True by auto
      with "4.IH"(2) [OF True t refl] "4.prems"(1) l(1) show ?thesis by simp
    qed
    moreover have "max 1 (2 * (length (m_bencode d) - m_index d)) \<le> fuel" using "4.prems"(2) True by auto
    then have "decode fuel d \<noteq> None" by (rule "4.IH"(1) [OF True "4.prems"(1)])
    ultimately show ?thesis using True by (auto simp: bindR_None)
  qed auto
next
  case (6 fuel es d)
  show ?case
  proof (cases "m_index d < length (m_bencode d) \<and> m_bencode d ! m_index d \<noteq> end_token")
    case True
    then have ne: "m_bencode d ! m_index d \<noteq> eof_char" using "6.prems"(1) by (metis nth_mem)
    have "max 1 (2 * (length (m_bencode d) - m_index d)) \<le> fuel" using "6.prems"(2) True by auto
    then have one: "decode fuel d \<noteq> None" by (rule "6.IH"(1) [OF True "6.prems"(1)])
    have two: "decode fuel d1 \<noteq> None" and three: "\<And>n d2. decode fuel d1 = Some (Inr (n, d2)) \<Longrightarrow>
        dict_loop fuel (AList.update k n es) d2 \<noteq> None"
      if t: "decode fuel d = Some (Inr (Some (Bstr k), d1))" for k d1
    proof -
      have l: "m_bencode d1 = m_bencode d" "m_index d < m_index d1"
        using decode_later(1) [OF t] True ne by (auto simp: later_def)
      then have r: "max 1 (2 * (length (m_bencode d1) - m_index d1)) \<le> fuel"
        "2 * (length (m_bencode d1) - m_index d1) < fuel" using "6.prems"(2) True by auto
      show "decode fuel d1 \<noteq> None"
        using "6.IH"(2) [OF True t refl refl refl] l(1) r(1) "6.prems"(1) by simp
      show "dict_loop fuel (AList.update k n es) d2 \<noteq> None"
        if v: "decode fuel d1 = Some (Inr (n, d2))" for n d2
      proof -
        have l2: "m_bencode d2 = m_bencode d" "m_index d1 \<le> m_index d2"
          using decode_later(1) [OF v] l(1) by (auto simp: later_def)
        then have "2 * (length (m_bencode d2) - m_index d2) < fuel" using r(2) l(1) by auto
        with "6.IH"(3) [OF True t refl refl refl v refl] l2(1) "6.prems"(1) show ?thesis by simp
      qed
    qed
    show ?thesis
      using True one two three
      by (auto simp: bindR_None simp del: not_None_eq split: option.splits bnode.splits)
  qed auto
qed auto

text \<open>C15: Decoding ends on every input without the byte 255: twice its length is enough fuel.\<close>

theorem decode_terminates:
  assumes "eof_char \<notin> set b" "max 1 (2 * length b) \<le> fuel"
  shows "\<exists>r. decode fuel (decoder_new b) = Some r"
  using enough_fuel(1) [of "decoder_new b" fuel] assms by (simp add: decoder_new_def)

theorem decode_terminates_witness: "\<exists>r. decode 6 (decoder_new [108, 108, 101]) = Some r"
  by (rule decode_terminates) simp_all

text \<open>C38: The byte 255 inside a list is taken for the end of the input without being consumed:
  no fuel is enough, the decoder appends null pointers for ever.\<close>

theorem byte_255_never_ends:
  "decode fuel (decoder_new (list_token # eof_char # rest)) = None"
proof -
  let ?b = "list_token # eof_char # rest"
  have stay: "list_loop f xs \<lparr>m_bencode = ?b, m_index = 1, m_node = m\<rparr> = None" (is "list_loop f xs ?d = _")
    for f xs m
  proof (induction f arbitrary: xs)
    case (Suc f)
    have "decode f ?d = None \<or> decode f ?d = Some (Inr (None, ?d))"
      by (cases f) (simp_all add: peek_def)
    then show ?case using Suc.IH by auto
  qed simp
  show ?thesis by (cases fuel) (simp_all add: decoder_new_def peek_def step_by_def stay [unfolded One_nat_def])
qed

section \<open>Numbers\<close>

lemma int_loop_sound:
  "int_loop b i a k = Inr (v, c, j) \<Longrightarrow> i \<le> length b \<Longrightarrow> 0 \<le> a \<Longrightarrow> a \<le> llong_max \<Longrightarrow>
   \<exists>cs. drop i b = cs @ drop j b \<and> j = i + length cs \<and> c = k + length cs \<and> list_all isdigit cs \<and>
     v = value_of a cs \<and> 0 \<le> v \<and> v \<le> llong_max \<and> (j < length b \<longrightarrow> b ! j = end_token)"
proof (induction "length b - i" arbitrary: i a k rule: less_induct)
  case less
  show ?case
  proof (cases "i < length b \<and> b ! i \<noteq> end_token")
    case False
    with less.prems show ?thesis
      by (subst (asm) int_loop.simps) (auto simp: value_of_def intro: exI [of _ "[]"])
  next
    case True
    let ?a = "a * 10 + (sint (b ! i) - 48)"
    have s: "isdigit (b ! i)" "?a \<le> llong_max" "int_loop b (Suc i) ?a (Suc k) = Inr (v, c, j)"
      using less.prems(1) True by (subst (asm) int_loop.simps, auto split: if_splits)+
    then have "0 \<le> ?a" using digit_sint [OF s(1)] less.prems(3) by simp
    have "length b - Suc i < length b - i" "Suc i \<le> length b" using True by auto
    from less.hyps [OF this(1) s(3) this(2) \<open>0 \<le> ?a\<close> s(2)] obtain cs where
      cs: "drop (Suc i) b = cs @ drop j b" "j = Suc i + length cs" "c = Suc k + length cs"
        "list_all isdigit cs" "v = value_of ?a cs" "0 \<le> v" "v \<le> llong_max" "j < length b \<longrightarrow> b ! j = end_token"
      by auto
    have "drop i b = (b ! i # cs) @ drop j b" using cs(1) True by (simp add: Cons_nth_drop_Suc [symmetric])
    with cs s(1) show ?thesis by (intro exI [of _ "b ! i # cs"]) (simp add: value_of_def)
  qed
qed

text \<open>What \<open>decode_int\<close> accepts is a non-empty run of decimal digits closed by the end token, its
  result is the number they write, and it lies between 0 and the largest \<open>long long\<close>: a minus sign is
  not part of the format it reads.\<close>

theorem decode_int_sound:
  assumes "decode_int d = Inr (n, d')" "m_index d \<le> length (m_bencode d)"
  shows "\<exists>cs rest. cs \<noteq> [] \<and> list_all isdigit cs \<and> drop (m_index d) (m_bencode d) = cs @ end_token # rest \<and>
    n = Bint (value_of 0 cs) \<and> 0 \<le> value_of 0 cs \<and> value_of 0 cs \<le> llong_max \<and>
    d' = d\<lparr>m_index := m_index d + length cs\<rparr>"
proof -
  from assms(1) obtain v c j where l: "int_loop (m_bencode d) (m_index d) 0 0 = Inr (v, c, j)"
    "j \<noteq> length (m_bencode d)" "c \<noteq> 0" "n = Bint v" "d' = d\<lparr>m_index := j\<rparr>"
    by (auto simp: decode_int_def split: if_splits)
  from int_loop_sound [OF l(1) assms(2)] obtain cs where
    cs: "drop (m_index d) (m_bencode d) = cs @ drop j (m_bencode d)" "j = m_index d + length cs"
      "c = length cs" "list_all isdigit cs" "v = value_of 0 cs" "0 \<le> v" "v \<le> llong_max"
      "j < length (m_bencode d) \<longrightarrow> m_bencode d ! j = end_token" by auto
  have "j < length (m_bencode d)" using drop_eq_parts(1) [OF cs(1) assms(2)] cs(2) l(2) by simp
  then have "drop j (m_bencode d) = end_token # drop (Suc j) (m_bencode d)"
    using cs(8) by (metis Cons_nth_drop_Suc)
  with cs l show ?thesis
    by (intro exI [of _ cs] exI [of _ "drop (Suc j) (m_bencode d)"]) auto
qed

theorem decode_int_sound_witness:
  "\<exists>cs rest. cs \<noteq> [] \<and> list_all isdigit cs \<and> [52, 50, 101, 0] = cs @ end_token # rest \<and>
    Bint 42 = Bint (value_of 0 cs) \<and> 0 \<le> value_of 0 cs \<and> value_of 0 cs \<le> llong_max \<and>
    \<lparr>m_bencode = [52, 50, 101, 0], m_index = 2, m_node = None\<rparr> =
    (decoder_new [52, 50, 101, 0])\<lparr>m_index := 0 + length cs\<rparr>"
proof -
  have "decode_int (decoder_new [52, 50, 101, 0]) =
      Inr (Bint 42, \<lparr>m_bencode = [52, 50, 101, 0], m_index = 2, m_node = None\<rparr>)"
    by (simp add: decode_int_def decoder_new_def int_loop.simps digit_overflows_def isdigit_def i64_def
        narrow32_def Let_def)
  from decode_int_sound [OF this] show ?thesis by (simp add: decoder_new_def)
qed

text \<open>A number whose digits but the last ones reach \<open>2 ^ 31\<close>, below \<open>2 ^ 32\<close>, makes the overflow
  test itself overflow: the behaviour of \<open>decode_int\<close> is undefined, although the number fits.\<close>

theorem decode_int_undefined:
  assumes "drop (m_index d) (m_bencode d) = digits v @ c # rest" "m_index d \<le> length (m_bencode d)"
    "isdigit c" "int_max < int v" "int v < 2 ^ 32"
  shows "decode_int d = Inl Undefined"
proof -
  let ?b = "m_bencode d" and ?j = "m_index d + length (digits v)"
  have "int (v div 10) \<le> int_max" using assms(5) by (simp add: zdiv_int)
  from loops_digits(1) [OF assms(1,2) this] obtain k where
    k: "int_loop ?b (m_index d) 0 0 = int_loop ?b ?j (int v) k" by blast
  have "?j < length ?b" "?b ! ?j = c"
    using drop_eq_parts(1) [of "m_index d" ?b "digits v @ [c]" rest]
      drop_eq_parts(3) [of "m_index d" ?b "digits v @ [c]" rest "length (digits v)"] assms(1,2) by auto
  moreover have "c \<noteq> end_token" using assms(3) by (auto simp: isdigit_def)
  ultimately have "int_loop ?b ?j (int v) k = Inl Undefined"
    using assms(3) digit_overflows_large [OF assms(4,5,3)] by (subst int_loop.simps) simp
  then show ?thesis by (simp add: decode_int_def k)
qed

text \<open>The 20 GiB of \<open>i21474836480e\<close>.\<close>

theorem decode_int_undefined_witness:
  "decode_int (decoder_new [50, 49, 52, 55, 52, 56, 51, 54, 52, 56, 48, 101]) = Inl Undefined"
proof -
  have "drop 0 [50, 49, 52, 55, 52, 56, 51, 54, 52, 56, 48, 101] = digits 2147483648 @ 48 # [101]"
    by (simp add: digits.simps)
  then show ?thesis
    by (intro decode_int_undefined [of _ 2147483648 48 "[101]"]) (simp_all add: decoder_new_def isdigit_def)
qed

text \<open>The length of a string that ends with the buffer, without a colon, is read past its end.\<close>

theorem str_len_out_of_bounds:
  assumes "int (n div 10) \<le> int_max"
  shows "decode (Suc fuel) (decoder_new (digits n)) = Some (Inl Undefined)"
proof -
  let ?d = "decoder_new (digits n)"
  obtain c k cs where c: "digits n = c # cs" "c = of_nat (48 + k)" "k < 10"
    using digits_head [of n] by blast
  then have cc: "isdigit c" "c \<noteq> eof_char" "c \<noteq> int_token" "c \<noteq> list_token" "c \<noteq> dict_token"
    using digit_char [of k] by simp_all
  have "str_len_loop (digits n) 0 0 = str_len_loop (digits n) (length (digits n)) (int n)"
    using loops_digits(2) [of 0 "digits n" n "[]"] assms by simp
  also have "\<dots> = Inl Undefined" by (subst str_len_loop.simps) simp
  finally have g: "get_str_len ?d = Inl Undefined" by (simp add: get_str_len_def decoder_new_def)
  have "peek ?d = c" "m_index ?d < length (m_bencode ?d)" using c(1) by (simp_all add: peek_def decoder_new_def)
  with cc g show ?thesis by simp
qed

theorem str_len_out_of_bounds_witness: "decode 1 (decoder_new [49, 50]) = Some (Inl Undefined)"
proof -
  have "digits 12 = [49, 50]" by (simp add: digits.simps)
  with str_len_out_of_bounds [of 12 0] show ?thesis by simp
qed

end
