(* ===== verification/Metainfo.thy ===== *)
theory Metainfo
  imports Torrent Bencode_Codec
begin

text \<open>
  What \<open>torrent::init_torrent_data\<close> reads from a metainfo file: where it finds the info dictionary,
  the digest it takes, the fields of a file with a single file, and the ways it fails.
\<close>

section \<open>Lemmas\<close>

lemma at_touch [simp]: "at_key k (touch_key k' d) = at_key k d"
  by (auto simp: at_key_def touch_key_def map_add_def split: option.splits)

lemma touch_info_fields [simp]:
  "m_info (touch_info k t) = touch_key k (m_info t)"
  "touch_info k (t\<lparr>m_info := d\<rparr>) = t\<lparr>m_info := touch_key k d\<rparr>"
  by (simp_all add: touch_info_def)

lemma touch_key_same: "at_key k d \<noteq> None \<Longrightarrow> touch_key k d = d"
  by (auto simp: at_key_def touch_key_def split: option.splits)

lemma touch_key_twice: "at_key k d \<noteq> None \<Longrightarrow> touch_key k (touch_key k' d) = touch_key k' d"
  by (rule touch_key_same) simp

lemma find_pattern_at:
  assumes "pat \<noteq> []" "first_match pat b k"
  shows "find_pattern b pat = (if k + 2 * length pat \<le> length b then int k else -1)"
proof (cases "k + 2 * length pat \<le> length b")
  case True
  with assms(2) have "first_match pat (take (length b - length pat) b) k"
    by (auto simp: first_match_def matches_at_take)
  moreover have "Suc 0 \<le> k + length pat" using assms(1) by (cases pat) auto
  ultimately show ?thesis
    using pattern.run_found [of "length b - length pat" b pat k] assms(1) True
    by (simp add: find_pattern_def of_nat_diff)
next
  case False
  have "\<not> matches_at pat (take (length b - length pat) b) l" for l
    using assms(2) False by (cases "l < k") (auto simp: first_match_def matches_at_take)
  with pattern.run_missing [of "length b - length pat" b pat] assms(1) False show ?thesis
    by (simp add: find_pattern_def)
qed

lemma find_pattern_none:
  assumes "pat \<noteq> []" "\<forall>k. \<not> matches_at pat b k"
  shows "find_pattern b pat = -1"
  using pattern.run_missing [of "length b - length pat" b pat] assms
  by (simp add: find_pattern_def matches_at_take)

text \<open>The bytes that are hashed: everything behind \<open>4:info\<close> but the last byte of the file.\<close>

lemma find_info_at:
  assumes "b = pre @ ascii ''4:info'' @ rest" "first_match (ascii ''4:infod'') b (length pre)" "8 \<le> length rest"
  shows "find_info_dict b = Inr (int (length pre + 6), int (length rest) - 1)"
proof -
  have l: "length b = length pre + 6 + length rest" by (simp add: assms(1))
  have "find_pattern b (ascii ''4:infod'') = int (length pre)"
    using find_pattern_at [OF _ assms(2)] assms(3) l by simp
  then show ?thesis using l by (simp add: find_info_dict_def Let_def)
qed

lemma info_hash_at:
  assumes "b = pre @ ascii ''4:info'' @ rest" "rest \<noteq> []"
  shows "info_hash_of sha1 (map Some (drop (length pre + 6) b)) (int (length rest) - 1) =
    Inr (Some (sha1 (butlast rest)))"
proof -
  have d: "drop (length pre + 6) b = rest" using assms(1) by (simp add: add.commute flip: drop_drop)
  have n: "nat (int (length rest) - 1) = length rest - 1" by simp
  have "read_bytes (map Some rest) 0 (int (length rest) - 1) = Inr (butlast rest)"
    using assms(2) n
    by (cases rest)
      (simp_all add: read_bytes_def mem_get_def butlast_conv_take take_map del: list.map flip: list.map)
  then show ?thesis by (simp add: info_hash_of_def d)
qed

text \<open>A dictionary whose last entry is the info dictionary.\<close>

lemma encode_info_last:
  "encode (Bdict (pre @ [(ascii ''info'', Some n)])) =
    butlast (encode (Bdict pre)) @ ascii ''4:info'' @ encode n @ [end_token]"
  by (simp add: encode_string_def digits.simps butlast_append)

lemma decode_file:
  assumes "plain n" "int (length (encode n)) \<le> int_max" "length (encode n) \<le> fuel"
  shows "\<exists>d. decode fuel (set_bencode (encode n) decoder_default) = Some (Inr (Some n, d))"
  using plain_decodes [OF assms(1), unfolded decodes_def, rule_format, of "set_bencode (encode n) decoder_default" "[]" fuel]
    assms(2,3) by (auto simp: set_bencode_def)

text \<open>Up to reading the document.\<close>

lemma init_document:
  assumes "doc = pre @ [(ascii ''info'', Some (Bdict info))]" "b = encode (Bdict doc)" "plain (Bdict doc)"
    "int (length b) \<le> int_max" "length b \<le> fuel"
    "first_match (ascii ''4:infod'') b (length (encode (Bdict pre)) - 1)" "7 \<le> length (encode (Bdict info))"
  shows "init_torrent_data sha1 fuel (t\<lparr>torrent_buff := b\<rparr>) =
    Some (read_document doc (t\<lparr>torrent_buff := b, torrent_info_hash := Some (sha1 (encode (Bdict info)))\<rparr>))"
proof -
  let ?p = "butlast (encode (Bdict pre))" and ?r = "encode (Bdict info) @ [end_token]"
  have b: "b = ?p @ ascii ''4:info'' @ ?r" using encode_info_last [of pre "Bdict info"] by (simp only: assms(1,2))
  have p: "length ?p = length (encode (Bdict pre)) - 1" by simp
  have "8 \<le> length ?r" using assms(7) by simp
  from find_info_at [OF b _ this] assms(6) p have f: "find_info_dict b = Inr (int (length ?p + 6), int (length ?r) - 1)"
    by (simp del: encode.simps)
  have h: "info_hash_of sha1 (map Some (drop (nat (int (length ?p + 6))) b)) (int (length ?r) - 1) =
      Inr (Some (sha1 (encode (Bdict info))))"
    using info_hash_at [OF b, of sha1] unfolding nat_int by (simp add: butlast_append del: encode.simps)
  obtain d where d: "decode fuel (set_bencode b decoder_default) = Some (Inr (Some (Bdict doc), d))"
    using decode_file [OF assms(3), of fuel] assms(2,4,5) by auto
  from f h obtain i n where
    "find_info_dict b = Inr (i, n)"
    "info_hash_of sha1 (map Some (drop (nat i) b)) n = Inr (Some (sha1 (encode (Bdict info))))" by blast
  with d show ?thesis
    by (simp add: init_torrent_data_def hash_move_def del: encode.simps decode.simps)
qed

text \<open>The optional fields of a document without them, and the fields of a single file.\<close>

lemma read_optional_absent:
  assumes "at_key ''announce-list'' doc = None" "at_key ''comment'' doc = None" "at_key ''encoding'' doc = None"
  shows "read_optional doc t = Inr t"
  using assms by (simp add: read_optional_def)

lemma read_info_single:
  assumes "at_key ''info'' doc = Some (Bdict info)" "at_key ''name'' info = Some (Bstr name)"
    "at_key ''files'' info = None" "at_key ''length'' info = Some (Bint len)" "at_key ''private'' info = None"
    "at_key ''piece length'' info = Some (Bint piece_len)" "at_key ''pieces'' info = Some (Bstr hashes)"
  shows "read_info doc t = Inr (t\<lparr>m_info := touch_key ''private'' (touch_key ''files'' info),
    m_info_name := name, m_length := Some len, m_info_piecelen := Some piece_len, m_info_pieces := hashes\<rparr>)"
  using assms by (simp add: read_info_def Let_def touch_info_def touch_key_same touch_key_twice)

text \<open>
  A metainfo file \<open>b\<close> of a torrent with one file: the encoding of a document whose last entry is the
  info dictionary, where the pattern that the code searches for does not occur earlier.
\<close>

definition single_file ::
  "dict \<Rightarrow> dict \<Rightarrow> byte list \<Rightarrow> byte list \<Rightarrow> byte list \<Rightarrow> int \<Rightarrow> int \<Rightarrow> byte list \<Rightarrow> bool" where
  "single_file pre info b announce name len piece_len hashes =
     (let doc = pre @ [(ascii ''info'', Some (Bdict info))] in
      b = encode (Bdict doc) \<and> plain (Bdict doc) \<and> int (length b) \<le> int_max \<and>
      first_match (ascii ''4:infod'') b (length (encode (Bdict pre)) - 1) \<and> 7 \<le> length (encode (Bdict info)) \<and>
      at_key ''announce'' doc = Some (Bstr announce) \<and> at_key ''announce-list'' doc = None \<and>
      at_key ''comment'' doc = None \<and> at_key ''encoding'' doc = None \<and>
      at_key ''name'' info = Some (Bstr name) \<and> at_key ''files'' info = None \<and>
      at_key ''length'' info = Some (Bint len) \<and> at_key ''private'' info = None \<and>
      at_key ''piece length'' info = Some (Bint piece_len) \<and> at_key ''pieces'' info = Some (Bstr hashes))"

definition file_torrent ::
  "(byte list \<Rightarrow> byte list) \<Rightarrow> dict \<Rightarrow> byte list \<Rightarrow> byte list \<Rightarrow> byte list \<Rightarrow> int \<Rightarrow> int \<Rightarrow> byte list \<Rightarrow> torrent \<Rightarrow> torrent"
  where
  "file_torrent sha1 info b announce name len piece_len hashes t =
     t\<lparr>torrent_buff := b, torrent_info_hash := Some (sha1 (encode (Bdict info))), m_announce := announce,
       m_info := touch_key ''private'' (touch_key ''files'' info), m_info_name := name, m_length := Some len,
       m_info_piecelen := Some piece_len, m_info_pieces := hashes\<rparr>"

lemma at_key_info_last:
  assumes "plain (Bdict (pre @ [(ascii ''info'', Some n)]))"
  shows "at_key ''info'' (pre @ [(ascii ''info'', Some n)]) = Some n"
proof -
  have "ascii ''info'' \<notin> set (map fst pre)" using assms by simp
  then show ?thesis by (simp add: at_key_def map_add_def map_of_eq_None_iff [THEN iffD2])
qed

lemma plain_at_key: "plain (Bdict d) \<Longrightarrow> at_key k d = Some n \<Longrightarrow> plain n"
  by (auto simp: at_key_def split: option.splits dest!: map_of_SomeD bspec)

lemma read_single_file:
  assumes "single_file pre info b announce name len piece_len hashes" "length b \<le> fuel"
  shows "init_torrent_data sha1 fuel (torrent_set b t) =
    Some (Inr (file_torrent sha1 info b announce name len piece_len hashes t))"
proof -
  let ?doc = "pre @ [(ascii ''info'', Some (Bdict info))]"
  note f = assms(1) [unfolded single_file_def Let_def]
  have "at_key ''info'' ?doc = Some (Bdict info)" using f by (intro at_key_info_last) blast
  then have "read_document ?doc t' = Inr (t'\<lparr>m_announce := announce,
      m_info := touch_key ''private'' (touch_key ''files'' info), m_info_name := name, m_length := Some len,
      m_info_piecelen := Some piece_len, m_info_pieces := hashes\<rparr>)" for t'
    using read_info_single [of ?doc info name len piece_len hashes] read_optional_absent [of ?doc] f
    by (simp add: read_document_def)
  moreover have "init_torrent_data sha1 fuel (t\<lparr>torrent_buff := b\<rparr>) =
      Some (read_document ?doc (t\<lparr>torrent_buff := b, torrent_info_hash := Some (sha1 (encode (Bdict info)))\<rparr>))"
    by (rule init_document [OF refl _ _ _ assms(2)]) (use f in blast)+
  ultimately show ?thesis by (simp add: torrent_set_def file_torrent_def del: encode.simps)
qed

section \<open>Properties\<close>

text \<open>C31: \<open>find_pattern\<close> finds the first occurrence of a pattern, but only if at least its length follows
  it: an occurrence in the last bytes of the buffer is missed.\<close>

theorem find_pattern_first:
  assumes "pat \<noteq> []"
  shows "find_pattern b pat =
    (if \<exists>k. first_match pat b k \<and> k + 2 * length pat \<le> length b
     then int (LEAST k. matches_at pat b k) else -1)"
proof (cases "\<exists>k. matches_at pat b k")
  case True
  define k where "k = (LEAST k. matches_at pat b k)"
  have k: "first_match pat b k"
    using LeastI_ex [OF True] not_less_Least by (auto simp: first_match_def k_def)
  have "(\<exists>l. first_match pat b l \<and> l + 2 * length pat \<le> length b) \<longleftrightarrow> k + 2 * length pat \<le> length b"
    using k first_match_unique by blast
  then show ?thesis using find_pattern_at [OF assms k] by (simp add: k_def)
next
  case False
  then have "\<not> (\<exists>k. first_match pat b k \<and> k + 2 * length pat \<le> length b)" by (auto simp: first_match_def)
  with False find_pattern_none [OF assms, of b] show ?thesis by auto
qed

theorem find_pattern_first_witness:
  "find_pattern [7, 1, 2, 1, 2] [1, 2] = int (LEAST k. matches_at [1, 2] [7, 1, 2, 1, 2 :: byte] k) \<and>
   find_pattern [7, 1, 2, 1] [1, 2 :: byte] = -1"
proof -
  have m: "first_match [1, 2] (7 # 1 # 2 # xs) 1" for xs :: "byte list"
    by (auto simp: first_match_def matches_at_def)
  have "\<exists>k. first_match [1, 2] [7, 1, 2, 1, 2 :: byte] k \<and> k + 2 * length [1, 2 :: byte] \<le> length [7, 1, 2, 1, 2 :: byte]"
    using m [of "[1, 2]"] by force
  moreover have "\<not> (\<exists>k. first_match [1, 2] [7, 1, 2, 1 :: byte] k \<and> k + 2 * length [1, 2 :: byte] \<le> length [7, 1, 2, 1 :: byte])"
    using first_match_unique [OF m [of "[1]"]] by auto
  ultimately show ?thesis
    using find_pattern_first [of "[1, 2]" "[7, 1, 2, 1, 2]"] find_pattern_first [of "[1, 2]" "[7, 1, 2, 1]"] by simp
qed

text \<open>What is hashed as the info dictionary is everything behind the first \<open>4:info\<close> that a \<open>d\<close>
  follows, up to the last byte of the file: the dictionary itself only if it is the last entry.\<close>

theorem info_hash_range:
  assumes "b = pre @ ascii ''4:info'' @ rest" "first_match (ascii ''4:infod'') b (length pre)" "8 \<le> length rest"
  shows "\<exists>i n. find_info_dict b = Inr (i, n) \<and>
    info_hash_of sha1 (map Some (drop (nat i) b)) n = Inr (Some (sha1 (butlast rest)))"
proof -
  have "rest \<noteq> []" using assms(3) by auto
  from find_info_at [OF assms] info_hash_at [OF assms(1) this, of sha1] show ?thesis
    by (metis nat_int)
qed

text \<open>A dictionary with a key behind \<open>info\<close>: \<open>d4:infod1:ai1ee1:zi2ee\<close>.\<close>

theorem info_hash_range_witness:
  "\<exists>i n. find_info_dict (ascii ''d4:infod1:ai1ee1:zi2ee'') = Inr (i, n) \<and>
    info_hash_of id (map Some (drop (nat i) (ascii ''d4:infod1:ai1ee1:zi2ee''))) n =
      Inr (Some (ascii ''d1:ai1ee1:zi2e''))"
proof -
  have "first_match (ascii ''4:infod'') (ascii ''d4:infod1:ai1ee1:zi2ee'') (length (ascii ''d''))"
    by (auto simp: first_match_def matches_at_def)
  from info_hash_range [OF _ this, of "ascii ''d1:ai1ee1:zi2ee''" id] show ?thesis by simp
qed

text \<open>With several files, only the first component of every path is kept, and the length is narrowed.\<close>

definition file_node :: "int \<times> bnode option list \<Rightarrow> bnode option" where
  "file_node f = Some (Bdict [(ascii ''length'', Some (Bint (fst f))), (ascii ''path'', Some (Blist (snd f)))])"

lemma multi_file_paths:
  "extract_info_files (map (\<lambda>(n, p, ps). file_node (n, Some (Bstr p) # ps)) fs) =
    Inr (map (\<lambda>(n, p, ps). \<lparr>file_length = narrow32 n, file_path = p\<rparr>) fs)"
  by (induction fs) (auto simp: file_node_def at_key_def info_file_path_def first_elem_def)

text \<open>C26: Reading the encoding of a metainfo dictionary with one file, of at most \<open>INT_MAX\<close> bytes, that has
  none of the optional keys (no announce list, comment, encoding or private flag), whose last key is the
  info dictionary, of at least 7 bytes, and whose key is the first occurrence of its pattern, sets the announce URL, the name, the length, the piece length and the digests of the
  pieces, and the info hash is the digest of the encoding of the info dictionary.\<close>

theorem init_single_file:
  assumes "single_file pre info b announce name len piece_len hashes" "length b \<le> fuel"
  shows "init_torrent_data sha1 fuel (torrent_set b t) =
    Some (Inr (t\<lparr>torrent_buff := b, torrent_info_hash := Some (sha1 (encode (Bdict info))), m_announce := announce,
      m_info := touch_key ''private'' (touch_key ''files'' info), m_info_name := name, m_length := Some len,
      m_info_piecelen := Some piece_len, m_info_pieces := hashes\<rparr>))"
  using read_single_file [OF assms] by (simp add: file_torrent_def)

text \<open>A file for the tracker \<open>https://t/announce\<close>.\<close>

definition sample_dict :: dict where
  "sample_dict = [(ascii ''length'', Some (Bint 3)), (ascii ''name'', Some (Bstr (ascii ''f''))),
     (ascii ''piece length'', Some (Bint 4)), (ascii ''pieces'', Some (Bstr []))]"

definition sample_pre :: dict where
  "sample_pre = [(ascii ''announce'', Some (Bstr (ascii ''https://t/announce'')))]"

definition sample_doc :: dict where
  "sample_doc = sample_pre @ [(ascii ''info'', Some (Bdict sample_dict))]"

definition sample_file :: "byte list" where
  "sample_file = ascii ''d8:announce18:https://t/announce4:infod6:lengthi3e4:name1:f12:piece lengthi4e6:pieces0:ee''"

lemma sample_dict_encoded:
  "encode (Bdict sample_dict) = ascii ''d6:lengthi3e4:name1:f12:piece lengthi4e6:pieces0:e''"
  by (simp add: sample_dict_def encode_string_def digits.simps)

lemma sample_encoded: "sample_file = encode (Bdict sample_doc)" "length (encode (Bdict sample_pre)) = 33"
  by (simp_all add: sample_file_def sample_doc_def sample_pre_def sample_dict_def encode_string_def digits.simps)

lemma sample_match: "first_match (ascii ''4:infod'') sample_file 32"
  by (simp add: first_match_upt matches_at_def upt_rec sample_file_def)

lemma sample_plain: "plain (Bdict sample_doc)"
  by (simp add: sample_doc_def sample_pre_def sample_dict_def)

lemma sample_single_file:
  "single_file sample_pre sample_dict sample_file (ascii ''https://t/announce'') (ascii ''f'') 3 4 []"
proof -
  have l: "length sample_file = 89" by (simp add: sample_file_def)
  have "7 \<le> length (encode (Bdict sample_dict))" unfolding sample_dict_encoded by simp
  then show ?thesis
    unfolding single_file_def Let_def sample_doc_def [symmetric] sample_encoded(2) l
    using sample_match sample_plain sample_encoded(1)
    by (simp add: at_key_def sample_doc_def sample_pre_def sample_dict_def del: encode.simps plain.simps)
qed

theorem init_single_file_witness:
  "init_torrent_data (take 20) 100 (torrent_set sample_file (torrent_new (\<lambda>i. int i) True)) =
    Some (Inr ((torrent_new (\<lambda>i. int i) True)\<lparr>torrent_buff := sample_file,
      torrent_info_hash := Some (ascii ''d6:lengthi3e4:name1:''),
      m_announce := ascii ''https://t/announce'', m_info := touch_key ''private'' (touch_key ''files'' sample_dict),
      m_info_name := ascii ''f'', m_length := Some 3, m_info_piecelen := Some 4, m_info_pieces := []\<rparr>))"
proof -
  have l: "length sample_file = 89" by (simp add: sample_file_def)
  have "single_file sample_pre sample_dict sample_file (ascii ''https://t/announce'') (ascii ''f'') 3 4 []"
    using sample_single_file .
  from init_single_file [OF this, of 100 "take 20" "torrent_new (\<lambda>i. int i) True"] show ?thesis
    unfolding sample_dict_encoded l by simp
qed

text \<open>A file with a comment but no author is read through a null pointer: both later fields are
  guarded by the test for the comment.\<close>

theorem comment_without_author:
  assumes "doc = pre @ [(ascii ''info'', Some (Bdict info))]" "b = encode (Bdict doc)" "plain (Bdict doc)"
    "int (length b) \<le> int_max" "length b \<le> fuel"
    "first_match (ascii ''4:infod'') b (length (encode (Bdict pre)) - 1)" "7 \<le> length (encode (Bdict info))"
    "at_key ''announce'' doc = Some (Bstr announce)" "at_key ''announce-list'' doc = None"
    "at_key ''comment'' doc = Some (Bstr comment)" "at_key ''created by'' doc = None"
  shows "init_torrent_data sha1 fuel (torrent_set b t) = Some (Inl Undefined)"
  using init_document [OF assms(1-7)] assms(8-11)
  by (simp add: torrent_set_def read_document_def read_optional_def)

definition comment_pre :: dict where
  "comment_pre = [(ascii ''announce'', Some (Bstr (ascii ''t''))), (ascii ''comment'', Some (Bstr (ascii ''c'')))]"

definition comment_file :: "byte list" where
  "comment_file =
     ascii ''d8:announce1:t7:comment1:c4:infod6:lengthi3e4:name1:f12:piece lengthi4e6:pieces0:ee''"

lemma comment_encoded:
  "comment_file = encode (Bdict (comment_pre @ [(ascii ''info'', Some (Bdict sample_dict))]))"
  "length (encode (Bdict comment_pre)) = 27"
  by (simp_all add: comment_file_def comment_pre_def sample_dict_def encode_string_def digits.simps)

theorem comment_without_author_witness:
  "init_torrent_data id 100 (torrent_set comment_file (torrent_new (\<lambda>i. int i) True)) = Some (Inl Undefined)"
proof -
  have l: "length comment_file = 83" by (simp add: comment_file_def)
  have m: "first_match (ascii ''4:infod'') comment_file 26"
    by (simp add: first_match_upt matches_at_def upt_rec comment_file_def)
  have "7 \<le> length (encode (Bdict sample_dict))" unfolding sample_dict_encoded by simp
  from comment_without_author [OF refl comment_encoded(1) _ _ _ _ this,
      of 100 "ascii ''t''" "ascii ''c''" id "torrent_new (\<lambda>i. int i) True"]
  show ?thesis
    unfolding comment_encoded(2) l using m
    by (simp add: at_key_def comment_pre_def sample_dict_def)
qed

end
