(* ===== verification/Tracker_Spec.thy ===== *)
theory Tracker_Spec
  imports Tracker Metainfo
begin

text \<open>
  What the request to the tracker does: the parts of the announce URL, the peers read from a response
  whose body is a dictionary, and the two responses of the code to inputs that every tracker gives: a
  digest of twenty bytes and a compact list of peers.
\<close>

section \<open>The exchange\<close>

lemma send_loop_done: "send_loop tot (map Done ws @ Stop # ms) = Some (tot + sum_list ws)"
  by (induction ws arbitrary: tot) (simp_all add: add.assoc)

lemma exchange_body:
  assumes "socket_ok sock" "writes env req = map Done ws @ Stop # wms" "reads env req = map Done parts @ Stop # ms"
    "concat parts = response_head version status reason lines @ body"
    "32 \<notin> set version" "13 \<notin> set version" "32 \<notin> set status" "13 \<notin> set status" "status \<noteq> []" "13 \<notin> set reason"
    "list_all line_ok lines" "map_of (rev lines) (ascii ''Content-Length'') = Some (digits (length body))"
    "4 \<le> length body" "length (concat parts) + 2 \<le> buff_size"
  shows "exchange env req sock = Some (Inr body)"
proof -
  let ?h = "response_head version status reason lines" and ?n = "length (concat parts)"
  let ?buff = "concat parts @ replicate (buff_size - ?n) 0"
  have s: "ssl_send (writes env req) sock = Some (Inr (int (sum_list ws)))"
    using assms(1,2) by (simp add: ssl_send_def socket_ok_def send_loop_done)
  have r: "ssl_recv buff_size (reads env req) sock = Some (Inr (?buff, int ?n))"
    using ssl_recv_deliver [of sock parts buff_size ms] assms(1,3,14) by (simp add: socket_ok_def deliver_def)
  have p: "parse_header ?buff ?n =
      Inr ([ascii ''version'' \<mapsto> version, ascii ''status'' \<mapsto> status] ++ map_of (rev lines))"
    using parse_header_ok [OF assms(5,7,9,10,11) assms(4)] by simp
  have "length body \<le> ?n" using assms(4) by simp
  then have "stoi (digits (length body)) = Inr (int (length body))" using assms(14) by (intro stoi_digits) simp
  moreover have "get_body (take ?n ?buff) = Some (length ?h)"
    using get_body_response [OF assms(6,8,10,11,13)] assms(4) by simp
  then have "body_range ?buff ?n (int (length body)) = Inr body"
    by (simp add: body_range_def mem_get_def assms(4))
  ultimately show ?thesis using s r p assms(12) by (simp add: exchange_def map_add_def)
qed

text \<open>The dictionary a tracker sends for a peer.\<close>

definition peer_node :: "byte list \<times> byte list \<times> int \<Rightarrow> bnode option" where
  "peer_node p = (case p of (pid, ip, port) \<Rightarrow>
     Some (Bdict [(ascii ''ip'', Some (Bstr ip)), (ascii ''peer id'', Some (Bstr pid)), (ascii ''port'', Some (Bint port))]))"

definition peer_of :: "byte list \<Rightarrow> info_hash \<Rightarrow> byte list \<times> byte list \<times> int \<Rightarrow> peer_info" where
  "peer_of my_id h p = (case p of (pid, ip, port) \<Rightarrow>
     \<lparr>m_remote_id = pid, m_remote_ip = text_of ip, m_remote_port = text_of (to_string port), m_id = my_id,
      m_info_hash = h\<rparr>)"

lemma read_peers_nodes:
  assumes "length d = 20"
  shows "read_peers my_id (Some d) (map peer_node ps) = Inr (map (peer_of my_id (Some d)) ps)"
  by (induction ps) (auto simp: peer_node_def peer_of_def at_key_def hash_copy_Some [OF assms])

section \<open>Properties\<close>

lemma url_parts_lemma:
  assumes "58 \<notin> set protocol" "47 \<notin> set host" "58 \<notin> set host"
    "url = protocol @ ascii ''://'' @ host @ rest" "list_all isdigit port"
    "rest = [] \<and> port = [] \<or> (\<exists>path. rest = 47 # path) \<and> port = [] \<or>
     (\<exists>path. rest = 58 # port @ path \<and> (path = [] \<or> \<not> isdigit (hd path)))"
  shows "get_protocol url = protocol \<and> get_host url = Inr host \<and> get_port url = Inr port"
proof -
  have p: "get_protocol url = protocol"
    using assms(1) by (simp add: get_protocol_def assms(4) takeWhile_append)
  have d: "drop (length protocol + 3) url = host @ rest" by (simp add: assms(4))
  have "rest = [] \<or> hd rest = 47 \<or> hd rest = 58" using assms(6) by auto
  then have "takeWhile (\<lambda>c. c \<noteq> 47 \<and> c \<noteq> 58) (host @ rest) = host"
    using assms(2,3) by (cases rest) (auto simp: takeWhile_append)
  moreover have "\<not> length url < length protocol + 3" by (simp add: assms(4))
  ultimately have h: "get_host url = Inr host"
    unfolding get_host_def Let_def p d substr_def by simp
  let ?s = "length protocol + length host + 3"
  have r: "drop ?s url = rest" "length url = ?s + length rest"
    by (simp_all add: assms(4) numeral_3_eq_3)
  have c: "url ! ?s = hd rest" if "rest \<noteq> []"
    using that r by (metis hd_drop_conv_nth length_greater_0_conv less_add_same_cancel1)
  have digits: "takeWhile isdigit (port @ path) = port" if "path = [] \<or> \<not> isdigit (hd path)" for path
    using that assms(5) by (cases path) (auto simp: takeWhile_append list_all_iff)
  from assms(6) consider (none) "rest = []" "port = []" | (path) path where "rest = 47 # path" "port = []"
    | (port) path where "rest = 58 # port @ path" "path = [] \<or> \<not> isdigit (hd path)" by blast
  then have "get_port url = Inr port"
  proof cases
    case none
    then show ?thesis using r by (simp add: get_port_def h p Let_def)
  next
    case path
    then show ?thesis using r c by (simp add: get_port_def h p Let_def)
  next
    case path: (port path)
    have "drop (?s + 1) url = drop 1 (drop ?s url)" by (simp only: drop_drop add.commute)
    then have "drop (?s + 1) url = port @ path" unfolding r(1) path(1) by simp
    then show ?thesis using path r(2) c digits [OF path(2)] by (simp add: get_port_def h p Let_def substr_def)
  qed
  with p h show ?thesis by simp
qed

text \<open>The parts of an announce URL: a protocol, a host, and either nothing, a path, or a port and
  whatever follows it.\<close>

theorem url_parts:
  assumes "58 \<notin> set protocol" "47 \<notin> set host" "58 \<notin> set host"
    "url = protocol @ ascii ''://'' @ host @ rest" "list_all isdigit port"
    "rest = [] \<and> port = [] \<or> (\<exists>path. rest = 47 # path) \<and> port = [] \<or>
     (\<exists>path. rest = 58 # port @ path \<and> (path = [] \<or> \<not> isdigit (hd path)))"
  shows "get_protocol url = protocol \<and> get_host url = Inr host \<and> get_port url = Inr port"
  by (rule url_parts_lemma [OF assms])

theorem url_parts_witness:
  "get_protocol (ascii ''http://t.org:6969/announce'') = ascii ''http'' \<and>
   get_host (ascii ''http://t.org:6969/announce'') = Inr (ascii ''t.org'') \<and>
   get_port (ascii ''http://t.org:6969/announce'') = Inr (ascii ''6969'')"
  by (rule url_parts [of _ _ _ "ascii '':6969/announce''"])
    (simp_all add: isdigit_def exI [of _ "ascii ''/announce''"])

text \<open>A tracker that is reached: the resolved addresses lead to a session.\<close>

definition reached :: "tracker_env \<Rightarrow> torrent \<Rightarrow> byte list \<Rightarrow> ssl_socket \<Rightarrow> bool" where
  "reached env t host sock =
     (get_host (m_announce t) = Inr host \<and> get_protocol (m_announce t) \<noteq> ascii ''udp'' \<and>
      (\<exists>port. get_port (m_announce t) = Inr port \<and>
        connect_to (resolved env host
            (if get_protocol (m_announce t) = ascii ''https'' \<and> port = [] then ascii ''443'' else port))
          (session_created env) (m_sock t) = Inr sock) \<and>
      socket_ok sock)"

text \<open>A tracker that answers a request with a body, in any pieces, and closes the connection.\<close>

definition replies :: "tracker_env \<Rightarrow> byte list \<Rightarrow> byte list \<Rightarrow> bool" where
  "replies env req body =
     (\<exists>ws wms parts ms version status reason lines.
        writes env req = map Done ws @ Stop # wms \<and> reads env req = map Done parts @ Stop # ms \<and>
        concat parts = response_head version status reason lines @ body \<and>
        32 \<notin> set version \<and> 13 \<notin> set version \<and> 32 \<notin> set status \<and> 13 \<notin> set status \<and> status \<noteq> [] \<and>
        13 \<notin> set reason \<and> list_all line_ok lines \<and>
        map_of (rev lines) (ascii ''Content-Length'') = Some (digits (length body)) \<and>
        4 \<le> length body \<and> length (concat parts) + 2 \<le> buff_size)"

lemma replies_exchange: "replies env req body \<Longrightarrow> socket_ok sock \<Longrightarrow> exchange env req sock = Some (Inr body)"
  unfolding replies_def by (elim exE conjE) (rule exchange_body)

lemma request_replies:
  assumes "socket_ok (m_sock t)" "replies env req (encode n)" "plain n" "int (length (encode n)) \<le> int_max"
    "length (encode n) \<le> fuel"
  shows "request_peers fuel env req t = Some (read_response (Some n) t)"
proof -
  obtain d where "decode fuel (set_bencode (encode n) decoder_default) = Some (Inr (Some n, d))"
    using decode_file [OF assms(3-5)] by blast
  with replies_exchange [OF assms(2,1)] show ?thesis
    by (simp add: request_peers_def del: decode.simps encode.simps)
qed

text \<open>C27: The peers of a tracker's answer, a \<open>plain\<close> dictionary with a list of peer dictionaries, sent in any
  pieces and with any headers among which \<open>Content-Length\<close> tells its length, in a response that fits
  the buffer of 32 KiB, become the peer information of the torrent, in their order and after the
  ones it has, each with the torrent's own id and digest. This is the part of \<open>setup_peerinfo\<close> from
  sending the request on, for any request and any torrent with a TLS session.\<close>

theorem tracker_peers:
  assumes "socket_ok (m_sock t)" "replies env req (encode (Bdict doc))" "plain (Bdict doc)"
    "int (length (encode (Bdict doc))) \<le> int_max" "length (encode (Bdict doc)) \<le> fuel"
    "at_key ''peers'' doc = Some (Blist (map peer_node ps))" "torrent_info_hash t = Some d" "length d = 20"
  shows "request_peers fuel env req t =
    Some (Inr (t\<lparr>m_peers_info := m_peers_info t @ map (peer_of (torrent_id t) (Some d)) ps\<rparr>))"
  using request_replies [OF assms(1-5)] assms(6-8) by (simp add: read_response_def read_peers_nodes)

text \<open>The request asks for a compact list of peers; the answer to it, a string, throws.\<close>

theorem compact_peers_throw:
  assumes "socket_ok (m_sock t)" "replies env req (encode (Bdict doc))" "plain (Bdict doc)"
    "int (length (encode (Bdict doc))) \<le> int_max" "length (encode (Bdict doc)) \<le> fuel"
    "at_key ''peers'' doc = Some (Bstr s)"
  shows "request_peers fuel env req t = Some (Inl (Throw Bad_variant_access))"
  using request_replies [OF assms(1-5)] assms(6) by (simp add: read_response_def)

lemma announce_request_overflow:
  assumes "torrent_info_hash t = Some d" "length d = 20" "m_info_piecelen t = Some len"
  shows "announce_request host t = Inl Undefined"
  using assms hex_str_undefined [OF assms(2)] by (simp add: announce_request_def bytes_left_def)

lemma setup_overflow:
  assumes "reached env t host sock" "torrent_info_hash t = Some d" "length d = 20" "m_info_piecelen t = Some len"
  shows "setup_peerinfo fuel env t = Some (Inl Undefined)"
proof -
  have "announce_request host (t\<lparr>m_sock := sock\<rparr>) = Inl Undefined"
    using assms(2-4) by (intro announce_request_overflow) simp_all
  with assms(1) show ?thesis by (auto simp: reached_def setup_peerinfo_def Let_def)
qed

text \<open>C39: With the array of the source, printing the digest for the request always writes outside it.\<close>

theorem setup_peerinfo_overflow:
  assumes "reached env t host sock" "torrent_info_hash t = Some d" "length d = 20" "m_info_piecelen t = Some len"
  shows "setup_peerinfo fuel env t = Some (Inl Undefined)"
  by (rule setup_overflow [OF assms])

section \<open>Witnesses\<close>

definition sample_torrent :: torrent where
  "sample_torrent = (torrent_new (\<lambda>i. int i) True)
     \<lparr>m_announce := ascii ''https://t/announce'', torrent_info_hash := Some (replicate 20 7), m_info_piecelen := Some 4\<rparr>"

definition sample_answer :: "byte list \<Rightarrow> byte list" where
  "sample_answer body =
     response_head (ascii ''HTTP/1.1'') (ascii ''200'') (ascii ''OK'')
       [(ascii ''Content-Length'', digits (length body))] @ body"

definition sample_env :: "byte list \<Rightarrow> tracker_env" where
  "sample_env body =
     \<lparr>resolved = (\<lambda>host port. if port = ascii ''443'' then Some [(5, False), (6, True)] else None),
      session_created = True, writes = (\<lambda>req. [Done (length req), Stop]),
      reads = (\<lambda>req. [Done (take 9 (sample_answer body)), Done (drop 9 (sample_answer body)), Stop])\<rparr>"

definition sample_sock :: ssl_socket where
  "sample_sock = \<lparr>ssl_fd = 6, ssl_ctx = True, ssl_session = True\<rparr>"

lemma sample_reached:
  assumes "m_announce t = ascii ''https://t/announce''" "m_sock t = socket_new True"
  shows "reached (sample_env body) t (ascii ''t'') sample_sock"
proof -
  have "get_protocol (m_announce t) = ascii ''https''" "get_host (m_announce t) = Inr (ascii ''t'')"
    "get_port (m_announce t) = Inr []"
    using url_parts_lemma [of "ascii ''https''" "ascii ''t''" _ "ascii ''/announce''" "[]"] assms(1) by simp_all
  then show ?thesis
    by (simp add: reached_def sample_env_def connect_to_def new_socket_def assms(2) socket_new_def init_openssl_def
        sample_sock_def socket_ok_def assertE_def)
qed

lemma sample_torrent_reached: "reached (sample_env body) sample_torrent (ascii ''t'') sample_sock"
  by (rule sample_reached) (simp_all add: sample_torrent_def torrent_new_def)

lemma sample_replies:
  assumes "4 \<le> length body" "length (sample_answer body) + 2 \<le> buff_size"
  shows "replies (sample_env body) req body"
proof -
  let ?v = "digits (length body)"
  have d: "\<forall>c \<in> set ?v. isdigit c" using digits_isdigit by (simp add: list_all_iff)
  then have "13 \<notin> set ?v" by (auto simp: isdigit_def)
  moreover have "isdigit (hd ?v)" by (rule bspec [OF d hd_in_set [OF digits_nonempty]])
  then have "hd ?v \<noteq> 32" by (auto simp: isdigit_def)
  ultimately have ok: "list_all line_ok [(ascii ''Content-Length'', ?v)]" by (simp add: line_ok_def)
  show ?thesis
    unfolding replies_def
  proof (intro exI conjI)
    show "writes (sample_env body) req = map Done [length req] @ Stop # []" by (simp add: sample_env_def)
    show "reads (sample_env body) req =
        map Done [take 9 (sample_answer body), drop 9 (sample_answer body)] @ Stop # []"
      by (simp add: sample_env_def)
    show "concat [take 9 (sample_answer body), drop 9 (sample_answer body)] =
        response_head (ascii ''HTTP/1.1'') (ascii ''200'') (ascii ''OK'') [(ascii ''Content-Length'', ?v)] @ body"
      by (simp only: concat.simps append_Nil2 append_take_drop_id sample_answer_def)
    show "map_of (rev [(ascii ''Content-Length'', ?v)]) (ascii ''Content-Length'') = Some ?v" by simp
    show "length (concat [take 9 (sample_answer body), drop 9 (sample_answer body)]) + 2 \<le> buff_size"
      using assms(2) by simp
  qed (use assms(1) ok in simp_all)
qed

definition sample_peers :: dict where
  "sample_peers = [(ascii ''peers'', Some (Blist [peer_node (ascii ''r'', ascii ''9.9.9.9'', 81)]))]"

lemma sample_peers_encoded:
  "encode (Bdict sample_peers) = ascii ''d5:peersld2:ip7:9.9.9.97:peer id1:r4:porti81eeee''"
  "plain (Bdict sample_peers)"
  by (simp_all add: sample_peers_def peer_node_def encode_string_def digits.simps)

text \<open>The torrent with the socket of \<open>sample_env\<close>.\<close>

definition sample_connected :: torrent where
  "sample_connected = sample_torrent\<lparr>m_sock := sample_sock\<rparr>"

lemma sample_connected_ok: "socket_ok (m_sock sample_connected)"
  by (simp add: sample_connected_def sample_sock_def socket_ok_def)

theorem tracker_peers_witness:
  "request_peers 100 (sample_env (encode (Bdict sample_peers))) (ascii ''GET'') sample_connected =
    Some (Inr (sample_connected\<lparr>m_peers_info :=
      [\<lparr>m_remote_id = ascii ''r'', m_remote_ip = ''9.9.9.9'', m_remote_port = ''81'',
        m_id = torrent_id sample_torrent, m_info_hash = Some (replicate 20 7)\<rparr>]\<rparr>))"
proof -
  have l: "length (encode (Bdict sample_peers)) = 48" by (simp only: sample_peers_encoded) simp
  have "replies (sample_env (encode (Bdict sample_peers))) (ascii ''GET'') (encode (Bdict sample_peers))"
    by (rule sample_replies) (simp_all add: sample_answer_def response_head_def header_line_pair crlf_def digits.simps l del: encode.simps)
  moreover have "at_key ''peers'' sample_peers = Some (Blist (map peer_node [(ascii ''r'', ascii ''9.9.9.9'', 81)]))"
    by (simp add: at_key_def sample_peers_def)
  moreover have "torrent_info_hash sample_connected = Some (replicate 20 7)"
    by (simp add: sample_connected_def sample_torrent_def)
  ultimately have "request_peers 100 (sample_env (encode (Bdict sample_peers))) (ascii ''GET'') sample_connected =
      Some (Inr (sample_connected\<lparr>m_peers_info := m_peers_info sample_connected @
        map (peer_of (torrent_id sample_connected) (Some (replicate 20 7))) [(ascii ''r'', ascii ''9.9.9.9'', 81)]\<rparr>))"
    by (intro tracker_peers [OF sample_connected_ok _ sample_peers_encoded(2)]) (simp_all add: l del: encode.simps)
  moreover have "to_string 81 = ascii ''81''" by (simp add: to_string_def digits.simps)
  then have "peer_of (torrent_id sample_connected) (Some (replicate 20 7)) (ascii ''r'', ascii ''9.9.9.9'', 81) =
      \<lparr>m_remote_id = ascii ''r'', m_remote_ip = ''9.9.9.9'', m_remote_port = ''81'',
       m_id = torrent_id sample_torrent, m_info_hash = Some (replicate 20 7)\<rparr>"
    unfolding peer_of_def by (simp only: prod.case text_of_ascii) (simp add: sample_connected_def)
  moreover have "m_peers_info sample_connected = []"
    by (simp add: sample_connected_def sample_torrent_def torrent_new_def)
  ultimately show ?thesis by (simp only: list.map append_Nil)
qed

theorem compact_peers_throw_witness:
  "request_peers 100 (sample_env (ascii ''d5:peers6:abcdefe'')) (ascii ''GET'') sample_connected =
    Some (Inl (Throw Bad_variant_access))"
proof -
  let ?doc = "[(ascii ''peers'', Some (Bstr (ascii ''abcdef'')))]"
  have e: "encode (Bdict ?doc) = ascii ''d5:peers6:abcdefe''" by (simp add: encode_string_def digits.simps)
  have "replies (sample_env (ascii ''d5:peers6:abcdefe'')) (ascii ''GET'') (ascii ''d5:peers6:abcdefe'')"
    by (rule sample_replies) (simp_all add: sample_answer_def response_head_def header_line_pair crlf_def digits.simps)
  with compact_peers_throw [OF sample_connected_ok,
      where doc = ?doc and s = "ascii ''abcdef''" and fuel = 100, unfolded e]
  show ?thesis by (simp add: at_key_def)
qed

theorem setup_peerinfo_overflow_witness: "setup_peerinfo 0 (sample_env []) sample_torrent = Some (Inl Undefined)"
  by (rule setup_peerinfo_overflow [OF sample_torrent_reached, where d = "replicate 20 7" and len = 4]) (simp_all add: sample_torrent_def)

end
