(* ===== verification/Startup.thy ===== *)
theory Startup
  imports Session_Invariant Tracker_Spec
begin

text \<open>
  \<open>main.cpp\<close> and the constructor of \<open>src/session.cpp\<close>: the metainfo file is read and parsed, the
  tracker is asked for peers, and the session is started on what they gave: the constructor of the
  connections, their start, and what the whole of \<open>main\<close> does on a valid file.
\<close>

section \<open>Constructing and starting the client\<close>





section \<open>Starting the connections\<close>

lemma ascii_text_of [simp]: "ascii (text_of bs) = bs"
proof (induction bs)
  case (Cons b bs)
  have "(of_char (char_of (unat b)) :: byte) = of_nat (of_char (char_of (unat b)))" by (simp only: of_nat_of_char)
  also have "unat b < 2 ^ LENGTH(8)" by (rule unsigned_less)
  then have "of_nat (of_char (char_of (unat b))) = b" by simp
  finally show ?case using Cons by (simp add: text_of_def)
qed (simp add: text_of_def)

lemma stoi_to_string: "0 \<le> v \<Longrightarrow> v \<le> int_max \<Longrightarrow> stoi (to_string v) = Inr v"
  using stoi_digits [of "nat v"] by (simp add: to_string_def)






text \<open>The peer information of a tracker's answer is what a connection needs to be started.\<close>

lemma answered_peers:
  assumes "length d = 20" "\<forall>(pid, ip, port) \<in> set ps. pton4 (text_of ip) \<and> 0 \<le> port \<and> port \<le> int_max"
    "infos = map (peer_of my_id (Some d)) ps"
  shows "\<forall>i \<in> set infos. m_info_hash i = Some d \<and> m_id i = my_id \<and> ip_version pton4 pton6 (m_remote_ip i) = 4"
    "list_all2 (\<lambda>i port. stoi (ascii (m_remote_port i)) = Inr port) infos (map (\<lambda>p. snd (snd p)) ps)"
  unfolding assms(3) using assms(1,2)
  by (auto simp: peer_of_def ip_version_def list_all2_conv_all_nth stoi_to_string dest!: nth_mem)

section \<open>Properties\<close>




end
