(* ===== verification/Client_Download.thy ===== *)
theory Client_Download
  imports Download_Spec Session_Authentication Startup
begin

text \<open>
  A session from its start to the downloaded pieces: the session is started on the digests of a torrent
  and the peers it is given (\<open>Startup\<close>), a peer is connected, greets and unchokes (\<open>Session_Opening\<close>), and
  the download of all pieces begins and ends (\<open>Download_Spec\<close>).
\<close>

section \<open>A seed\<close>







section \<open>The session\<close>






section \<open>A sample session\<close>










section \<open>Properties\<close>



end
