(* ===== verification/Bencode_Printer.thy ===== *)
theory Bencode_Printer
  imports Bencode
begin

text \<open>
  The printing functions of \<open>src/bencode.cpp\<close>: \<open>to_string\<close> and what it calls. The loops put a
  separator behind every element but the last; the reference rendering joins them. An
  \<open>unordered_map\<close> is visited in an order of its own: \<open>order\<close> gives the keys in that order, from
  the keys in the order of their insertion. An empty string is printed through \<open>&buff[0]\<close>, the
  address of an element that does not exist; a null pointer is dereferenced.
\<close>

section \<open>Printing\<close>

text \<open>The loops of \<open>list_to_string\<close> and \<open>dict_to_string\<close>, over the calls for the elements.\<close>

fun list_print :: "int \<Rightarrow> int \<Rightarrow> byte list res list \<Rightarrow> byte list \<Rightarrow> byte list res" where
  "list_print i n [] ans = Inr ans"
| "list_print i n (r # rs) ans =
     bindE r (\<lambda>v. list_print (i + 1) n rs (ans @ v @ (if i < n - 1 then ascii '', '' else [])))"

definition list_to_string :: "byte list res list \<Rightarrow> byte list res" where
  "list_to_string rs =
     bindE (list_print 0 (int (length rs)) rs (ascii ''list [''))
       (\<lambda>ans. Inr (ans @ ascii '']''))"

fun dict_print :: "int \<Rightarrow> int \<Rightarrow> (byte list \<times> byte list res) list \<Rightarrow> byte list \<Rightarrow> byte list res" where
  "dict_print i n [] ans = Inr ans"
| "dict_print i n ((key, r) # es) ans =
     bindE r (\<lambda>v. dict_print (i + 1) n es
       (ans @ (key @ ascii '' : '') @ v @ (if i < n - 1 then ascii '', '' else [])))"

definition dict_to_string :: "(byte list \<times> byte list res) list \<Rightarrow> byte list res" where
  "dict_to_string es =
     bindE (dict_print 0 (int (length es)) es (ascii ''dict { ''))
       (\<lambda>ans. Inr (ans @ ascii '' }''))"

text \<open>The entries of a map in the order of its iterator.\<close>

definition visit :: "(byte list list \<Rightarrow> byte list list) \<Rightarrow> (byte list \<times> 'v) list \<Rightarrow> (byte list \<times> 'v) list" where
  "visit order m = List.map_filter (\<lambda>k. map_option (Pair k) (map_of m k)) (order (map fst m))"

fun node_to_string :: "(byte list list \<Rightarrow> byte list list) \<Rightarrow> bnode \<Rightarrow> byte list res" where
  "node_to_string order (Bint v) = Inr (to_string v)"
| "node_to_string order (Bstr s) = (if s = [] then Inl Undefined else Inr s)"
| "node_to_string order (Blist ns) =
     list_to_string (map (\<lambda>n. case n of None \<Rightarrow> Inl Undefined | Some x \<Rightarrow> node_to_string order x) ns)"
| "node_to_string order (Bdict m) =
     dict_to_string (visit order
       (map (\<lambda>(k, n). (k, case n of None \<Rightarrow> Inl Undefined | Some x \<Rightarrow> node_to_string order x)) m))"

definition decoder_to_string :: "(byte list list \<Rightarrow> byte list list) \<Rightarrow> decoder \<Rightarrow> byte list res" where
  "decoder_to_string order d =
     (case m_node d of
        None \<Rightarrow> Inl Undefined
      | Some n \<Rightarrow> bindE (node_to_string order n) (\<lambda>s. Inr (s @ [10])))"

section \<open>The reference rendering\<close>

fun join :: "'a list \<Rightarrow> 'a list list \<Rightarrow> 'a list" where
  "join sep [] = []"
| "join sep [x] = x"
| "join sep (x # y # xs) = x @ sep @ join sep (y # xs)"

fun render :: "(byte list list \<Rightarrow> byte list list) \<Rightarrow> bnode \<Rightarrow> byte list" where
  "render order (Bint v) = to_string v"
| "render order (Bstr s) = s"
| "render order (Blist ns) =
     ascii ''list ['' @
     join (ascii '', '') (map (\<lambda>n. case n of None \<Rightarrow> [] | Some x \<Rightarrow> render order x) ns) @ ascii '']''"
| "render order (Bdict m) =
     ascii ''dict { '' @
     join (ascii '', '') (map (\<lambda>(k, v). k @ ascii '' : '' @ v)
       (visit order (map (\<lambda>(k, n). (k, case n of None \<Rightarrow> [] | Some x \<Rightarrow> render order x)) m))) @
     ascii '' }''"

text \<open>Nodes without null pointers and empty strings (a key may be empty).\<close>

fun printable :: "bnode \<Rightarrow> bool" where
  "printable (Bint v) = True"
| "printable (Bstr s) = (s \<noteq> [])"
| "printable (Blist ns) = (\<forall>n \<in> set ns. case n of None \<Rightarrow> False | Some x \<Rightarrow> printable x)"
| "printable (Bdict m) = (\<forall>(k, n) \<in> set m. case n of None \<Rightarrow> False | Some x \<Rightarrow> printable x)"

section \<open>Lemmas\<close>

lemma list_print_join:
  assumes "n = i + int (length vs)"
  shows "list_print i n (map Inr vs) ans = Inr (ans @ join (ascii '', '') vs)"
  using assms
proof (induction vs arbitrary: i ans)
  case (Cons x vs)
  have "list_print (i + 1) n (map Inr vs) t = Inr (t @ join (ascii '', '') vs)" for t
    by (rule Cons.IH) (use Cons.prems in simp)
  note IH = this
  show ?case
  proof (cases "vs = []")
    case False
    then have "join (ascii '', '') (x # vs) = x @ ascii '', '' @ join (ascii '', '') vs" by (cases vs) simp_all
    moreover have "i < n - 1" using Cons.prems False by (cases vs) simp_all
    ultimately show ?thesis by (simp add: IH del: ascii_simps)
  qed (use Cons.prems in simp)
qed simp

lemma dict_print_join:
  "dict_print i n (map (\<lambda>(k, v). (k, Inr v)) es) ans =
   list_print i n (map Inr (map (\<lambda>(k, v). k @ ascii '' : '' @ v) es)) ans"
  by (induction es arbitrary: i ans) auto

lemma visit_map:
  "visit order (map (\<lambda>(k, n). (k, f n)) m) = map (\<lambda>(k, n). (k, f n)) (visit order m)"
proof -
  have keys: "map fst (map (\<lambda>(k, n). (k, f n)) m) = map fst m" by auto
  have look: "map_of (map (\<lambda>(k, n). (k, f n)) m) k = map_option f (map_of m k)" for k
    by (induction m) auto
  have "List.map_filter (\<lambda>k. map_option (Pair k) (map_option f (map_of m k))) ks =
      map (\<lambda>(k, n). (k, f n)) (List.map_filter (\<lambda>k. map_option (Pair k) (map_of m k)) ks)" for ks
    by (induction ks) (auto simp: List.map_filter_simps split: option.splits)
  then show ?thesis unfolding visit_def keys look by simp
qed

lemma visit_subset: "set (visit order m) \<subseteq> set m"
  by (auto simp: visit_def List.map_filter_def dest: map_of_SomeD)

lemma visit_cong:
  assumes "\<And>k n. (k, n) \<in> set m \<Longrightarrow> f n = g n"
  shows "visit order (map (\<lambda>(k, n). (k, f n)) m) = map (\<lambda>(k, n). (k, g n)) (visit order m)"
proof -
  have "map (\<lambda>(k, n). (k, f n)) m = map (\<lambda>(k, n). (k, g n)) m" using assms by auto
  then show ?thesis by (simp only: visit_map)
qed

lemma node_to_string_render:
  "printable n \<Longrightarrow> node_to_string order n = Inr (render order n)"
proof (induction order n rule: node_to_string.induct)
  case (3 order ns)
  then have "map (\<lambda>n. case n of None \<Rightarrow> Inl Undefined | Some x \<Rightarrow> node_to_string order x) ns =
      map Inr (map (\<lambda>n. case n of None \<Rightarrow> [] | Some x \<Rightarrow> render order x) ns)"
    by (auto split: option.splits)
  then show ?case by (simp add: list_to_string_def list_print_join del: map_map)
next
  case (4 order m)
  let ?r = "\<lambda>n. case n of None \<Rightarrow> [] | Some x \<Rightarrow> render order x"
  have "visit order (map (\<lambda>(k, n). (k, case n of None \<Rightarrow> Inl Undefined | Some x \<Rightarrow> node_to_string order x)) m) =
      map (\<lambda>(k, n). (k, Inr (?r n))) (visit order m)"
    by (rule visit_cong) (use 4 in \<open>fastforce split: option.splits\<close>)
  also have "\<dots> = map (\<lambda>(k, v). (k, Inr v)) (visit order (map (\<lambda>(k, n). (k, ?r n)) m))"
    unfolding visit_map map_map by (rule map_cong) auto
  finally show ?case
    by (simp add: dict_to_string_def dict_print_join list_print_join del: map_map)
qed simp_all

section \<open>Properties\<close>

text \<open>printing a node without null pointers and empty strings does not fault and yields the
  reference rendering: elements joined by a comma and a space, a dictionary in the order of its
  iterator.\<close>

theorem to_string_renders:
  assumes "m_node d = Some n" "printable n"
  shows "decoder_to_string order d = Inr (render order n @ [10])"
  using assms by (simp add: decoder_to_string_def node_to_string_render)

theorem to_string_renders_witness:
  "decoder_to_string rev (decoder_new []\<lparr>m_node := Some (Bdict [(ascii ''a'', Some (Bint 1)),
       (ascii ''b'', Some (Blist [Some (Bstr (ascii ''x'')), Some (Bint 2)]))])\<rparr>) =
     Inr (ascii ''dict { b : list [x, 2], a : 1 }'' @ [10])"
proof -
  let ?n = "Bdict [(ascii ''a'', Some (Bint 1)), (ascii ''b'', Some (Blist [Some (Bstr (ascii ''x'')), Some (Bint 2)]))]"
  have "render rev ?n = ascii ''dict { b : list [x, 2], a : 1 }''"
    by (simp add: visit_def List.map_filter_simps to_string_def digits.simps)
  with to_string_renders [of "decoder_new []\<lparr>m_node := Some ?n\<rparr>" ?n rev] show ?thesis by simp
qed

end
