(* ===== verification/Bencode_Typing.thy ===== *)
theory Bencode_Typing
  imports Bencode_Codec
begin

text \<open>
  The type of what the decoder of \<open>src/bencode.cpp\<close> returns. The variant of a node does not say that a
  number is neither negative nor above \<open>LLONG_MAX\<close>, that strings and keys are pieces of the input, or
  that a dictionary has one value for each key; the decoder establishes it for every node at every
  depth, whatever the input is.
\<close>

section \<open>Well-typed nodes\<close>

fun typed :: "nat \<Rightarrow> bnode \<Rightarrow> bool" where
  "typed len (Bint n) = (0 \<le> n \<and> n \<le> llong_max)"
| "typed len (Bstr s) = (length s \<le> len)"
| "typed len (Blist ns) = (\<forall>n \<in> set ns. case n of None \<Rightarrow> True | Some x \<Rightarrow> typed len x)"
| "typed len (Bdict m) =
     (distinct (map fst m) \<and>
      (\<forall>(k, n) \<in> set m. length k \<le> len \<and> (case n of None \<Rightarrow> True | Some x \<Rightarrow> typed len x)))"

definition typed_option :: "nat \<Rightarrow> bnode option \<Rightarrow> bool" where
  "typed_option len n = (case n of None \<Rightarrow> True | Some x \<Rightarrow> typed len x)"

lemma typed_option_simps [simp]:
  "typed_option len None" "typed_option len (Some x) = typed len x"
  by (simp_all add: typed_option_def)

lemma typed_nodes [simp]:
  "typed len (Blist ns) \<longleftrightarrow> (\<forall>n \<in> set ns. typed_option len n)"
  "typed len (Bdict m) \<longleftrightarrow> distinct (map fst m) \<and> (\<forall>(k, n) \<in> set m. length k \<le> len \<and> typed_option len n)"
  by (simp_all add: typed_option_def)

declare typed.simps(3,4) [simp del]

lemma decode_int_typed:
  assumes "decode_int d = Inr (n, d')" "m_index d \<le> length (m_bencode d)"
  shows "typed len n"
  using assms int_loop_sound [OF _ assms(2)] by (fastforce simp: decode_int_def split: if_splits)

lemma decode_string_typed: "decode_string l d = Inr n \<Longrightarrow> typed (length (m_bencode d)) n"
  by (auto simp: decode_string_def split: if_splits)

lemma set_update_le: "set (AList.update k n es) \<subseteq> insert (k, n) (set es)"
  by (induction es) auto

lemma typed_update:
  assumes "typed len (Bdict es)" "length k \<le> len" "typed_option len n"
  shows "typed len (Bdict (AList.update k n es))"
  using assms set_update_le [of k n es] by (auto simp: distinct_update)

section \<open>Decoding\<close>

lemma decode_types:
  "decode fuel d = Some (Inr (n, d')) \<Longrightarrow> typed_option (length (m_bencode d)) n"
  "list_loop fuel xs d = Some (Inr (m, d')) \<Longrightarrow> typed (length (m_bencode d)) (Blist xs) \<Longrightarrow>
   typed (length (m_bencode d)) m"
  "dict_loop fuel es d = Some (Inr (m, d')) \<Longrightarrow> typed (length (m_bencode d)) (Bdict es) \<Longrightarrow>
   typed (length (m_bencode d)) m"
proof (induction fuel d and fuel xs d and fuel es d
    arbitrary: n d' and m d' and m d' rule: decode_list_loop_dict_loop.induct)
  case (2 fuel d)
  let ?d = "step_by 1 d"
  have ll: "typed (length (m_bencode d)) x" if "list_loop fuel [] ?d = Some (Inr (x, e))" "peek d = list_token"
    "m_index d < length (m_bencode d)" for x e
    using "2.IH"(1) [of "peek d"] that by auto
  have dl: "typed (length (m_bencode d)) x" if "dict_loop fuel [] ?d = Some (Inr (x, e))" "peek d = dict_token"
    "m_index d < length (m_bencode d)" for x e
    using "2.IH"(2) [of "peek d"] that by auto
  have int: "typed (length (m_bencode d)) x" if "decode_int ?d = Inr (x, e)" "m_index d < length (m_bencode d)" for x e
    by (rule decode_int_typed [OF that(1)]) (use that(2) in \<open>simp add: step_by_def\<close>)
  have str: "typed (length (m_bencode d)) x" if "get_str_len d = Inr (l, e)" "decode_string l e = Inr x" for l e x
    using decode_string_typed [OF that(2)] later_get_str_len [OF that(1)] by (simp add: later_def)
  from "2.prems" show ?case
    by (auto simp: Let_def bindR_Some_Inr keep_def simp del: One_nat_def split: if_splits
      dest: int ll dl str)
next
  case (4 fuel xs d)
  show ?case
  proof (cases "m_index d < length (m_bencode d) \<and> m_bencode d ! m_index d \<noteq> end_token")
    case True
    with "4.prems"(1) obtain n d1 where t: "decode fuel d = Some (Inr (n, d1))"
      "list_loop fuel (xs @ [n]) d1 = Some (Inr (m, d'))" by (auto simp: bindR_Some_Inr)
    have b: "m_bencode d1 = m_bencode d" using decode_later(1) [OF t(1)] by (simp add: later_def)
    have "typed_option (length (m_bencode d)) n" using "4.IH"(1) [OF True t(1)] .
    then show ?thesis using "4.IH"(2) [OF True t(1) refl t(2)] "4.prems"(2) b by auto
  next
    case False
    with "4.prems" show ?thesis by (auto split: if_splits)
  qed
next
  case (6 fuel es d)
  show ?case
  proof (cases "m_index d < length (m_bencode d) \<and> m_bencode d ! m_index d \<noteq> end_token")
    case True
    from dict_turn [OF "6.prems"(1) this] obtain k d1 n d2 where
      t: "decode fuel d = Some (Inr (Some (Bstr k), d1))" "decode fuel d1 = Some (Inr (n, d2))"
        "dict_loop fuel (AList.update k n es) d2 = Some (Inr (m, d'))" by blast
    have b: "m_bencode d1 = m_bencode d" "m_bencode d2 = m_bencode d"
      using decode_later(1) [OF t(1)] decode_later(1) [OF t(2)] by (simp_all add: later_def)
    have "length k \<le> length (m_bencode d)" using "6.IH"(1) [OF True t(1)] by simp
    moreover have "typed_option (length (m_bencode d)) n"
      using "6.IH"(2) [OF True t(1) refl refl refl t(2)] b by simp
    ultimately have "typed (length (m_bencode d)) (Bdict (AList.update k n es))"
      by (rule typed_update [OF "6.prems"(2)])
    then show ?thesis using "6.IH"(3) [OF True t(1) refl refl refl t(2) refl t(3)] b by simp
  next
    case False
    with "6.prems" show ?thesis by (auto split: if_splits)
  qed
qed auto

section \<open>Properties\<close>

text \<open>C16: every node that \<open>decode\<close> returns is well typed, at every depth: numbers are between 0 and the
  largest \<open>long long\<close>, strings and keys are no longer than the input, and the keys of a dictionary
  are distinct.\<close>

theorem decoded_typed:
  assumes "decode fuel (decoder_new b) = Some (Inr (Some n, d))"
  shows "typed (length b) n"
  using decode_types(1) [OF assms] by (simp add: decoder_new_def)

theorem decoded_typed_witness:
  "\<exists>n d. decode 15 (decoder_new [100, 51, 58, 102, 111, 111, 108, 49, 58, 97, 105, 55, 101, 101, 101, 0]) =
     Some (Inr (Some n, d)) \<and> typed 16 n"
proof -
  let ?b = "[100, 51, 58, 102, 111, 111, 108, 49, 58, 97, 105, 55, 101, 101, 101, 0] :: byte list"
  have "\<exists>n d. decode 15 (decoder_new ?b) = Some (Inr (Some n, d))"
    using plain_decodes [of sample_node, unfolded decodes_def, rule_format, of "decoder_new ?b" "[0]" 15]
    by (auto simp: sample_encoding decoder_new_def) (simp add: sample_node_def)
  moreover have "length ?b = 16" by simp
  ultimately show ?thesis using decoded_typed [of 15 ?b] by metis
qed

end
