(* ===== verification/Timer.thy ===== *)
theory Timer
  imports Prelude
begin

text \<open>
  \<open>src/timer.cpp\<close>, \<open>include/timer.h\<close>: a timer of \<open>event_loop\<close>. A callback is a number, \<open>None\<close> the null
  pointer; its argument is a number too.
\<close>

record timer =
  m_cb :: "nat option"
  m_clamped_timeout :: int
  m_timeout_ms :: int
  m_repeat :: int
  m_cb_arg :: nat

definition timer_new :: "int \<Rightarrow> nat option \<Rightarrow> nat \<Rightarrow> timer" where
  "timer_new timeout_ms cb arg =
     \<lparr>m_cb = cb, m_clamped_timeout = 0, m_timeout_ms = timeout_ms, m_repeat = 0, m_cb_arg = arg\<rparr>"

definition timer_new_repeat :: "int \<Rightarrow> nat option \<Rightarrow> int \<Rightarrow> nat \<Rightarrow> timer res" where
  "timer_new_repeat timeout_ms cb rep arg =
     bindE (if rep \<le> 0 then Inr 0 else i32 (rep - 1)) (\<lambda>r.
     Inr \<lparr>m_cb = cb, m_clamped_timeout = 0, m_timeout_ms = timeout_ms, m_repeat = r, m_cb_arg = arg\<rparr>)"

text \<open>
  \<open>start\<close>: the sum is an \<open>int\<close>, then converted to \<open>uint64_t\<close> and compared with the timeout converted
  likewise; the expiry is stored as an \<open>int\<close>.
\<close>

definition timer_start :: "int \<Rightarrow> timer \<Rightarrow> timer res" where
  "timer_start loop_time t =
     bindE (i32 (loop_time + m_timeout_ms t)) (\<lambda>v.
     let expiry = usize v;
         expiry = (if expiry < usize (m_timeout_ms t) then 2 ^ 64 - 1 else expiry) in
     Inr (t\<lparr>m_clamped_timeout := narrow32 expiry\<rparr>))"

text \<open>\<open>repeat\<close>: whether to run again, and the count decremented.\<close>

definition timer_repeat :: "timer \<Rightarrow> (bool \<times> timer) res" where
  "timer_repeat t = bindE (i32 (m_repeat t - 1)) (\<lambda>r. Inr (m_repeat t > 0, t\<lparr>m_repeat := r\<rparr>))"

definition get_expiry :: "timer \<Rightarrow> int" where
  "get_expiry t = m_clamped_timeout t"

text \<open>\<open>run_callback\<close>: the callback and its argument.\<close>

definition run_callback :: "timer \<Rightarrow> (nat \<times> nat) res" where
  "run_callback t = (case m_cb t of None \<Rightarrow> Inl Abort | Some cb \<Rightarrow> Inr (cb, m_cb_arg t))"

lemma timer_start_ok:
  assumes "0 \<le> now" "0 \<le> m_timeout_ms t" "now + m_timeout_ms t \<le> int_max"
  shows "timer_start now t = Inr (t\<lparr>m_clamped_timeout := now + m_timeout_ms t\<rparr>)"
  using assms by (simp add: timer_start_def i32_def Let_def usize_id narrow32_id)

text \<open>A clock that has wrapped to a negative time clamps a longer timeout to -1.\<close>

lemma timer_start_wrapped:
  assumes "- int_max \<le> now" "now < 0" "- now \<le> m_timeout_ms t" "m_timeout_ms t \<le> int_max"
  shows "timer_start now t = Inr (t\<lparr>m_clamped_timeout := -1\<rparr>)"
proof -
  have "narrow32 (2 ^ 64 - 1) = -1" by (simp add: narrow32_def)
  with assms show ?thesis by (simp add: timer_start_def i32_def Let_def usize_id)
qed

end
