(* ===== verification/Tcp_Socket.thy ===== *)
theory Tcp_Socket
  imports Prelude
begin

text \<open>
  \<open>src/tcp.cpp\<close>: the non-blocking socket of \<open>event_loop\<close>. The kernel is an environment that answers
  the calls in order; a call without an answer has not returned (\<open>None\<close>). Answers that remain are
  returned, for the next call.
\<close>

datatype socket_state = CONNECTED | CLOSED

record tcp_socket =
  tcp_fd :: int
  m_sock_state :: "socket_state option"

text \<open>\<open>Moved x\<close> is a positive result, \<open>Again\<close> is \<open>EAGAIN\<close>, \<open>Zero\<close> a result of 0, \<open>Failed\<close> any other error.\<close>

datatype 'a tcp_answer = Moved 'a | Again | Zero | Failed

text \<open>\<open>die\<close>, and \<open>new_socket\<close> with the result of \<open>socket\<close>.\<close>

definition tcp_die :: "'a res" where
  "tcp_die = Inl Exit_failure"

definition tcp_new_socket :: "int \<Rightarrow> int res" where
  "tcp_new_socket fd = (if fd < 0 then Inl Exit_failure else Inr fd)"

definition tcp_new :: tcp_socket where
  "tcp_new = \<lparr>tcp_fd = -1, m_sock_state = None\<rparr>"

definition get_fd :: "tcp_socket \<Rightarrow> int" where
  "get_fd s = tcp_fd s"

text \<open>\<open>set_flags\<close> with the results of the two calls of \<open>fcntl\<close>.\<close>

definition set_flags :: "int \<Rightarrow> int \<Rightarrow> int \<Rightarrow> tcp_socket \<Rightarrow> int res" where
  "set_flags getfl setfl flags s =
     (if tcp_fd s = -1 then tcp_die
      else if getfl = -1 then tcp_die
      else if setfl = -1 then tcp_die
      else Inr (or getfl flags))"

text \<open>
  \<open>connect_to\<close>: \<open>getaddrinfo\<close> reports errors by other values than -1, which are not noticed, and the
  list it then leaves unset is read. \<open>socket_state\<close> is \<open>CLOSED\<close> after the last failed address.
\<close>

fun tcp_addresses :: "(int \<times> bool) list \<Rightarrow> tcp_socket \<Rightarrow> (bool \<times> tcp_socket) res" where
  "tcp_addresses [] s = Inr (False, s)"
| "tcp_addresses ((fd, ok) # as) s =
     bindE (tcp_new_socket fd) (\<lambda>fd.
     if ok then Inr (True, s\<lparr>tcp_fd := fd\<rparr>)
     else tcp_addresses as (s\<lparr>tcp_fd := fd, m_sock_state := Some CLOSED\<rparr>))"

definition tcp_connect_to :: "(int \<times> bool) list option \<Rightarrow> tcp_socket \<Rightarrow> (int \<times> tcp_socket) res" where
  "tcp_connect_to resolved s =
     (case resolved of
        None \<Rightarrow> Inl Undefined
      | Some as \<Rightarrow>
          bindE (tcp_addresses as s) (\<lambda>(connected, s).
          if connected then Inr (tcp_fd s, s\<lparr>m_sock_state := Some CONNECTED\<rparr>) else Inr (-1, s)))"

text \<open>\<open>recv\<close> into the memory \<open>mem\<close> of the caller: the memory, the bytes received, the answers left.\<close>

fun tcp_recv :: "byte list \<Rightarrow> nat \<Rightarrow> byte list tcp_answer list \<Rightarrow> (byte list \<times> nat \<times> byte list tcp_answer list) res option"
  where
  "tcp_recv mem tot [] = None"
| "tcp_recv mem tot (Moved bs # as) =
     (case mem_put mem (int tot) bs of
        Inl e \<Rightarrow> Some (Inl e)
      | Inr mem' \<Rightarrow> tcp_recv mem' (tot + length bs) as)"
| "tcp_recv mem tot (Again # as) = Some (Inr (mem, tot, as))"
| "tcp_recv mem tot (Zero # as) = Some (Inr (mem, tot, as))"
| "tcp_recv mem tot (Failed # as) = Some tcp_die"

text \<open>\<open>send\<close>: the bytes sent, the error flag (-1 when the kernel has no room), the answers left.\<close>

fun tcp_send :: "nat \<Rightarrow> nat tcp_answer list \<Rightarrow> (nat \<times> int \<times> nat tcp_answer list) res option" where
  "tcp_send tot [] = None"
| "tcp_send tot (Moved n # as) = tcp_send (tot + n) as"
| "tcp_send tot (Again # as) = Some (Inr (tot, -1, as))"
| "tcp_send tot (Zero # as) = Some (Inr (tot, 0, as))"
| "tcp_send tot (Failed # as) = Some tcp_die"

text \<open>
  \<open>close\<close> acts on the open descriptors of the process; the object keeps its own. \<open>read_available\<close> with
  what \<open>ioctl\<close> stores, which is nothing when it fails.
\<close>

definition tcp_close :: "int set \<Rightarrow> tcp_socket \<Rightarrow> int set \<times> tcp_socket" where
  "tcp_close fds s = (fds - {tcp_fd s}, s)"

definition read_available :: "int option \<Rightarrow> tcp_socket \<Rightarrow> int res" where
  "read_available answer s = (case answer of None \<Rightarrow> Inl Undefined | Some n \<Rightarrow> Inr n)"

section \<open>Lemmas\<close>

text \<open>A closed socket passes the test of \<open>set_flags\<close>, still counts as connected, and closes again whatever got its descriptor.\<close>

lemma closed_socket_unnoticed:
  assumes "tcp_close fds s = (fds', s')" "tcp_fd s \<noteq> -1" "getfl \<noteq> -1" "setfl \<noteq> -1"
  shows "tcp_fd s' \<notin> fds' \<and> set_flags getfl setfl flags s' = Inr (or getfl flags) \<and>
    m_sock_state s' = m_sock_state s \<and> tcp_close (insert (tcp_fd s) fds') s' = (fds', s')"
  using assms by (auto simp: tcp_close_def set_flags_def)

lemma tcp_recv_parts:
  assumes "tot + length (concat parts) \<le> length mem" "mem = pre @ tail" "length pre = tot" "stop = Again \<or> stop = Zero"
  shows "tcp_recv mem tot (map Moved parts @ stop # as) =
    Some (Inr (pre @ concat parts @ drop (length (concat parts)) tail, tot + length (concat parts), as))"
  using assms
proof (induction parts arbitrary: mem tot pre tail)
  case (Cons bs parts)
  let ?mem = "(pre @ bs) @ drop (length bs) tail"
  have "mem_put mem (int tot) bs = Inr ?mem" using Cons.prems by (simp add: mem_put_def)
  moreover have "tcp_recv ?mem (tot + length bs) (map Moved parts @ stop # as) =
      Some (Inr ((pre @ bs) @ concat parts @ drop (length (concat parts)) (drop (length bs) tail),
        tot + length bs + length (concat parts), as))"
    using Cons.prems by (intro Cons.IH) auto
  ultimately show ?case by (simp add: add.commute)
qed auto

lemma tcp_send_moved: "tcp_send tot (map Moved ns @ Again # as) = Some (Inr (tot + sum_list ns, -1, as))"
  "tcp_send tot (map Moved ns @ Zero # as) = Some (Inr (tot + sum_list ns, 0, as))"
  by (induction ns arbitrary: tot) (simp_all add: add.assoc)

end
