(* ===== verification/Event_Loop.thy ===== *)
theory Event_Loop
  imports Timer Tcp_Socket
begin

unbundle bit_operations_syntax

text \<open>
  \<open>src/event_loop.cpp\<close>, \<open>include/event_loop.h\<close>: the epoll loop with timers. No build target compiles
  it and no other file calls it; it is modelled as it is written.

  A \<open>socket_tcp *\<close> is a number, and \<open>fd_of\<close> gives its descriptor. The map of descriptors is a partial
  function. The heap of timers is kept as a list sorted by the expiry, which is all that \<open>top\<close> and
  \<open>pop\<close> of a \<open>std::priority_queue\<close> promise (the order of timers with one expiry is unspecified). What
  the loop asks of the kernel and the callbacks it runs are logged; callbacks do not call the loop.
  \<open>now k\<close> is the clock in milliseconds at its \<open>k\<close>-th reading, \<open>None\<close> when \<open>gettimeofday\<close> fails.
\<close>

section \<open>State\<close>

text \<open>A queued write: the memory of the caller, the offset of the pointer into it, and the size.\<close>

type_synonym write_req = "byte list \<times> int \<times> int"

record io =
  io_sock :: "nat option"
  io_read_cb :: "nat option"
  io_buff :: "byte list"
  io_write_queue :: "write_req list"
  io_events :: "32 word"

datatype action =
    Ctl_add int "32 word"
  | Ctl_mod int "32 word"
  | Run_callback nat nat
  | Read_callback nat nat "byte list"
  | Sent nat "byte list"

record event_loop =
  m_sock_count :: int
  m_iomap :: "int \<rightharpoonup> io"
  m_time :: "int option"
  m_timers :: "timer list"
  clock_reads :: nat
  actions :: "action list"

definition EPOLLIN :: "32 word" where "EPOLLIN = 1"
definition EPOLLOUT :: "32 word" where "EPOLLOUT = 4"
definition EPOLLET :: "32 word" where "EPOLLET = 0x80000000"

definition event_loop_new :: event_loop where
  "event_loop_new =
     \<lparr>m_sock_count = 0, m_iomap = Map.empty, m_time = None, m_timers = [], clock_reads = 0, actions = []\<rparr>"

definition log_action :: "action \<Rightarrow> event_loop \<Rightarrow> event_loop" where
  "log_action a l = l\<lparr>actions := actions l @ [a]\<rparr>"

section \<open>Time and timers\<close>

type_synonym clock = "nat \<Rightarrow> int option"

text \<open>
  \<open>get_ms_time\<close> stores the milliseconds in an \<open>int\<close> and returns a \<open>uint64_t\<close>; the error of
  \<open>gettimeofday\<close>, -1, is returned as a time too.
\<close>

definition get_ms_time :: "clock \<Rightarrow> nat \<Rightarrow> int" where
  "get_ms_time now k = (case now k of None \<Rightarrow> usize (-1) | Some ms \<Rightarrow> usize (narrow32 ms))"

definition update_time :: "clock \<Rightarrow> event_loop \<Rightarrow> int \<times> event_loop" where
  "update_time now l =
     (let t = get_ms_time now (clock_reads l) in
      (t, l\<lparr>m_time := Some t, clock_reads := Suc (clock_reads l)\<rparr>))"

definition heap_push :: "timer \<Rightarrow> timer list \<Rightarrow> timer list" where
  "heap_push t ts = insort_key m_clamped_timeout t ts"

definition set_timer :: "clock \<Rightarrow> timer \<Rightarrow> event_loop \<Rightarrow> event_loop res" where
  "set_timer now t l =
     (let (time, l) = update_time now l in
      bindE (timer_start (narrow32 time) t) (\<lambda>t. Inr (l\<lparr>m_timers := heap_push t (m_timers l)\<rparr>)))"

definition compute_next_timeout :: "event_loop \<Rightarrow> int res" where
  "compute_next_timeout l =
     (case m_timers l of
        [] \<Rightarrow> Inr (-1)
      | timer # _ \<Rightarrow>
          (case m_time l of
             None \<Rightarrow> Inl Undefined
           | Some time \<Rightarrow>
               let clamped = usize (get_expiry timer) in
               if clamped \<le> time then Inr 0
               else let diff = clamped - time in Inr (if diff > int_max then int_max else diff)))"

text \<open>One turn of the loop of \<open>run_timers\<close>: whether it goes on.\<close>

definition run_timer :: "clock \<Rightarrow> event_loop \<Rightarrow> (bool \<times> event_loop) res" where
  "run_timer now l =
     (case m_timers l of
        [] \<Rightarrow> Inr (False, l)
      | timer # timers \<Rightarrow>
          (case m_time l of
             None \<Rightarrow> Inl Undefined
           | Some time \<Rightarrow>
               if usize (get_expiry timer) > time then Inr (False, l)
               else
                 bindE (run_callback timer) (\<lambda>(cb, arg).
                 let (t, l) = update_time now (log_action (Run_callback cb arg) l\<lparr>m_timers := timers\<rparr>) in
                 bindE (timer_repeat timer) (\<lambda>(again, timer).
                 if again then
                   bindE (timer_start (narrow32 t) timer) (\<lambda>timer.
                   Inr (True, l\<lparr>m_timers := heap_push timer (m_timers l)\<rparr>))
                 else Inr (True, l)))))"

fun run_timers :: "nat \<Rightarrow> clock \<Rightarrow> event_loop \<Rightarrow> event_loop res option" where
  "run_timers 0 now l = None"
| "run_timers (Suc fuel) now l =
     (case run_timer now l of
        Inl e \<Rightarrow> Some (Inl e)
      | Inr (more_timers, l) \<Rightarrow> if more_timers then run_timers fuel now l else Some (Inr l))"

section \<open>Sockets\<close>

definition set_socket :: "(nat \<Rightarrow> int) \<Rightarrow> nat \<Rightarrow> nat option \<Rightarrow> event_loop \<Rightarrow> event_loop res" where
  "set_socket fd_of sock cb l =
     (case m_iomap l (fd_of sock) of
        Some io \<Rightarrow>
          bindE (assertE (io_read_cb io \<noteq> None)) (\<lambda>_.
          bindE (assertE (io_sock io = Some sock)) (\<lambda>_. Inr l))
      | None \<Rightarrow>
          bindE (i32 (m_sock_count l + 1)) (\<lambda>n.
          Inr (l\<lparr>m_sock_count := n, m_iomap := (m_iomap l)(fd_of sock \<mapsto>
            \<lparr>io_sock = Some sock, io_read_cb = cb, io_buff = [], io_write_queue = [], io_events = 0\<rparr>)\<rparr>)))"

definition remove_socket :: "(nat \<Rightarrow> int) \<Rightarrow> nat \<Rightarrow> event_loop \<Rightarrow> event_loop" where
  "remove_socket fd_of sock l = l\<lparr>m_iomap := (m_iomap l)(fd_of sock := None)\<rparr>"

definition get_sock_events :: "(nat \<Rightarrow> int) \<Rightarrow> nat \<Rightarrow> event_loop \<Rightarrow> 32 word" where
  "get_sock_events fd_of sock l = (case m_iomap l (fd_of sock) of None \<Rightarrow> 0 | Some io \<Rightarrow> io_events io)"

text \<open>\<open>event_ctl\<close>: \<open>exists\<close> says whether \<open>EPOLL_CTL_ADD\<close> answers \<open>EEXIST\<close>. Other errors are printed.\<close>

definition event_ctl :: "(nat \<Rightarrow> int) \<Rightarrow> bool \<Rightarrow> nat \<Rightarrow> 32 word \<Rightarrow> event_loop \<Rightarrow> event_loop" where
  "event_ctl fd_of present sock events l =
     (let fd = fd_of sock; mask = events OR EPOLLET in
      if m_iomap l fd = None then l
      else
        let l = log_action (Ctl_add fd mask) l in
        if present then log_action (Ctl_mod fd mask) l else l)"

definition async_read :: "(nat \<Rightarrow> int) \<Rightarrow> nat \<Rightarrow> byte list \<Rightarrow> event_loop \<Rightarrow> event_loop" where
  "async_read fd_of sock buff l =
     (case m_iomap l (fd_of sock) of
        None \<Rightarrow> l
      | Some io \<Rightarrow> l\<lparr>m_iomap := (m_iomap l)(fd_of sock \<mapsto> io\<lparr>io_buff := buff\<rparr>)\<rparr>)"

text \<open>A null buffer of \<open>async_write\<close> is \<open>None\<close>.\<close>

definition async_write ::
  "(nat \<Rightarrow> int) \<Rightarrow> bool \<Rightarrow> nat tcp_answer list \<Rightarrow> nat \<Rightarrow> byte list option \<Rightarrow> int \<Rightarrow> event_loop \<Rightarrow> event_loop res option"
  where
  "async_write fd_of present as sock buff n l =
     (case buff of
        None \<Rightarrow> Some (Inr l)
      | Some mem \<Rightarrow>
          if n = 0 then Some (Inr l)
          else
            (case tcp_send 0 as of
               None \<Rightarrow> None
             | Some (Inl e) \<Rightarrow> Some (Inl e)
             | Some (Inr (tot, err, rest)) \<Rightarrow>
                 let l = log_action (Sent sock (take tot mem)) l in
                 if err = -1 then
                   let events = get_sock_events fd_of sock l OR EPOLLOUT;
                       l = event_ctl fd_of present sock events l in
                   Some (case m_iomap l (fd_of sock) of
                           None \<Rightarrow> Inl Abort
                         | Some io \<Rightarrow>
                             Inr (l\<lparr>m_iomap := (m_iomap l)(fd_of sock \<mapsto>
                               io\<lparr>io_write_queue := io_write_queue io @ [(mem, int tot, n - int tot)]\<rparr>)\<rparr>))
                 else Some (Inr l)))"

section \<open>Polling\<close>

text \<open>The loop over the write queue in \<open>poll_io\<close>: \<open>n_ready\<close> is the number of ready descriptors.\<close>

fun flush_queue ::
  "int \<Rightarrow> nat \<Rightarrow> write_req list \<Rightarrow> nat tcp_answer list \<Rightarrow> (write_req list \<times> action list) res option" where
  "flush_queue n_ready sock [] as = Some (Inr ([], []))"
| "flush_queue n_ready sock ((mem, off, n) # q) as =
     (case mem_get mem off n of
        Inl e \<Rightarrow> Some (Inl e)
      | Inr bytes \<Rightarrow>
          (case tcp_send 0 as of
             None \<Rightarrow> None
           | Some (Inl e) \<Rightarrow> Some (Inl e)
           | Some (Inr (tot, err, rest)) \<Rightarrow>
               if err = 0 then
                 map_option (map_sum id (map_prod id ((#) (Sent sock (take tot bytes))))) (flush_queue n_ready sock q rest)
               else Some (Inr (((mem, off, n) # q) @ [(mem, off + n_ready, n - n_ready)], [Sent sock (take tot bytes)]))))"

text \<open>A descriptor that \<open>epoll_wait\<close> reports, with the answers of its socket.\<close>

record ready =
  ready_fd :: int
  ready_events :: "32 word"
  recv_answers :: "byte list tcp_answer list"
  send_answers :: "nat tcp_answer list"
  ctl_exists :: bool

text \<open>A buffer that was never set is null with size 0, so empty. \<open>m_iomap[fd]\<close> of an unknown descriptor is an entry with null pointers.\<close>

definition poll_in :: "ready \<Rightarrow> event_loop \<Rightarrow> event_loop res option" where
  "poll_in ev l =
     (case m_iomap l (ready_fd ev) of
        None \<Rightarrow> Some (Inl Undefined)
      | Some io \<Rightarrow>
          (case (io_sock io, io_read_cb io) of
             (Some sock, Some cb) \<Rightarrow>
               (case tcp_recv (io_buff io) 0 (recv_answers ev) of
                  None \<Rightarrow> None
                | Some (Inl e) \<Rightarrow> Some (Inl e)
                | Some (Inr (mem', tot, _)) \<Rightarrow>
                    Some (Inr (log_action (Read_callback cb sock (take tot mem'))
                      (l\<lparr>m_iomap := (m_iomap l)(ready_fd ev \<mapsto> io\<lparr>io_buff := mem'\<rparr>)\<rparr>))))
           | _ \<Rightarrow> Some (Inl Undefined)))"

definition poll_out :: "(nat \<Rightarrow> int) \<Rightarrow> int \<Rightarrow> ready \<Rightarrow> event_loop \<Rightarrow> event_loop res option" where
  "poll_out fd_of n_ready ev l =
     (case m_iomap l (ready_fd ev) of
        None \<Rightarrow> Some (Inl Undefined)
      | Some io \<Rightarrow>
          (case io_sock io of
             None \<Rightarrow> Some (Inl Undefined)
           | Some sock \<Rightarrow>
               (case flush_queue n_ready sock (io_write_queue io) (send_answers ev) of
                  None \<Rightarrow> None
                | Some (Inl e) \<Rightarrow> Some (Inl e)
                | Some (Inr (q, sent)) \<Rightarrow>
                    let l = l\<lparr>m_iomap := (m_iomap l)(ready_fd ev \<mapsto> io\<lparr>io_write_queue := q\<rparr>),
                              actions := actions l @ sent\<rparr> in
                    Some (Inr (if q = [] then
                                 event_ctl fd_of (ctl_exists ev) sock (get_sock_events fd_of sock l AND NOT EPOLLOUT) l
                               else l)))))"

definition poll_event :: "(nat \<Rightarrow> int) \<Rightarrow> int \<Rightarrow> ready \<Rightarrow> event_loop \<Rightarrow> event_loop res option" where
  "poll_event fd_of n_ready ev l =
     (case (if ready_events ev AND EPOLLIN \<noteq> 0 then poll_in ev l else Some (Inr l)) of
        None \<Rightarrow> None
      | Some (Inl e) \<Rightarrow> Some (Inl e)
      | Some (Inr l) \<Rightarrow> if ready_events ev AND EPOLLOUT \<noteq> 0 then poll_out fd_of n_ready ev l else Some (Inr l))"

fun poll_events :: "(nat \<Rightarrow> int) \<Rightarrow> int \<Rightarrow> ready list \<Rightarrow> event_loop \<Rightarrow> event_loop res option" where
  "poll_events fd_of n_ready [] l = Some (Inr l)"
| "poll_events fd_of n_ready (ev # evs) l =
     (case poll_event fd_of n_ready ev l of
        None \<Rightarrow> None
      | Some (Inl e) \<Rightarrow> Some (Inl e)
      | Some (Inr l) \<Rightarrow> poll_events fd_of n_ready evs l)"

text \<open>\<open>poll_io\<close>: with no sockets it returns at once; \<open>None\<close> of \<open>answer\<close> is a failure of \<open>epoll_wait\<close>.\<close>

definition poll_io :: "(nat \<Rightarrow> int) \<Rightarrow> ready list option \<Rightarrow> event_loop \<Rightarrow> event_loop res option" where
  "poll_io fd_of answer l =
     (if m_sock_count l = 0 then Some (Inr l)
      else
        (case answer of
           None \<Rightarrow> Some (Inl Exit_failure)
         | Some evs \<Rightarrow> poll_events fd_of (int (length evs)) evs l))"

text \<open>
  \<open>run\<close>, with the answers of \<open>epoll_wait\<close> for every turn; \<open>None\<close> when the answers or the fuel of
  \<open>run_timers\<close> end before the loop does.
\<close>

fun run_loop :: "nat \<Rightarrow> (nat \<Rightarrow> int) \<Rightarrow> clock \<Rightarrow> ready list option list \<Rightarrow> event_loop \<Rightarrow> event_loop res option" where
  "run_loop fuel fd_of now answers l =
     (if m_timers l = [] \<and> m_sock_count l \<le> 0 then Some (Inr l)
      else
        (case answers of
           [] \<Rightarrow> None
         | answer # answers \<Rightarrow>
             (case compute_next_timeout l of
                Inl e \<Rightarrow> Some (Inl e)
              | Inr _ \<Rightarrow>
                  (case poll_io fd_of answer l of
                     None \<Rightarrow> None
                   | Some (Inl e) \<Rightarrow> Some (Inl e)
                   | Some (Inr l) \<Rightarrow>
                       (case run_timers fuel now (snd (update_time now l)) of
                          None \<Rightarrow> None
                        | Some (Inl e) \<Rightarrow> Some (Inl e)
                        | Some (Inr l) \<Rightarrow> run_loop fuel fd_of now answers l)))))"

end
