(* ===== verification/Event_Loop_Spec.thy ===== *)
theory Event_Loop_Spec
  imports Event_Loop "HOL-Library.Multiset"
begin

text \<open>
  What the loop of \<open>event_loop\<close> does: \<open>run_timers\<close> runs the timers in the order of their expiry until
  none is due and ends also with repeating ones; a write that blocks is queued with the wrong offset
  and stops the reading of the socket; a loop that ever had a socket does not return.
\<close>

section \<open>Timers\<close>

lemma update_time_simps [simp]:
  "fst (update_time now l) = get_ms_time now (clock_reads l)"
  "m_timers (snd (update_time now l)) = m_timers l" "actions (snd (update_time now l)) = actions l"
  "m_sock_count (snd (update_time now l)) = m_sock_count l" "m_iomap (snd (update_time now l)) = m_iomap l"
  "m_time (snd (update_time now l)) = Some (get_ms_time now (clock_reads l))"
  "clock_reads (snd (update_time now l)) = Suc (clock_reads l)"
  by (simp_all add: update_time_def Let_def)

lemma log_action_simps [simp]:
  "m_timers (log_action a l) = m_timers l" "actions (log_action a l) = actions l @ [a]"
  "m_sock_count (log_action a l) = m_sock_count l" "m_iomap (log_action a l) = m_iomap l"
  "m_time (log_action a l) = m_time l" "clock_reads (log_action a l) = clock_reads l"
  by (simp_all add: log_action_def)

definition run_of :: "timer \<Rightarrow> action" where
  "run_of t = Run_callback (the (m_cb t)) (m_cb_arg t)"

text \<open>A timer that is to run once.\<close>

definition one_shot :: "timer \<Rightarrow> bool" where
  "one_shot t = (m_cb t \<noteq> None \<and> m_repeat t = 0)"

text \<open>One turn with a timer that is due.\<close>

lemma run_timer_due:
  assumes "m_timers l = t # ts" "m_time l = Some time" "one_shot t" "usize (get_expiry t) \<le> time"
  shows "run_timer now l = Inr (True, l\<lparr>m_timers := ts, actions := actions l @ [run_of t],
    m_time := Some (get_ms_time now (clock_reads l)), clock_reads := Suc (clock_reads l)\<rparr>)"
  using assms
  by (auto simp: run_timer_def one_shot_def run_callback_def timer_repeat_def update_time_def Let_def run_of_def
      log_action_def i32_def split: option.splits)

text \<open>The time of the loop after \<open>j\<close> timers have run: it is read again after each.\<close>

definition time_after :: "clock \<Rightarrow> event_loop \<Rightarrow> int \<Rightarrow> nat \<Rightarrow> int" where
  "time_after now l time j = (if j = 0 then time else get_ms_time now (clock_reads l + j - 1))"

lemma run_timers_prefix:
  assumes "list_all one_shot (m_timers l)" "m_time l = Some time" "length (m_timers l) < fuel"
  shows "\<exists>k l'. run_timers fuel now l = Some (Inr l') \<and> k \<le> length (m_timers l) \<and>
    m_time l' = Some (time_after now l time k) \<and> m_timers l' = drop k (m_timers l) \<and>
    actions l' = actions l @ map run_of (take k (m_timers l)) \<and>
    (\<forall>j < k. usize (get_expiry (m_timers l ! j)) \<le> time_after now l time j) \<and>
    (k < length (m_timers l) \<longrightarrow> time_after now l time k < usize (get_expiry (m_timers l ! k)))"
  using assms
proof (induction "m_timers l" arbitrary: l time fuel)
  case Nil
  then obtain f where "fuel = Suc f" by (cases fuel) auto
  with Nil show ?case by (auto simp: run_timer_def time_after_def intro: exI [of _ 0])
next
  case (Cons t ts)
  obtain f where f: "fuel = Suc f" using Cons.prems(3) by (cases fuel) auto
  note ts = Cons.hyps(2) [symmetric]
  have one: "one_shot t" "list_all one_shot ts" using Cons.prems(1) by (simp_all add: ts)
  show ?case
  proof (cases "usize (get_expiry t) \<le> time")
    case True
    let ?t = "get_ms_time now (clock_reads l)"
    let ?l = "l\<lparr>m_timers := ts, actions := actions l @ [run_of t], m_time := Some ?t, clock_reads := Suc (clock_reads l)\<rparr>"
    have step: "run_timers fuel now l = run_timers f now ?l"
      using run_timer_due [OF ts Cons.prems(2) one(1) True] by (simp add: f)
    have after: "time_after now ?l ?t j = time_after now l time (Suc j)" for j by (simp add: time_after_def)
    obtain k l' where r: "run_timers f now ?l = Some (Inr l')" "k \<le> length ts"
      "m_time l' = Some (time_after now l time (Suc k))" "m_timers l' = drop k ts"
      "actions l' = actions ?l @ map run_of (take k ts)"
      "\<forall>j < k. usize (get_expiry (ts ! j)) \<le> time_after now l time (Suc j)"
      "k < length ts \<longrightarrow> time_after now l time (Suc k) < usize (get_expiry (ts ! k))"
      using Cons.hyps(1) [of ?l ?t f] Cons.prems(3) one(2) unfolding after by (auto simp: f ts)
    have "usize (get_expiry ((t # ts) ! j)) \<le> time_after now l time j" if "j < Suc k" for j
      using that r(6) True by (cases j) (simp_all add: time_after_def)
    then show ?thesis
      by (intro exI [of _ "Suc k"] exI [of _ l']) (use r step in \<open>simp add: ts\<close>)
  next
    case False
    then have "run_timers fuel now l = Some (Inr l)"
      using Cons.prems(2) by (simp add: f run_timer_def ts)
    with False Cons.prems(2) show ?thesis
      by (intro exI [of _ 0] exI [of _ l]) (simp add: ts time_after_def)
  qed
qed

section \<open>Setting timers\<close>

fun set_timers :: "clock \<Rightarrow> timer list \<Rightarrow> event_loop \<Rightarrow> event_loop res" where
  "set_timers now [] l = Inr l"
| "set_timers now (t # ts) l = bindE (set_timer now t l) (set_timers now ts)"

text \<open>The timers as they are started, each with a reading of the clock of its own, from the \<open>k\<close>-th on.\<close>

fun armed :: "clock \<Rightarrow> nat \<Rightarrow> timer list \<Rightarrow> timer list res" where
  "armed now k [] = Inr []"
| "armed now k (t # ts) =
     bindE (timer_start (narrow32 (get_ms_time now k)) t) (\<lambda>u.
     bindE (armed now (Suc k) ts) (\<lambda>us. Inr (u # us)))"

lemma heap_push_sorted: "sorted (map get_expiry ts) \<Longrightarrow> sorted (map get_expiry (heap_push t ts))"
  using sorted_insort_key [of m_clamped_timeout t ts] by (simp add: heap_push_def get_expiry_def [abs_def])

lemma heap_push_mset: "mset (heap_push t ts) = add_mset t (mset ts)"
  by (simp add: heap_push_def)

lemma set_timers_armed:
  assumes "armed now (clock_reads l) ts = Inr us" "sorted (map get_expiry (m_timers l))"
  shows "\<exists>l'. set_timers now ts l = Inr l' \<and> mset (m_timers l') = mset us + mset (m_timers l) \<and>
    sorted (map get_expiry (m_timers l')) \<and> clock_reads l' = clock_reads l + length ts \<and> actions l' = actions l"
  using assms
proof (induction ts arbitrary: l us)
  case (Cons t ts)
  obtain u vs where u: "timer_start (narrow32 (get_ms_time now (clock_reads l))) t = Inr u"
    "armed now (Suc (clock_reads l)) ts = Inr vs" "us = u # vs" using Cons.prems(1) by auto
  let ?l = "(snd (update_time now l))\<lparr>m_timers := heap_push u (m_timers l)\<rparr>"
  have "set_timer now t l = Inr ?l" using u(1) by (simp add: set_timer_def case_prod_beta)
  moreover obtain l' where "set_timers now ts ?l = Inr l'" "mset (m_timers l') = mset vs + mset (m_timers ?l)"
    "sorted (map get_expiry (m_timers l'))" "clock_reads l' = clock_reads ?l + length ts" "actions l' = actions ?l"
    using Cons.IH [of ?l vs] u(2) heap_push_sorted [OF Cons.prems(2)] by auto
  ultimately show ?case using u(3) by (simp add: heap_push_mset)
qed simp

lemma armed_one_shot: "armed now k ts = Inr us \<Longrightarrow> list_all one_shot us = list_all one_shot ts"
proof (induction ts arbitrary: k us)
  case (Cons t ts)
  then show ?case by (auto simp: timer_start_def Let_def one_shot_def)
qed simp

lemma armed_length: "armed now k ts = Inr us \<Longrightarrow> length us = length ts"
  by (induction ts arbitrary: k us) auto

lemma armed_range:
  "armed now k ts = Inr us \<Longrightarrow> u \<in> set us \<Longrightarrow> - int_max - 1 \<le> get_expiry u \<and> get_expiry u \<le> int_max"
proof (induction ts arbitrary: k us)
  case (Cons t ts)
  then show ?case using narrow32_range by (auto simp: timer_start_def Let_def get_expiry_def)
qed simp

lemma usize_negative: "- int_max - 1 \<le> x \<Longrightarrow> x < 0 \<Longrightarrow> usize x = x + 2 ^ 64"
proof -
  assume x: "- int_max - 1 \<le> x" "x < 0"
  have "usize x = (x + 2 ^ 64) mod 2 ^ 64" by (simp add: usize_def)
  also have "\<dots> = x + 2 ^ 64" using x by (intro mod_pos_pos_trivial) simp_all
  finally show ?thesis .
qed

lemma usize_same_sign:
  assumes "0 \<le> a \<longleftrightarrow> 0 \<le> b" "a \<le> b" "- int_max - 1 \<le> a" "b \<le> int_max"
  shows "usize a \<le> usize b"
proof (cases "0 \<le> a")
  case False
  with assms show ?thesis using usize_negative [of a] usize_negative [of b] by simp
qed (use assms in \<open>simp add: usize_id\<close>)

text \<open>C29: One-shot timers set in any order on a new loop, with any clock: the heap holds them, each
  with the expiry of its own setting, in the order of their expiry; the turn of \<open>run\<close> that follows runs a
  prefix of that order, once each, and keeps the rest. The next one runs exactly as long as its expiry has
  been reached by the loop's time, which is read anew after every callback. When those readings do not go
  back in that turn and no expiry lies beyond a change of sign of the narrowed milliseconds, the timers
  run are those due at the end of the turn and those kept are due later.\<close>

theorem run_timers_due:
  assumes "armed now 0 ts = Inr us" "list_all one_shot ts"
  shows "\<exists>l heap k l'. set_timers now ts event_loop_new = Inr l \<and> m_timers l = heap \<and>
    mset heap = mset us \<and> sorted (map get_expiry heap) \<and>
    run_timers (Suc (length ts)) now (snd (update_time now l)) = Some (Inr l') \<and> k \<le> length ts \<and>
    m_timers l' = drop k heap \<and> actions l' = map run_of (take k heap) \<and>
    m_time l' = Some (get_ms_time now (length ts + k)) \<and>
    (\<forall>j < k. usize (get_expiry (heap ! j)) \<le> get_ms_time now (length ts + j)) \<and>
    (k < length ts \<longrightarrow> get_ms_time now (length ts + k) < usize (get_expiry (heap ! k))) \<and>
    ((\<forall>j < k. get_ms_time now (length ts + j) \<le> get_ms_time now (length ts + k)) \<and>
     (\<forall>u \<in> set us. \<forall>v \<in> set us. 0 \<le> get_expiry u \<longleftrightarrow> 0 \<le> get_expiry v) \<longrightarrow>
       (\<forall>u \<in> set (take k heap). usize (get_expiry u) \<le> get_ms_time now (length ts + k)) \<and>
       (\<forall>u \<in> set (drop k heap). get_ms_time now (length ts + k) < usize (get_expiry u)))"
proof -
  obtain l where l: "set_timers now ts event_loop_new = Inr l" "mset (m_timers l) = mset us"
    "sorted (map get_expiry (m_timers l))" "clock_reads l = length ts" "actions l = []"
    using set_timers_armed [of now event_loop_new ts us] assms(1) by (auto simp: event_loop_new_def)
  let ?heap = "m_timers l" and ?l = "snd (update_time now l)" and ?T = "\<lambda>j. get_ms_time now (length ts + j)"
  have set: "set ?heap = set us" "length ?heap = length ts"
    using mset_eq_setD [OF l(2)] mset_eq_length [OF l(2)] armed_length [OF assms(1)] by simp_all
  have "list_all one_shot ?heap" using set(1) armed_one_shot [OF assms(1)] assms(2) by (simp add: list_all_iff)
  moreover have time: "time_after now ?l (?T 0) j = ?T j" for j using l(4) by (simp add: time_after_def)
  ultimately obtain k l' where r: "run_timers (Suc (length ts)) now ?l = Some (Inr l')" "k \<le> length ts"
    "m_time l' = Some (?T k)" "m_timers l' = drop k ?heap" "actions l' = map run_of (take k ?heap)"
    "\<forall>j < k. usize (get_expiry (?heap ! j)) \<le> ?T j" "k < length ts \<longrightarrow> ?T k < usize (get_expiry (?heap ! k))"
    using run_timers_prefix [of ?l "?T 0" "Suc (length ts)" now] l(4,5) set(2) by (auto simp: time)
  have due: "usize (get_expiry u) \<le> ?T k" if "\<forall>j < k. ?T j \<le> ?T k" "u \<in> set (take k ?heap)" for u
  proof -
    obtain j where "j < k" "u = ?heap ! j" using \<open>u \<in> set (take k ?heap)\<close> by (auto simp: in_set_conv_nth)
    then show ?thesis using r(6) \<open>\<forall>j < k. ?T j \<le> ?T k\<close> by fastforce
  qed
  have later: "?T k < usize (get_expiry u)"
    if "\<forall>u \<in> set us. \<forall>v \<in> set us. 0 \<le> get_expiry u \<longleftrightarrow> 0 \<le> get_expiry v" "u \<in> set (drop k ?heap)" for u
  proof -
    note u = that
    obtain j where "j < length (drop k ?heap)" "drop k ?heap ! j = u" using u(2) in_set_conv_nth by metis
    then have j: "k + j < length ts" "u = ?heap ! (k + j)" using set(2) r(2) by auto
    have "get_expiry (?heap ! k) \<le> get_expiry u"
      using sorted_nth_mono [OF l(3), of k "k + j"] j set(2) by simp
    moreover have v: "?heap ! k \<in> set us" "u \<in> set us" using j set nth_mem [of k ?heap] nth_mem [of "k + j" ?heap] by auto
    ultimately have "usize (get_expiry (?heap ! k)) \<le> usize (get_expiry u)"
      using u(1) armed_range [OF assms(1) v(1)] armed_range [OF assms(1) v(2)] usize_same_sign by blast
    then show ?thesis using r(7) j(1) by simp
  qed
  show ?thesis
  proof (rule exI [of _ l], rule exI [of _ ?heap], rule exI [of _ k], rule exI [of _ l'], intro conjI impI)
    assume a: "(\<forall>j < k. ?T j \<le> ?T k) \<and> (\<forall>u \<in> set us. \<forall>v \<in> set us. 0 \<le> get_expiry u \<longleftrightarrow> 0 \<le> get_expiry v)"
    show "\<forall>u \<in> set (take k ?heap). usize (get_expiry u) \<le> ?T k" using due [OF conjunct1 [OF a]] by blast
    show "\<forall>u \<in> set (drop k ?heap). ?T k < usize (get_expiry u)" using later [OF conjunct2 [OF a]] by blast
  qed (use l r in blast)+
qed

definition sample_timer :: "int \<Rightarrow> nat \<Rightarrow> timer" where
  "sample_timer expiry arg = (timer_new 5 (Some 1) arg)\<lparr>m_clamped_timeout := expiry\<rparr>"

definition sample_loop :: event_loop where
  "sample_loop = event_loop_new\<lparr>m_timers := [sample_timer 3 7, sample_timer 30 8], m_time := Some 4\<rparr>"

text \<open>
  A clock in November 2023, whose milliseconds are negative once narrowed, and two timers set in the
  wrong order.
\<close>

definition sample_clock :: clock where
  "sample_clock k = Some (1700000000000 + 10 * int k)"

definition sample_timers :: "timer list" where
  "sample_timers = [timer_new 500 (Some 1) 8, timer_new 3 (Some 1) 7]"

lemma sample_times:
  "narrow32 (get_ms_time sample_clock 0) = - 807049216" "narrow32 (get_ms_time sample_clock (Suc 0)) = - 807049206"
  by (simp_all add: get_ms_time_def sample_clock_def narrow32_def usize_def)

lemma usize_narrow: "narrow32 (usize x) = narrow32 x"
proof -
  have "(word_of_int (x mod 2 ^ 64) :: 32 word) = word_of_int x"
    by (simp add: word_of_int_eq_iff take_bit_eq_mod mod_mod_cancel)
  then show ?thesis by (simp add: narrow32_def usize_def)
qed

lemma timer_start_negative:
  assumes "- int_max - 1 \<le> now" "0 \<le> m_timeout_ms t" "m_timeout_ms t \<le> int_max" "now + m_timeout_ms t < 0"
  shows "timer_start now t = Inr (t\<lparr>m_clamped_timeout := now + m_timeout_ms t\<rparr>)"
proof -
  have "usize (now + m_timeout_ms t) = now + m_timeout_ms t + 2 ^ 64" "usize (m_timeout_ms t) = m_timeout_ms t"
    using assms by (simp_all add: usize_negative usize_id)
  moreover have "narrow32 (usize (now + m_timeout_ms t)) = now + m_timeout_ms t"
    using assms by (simp add: usize_narrow narrow32_id)
  ultimately show ?thesis using assms by (simp add: timer_start_def i32_def Let_def)
qed

lemma sample_armed:
  "armed sample_clock 0 sample_timers =
     Inr [(timer_new 500 (Some 1) 8)\<lparr>m_clamped_timeout := - 807048716\<rparr>,
          (timer_new 3 (Some 1) 7)\<lparr>m_clamped_timeout := - 807049203\<rparr>]"
  by (simp add: sample_timers_def sample_times timer_start_negative timer_new_def)

theorem run_timers_due_witness:
  "\<exists>l l'. set_timers sample_clock sample_timers event_loop_new = Inr l \<and>
     sorted (map get_expiry (m_timers l)) \<and>
     run_timers 3 sample_clock (snd (update_time sample_clock l)) = Some (Inr l') \<and>
     (\<exists>k. actions l' = map run_of (take k (m_timers l)) \<and> m_timers l' = drop k (m_timers l))"
proof -
  have "list_all one_shot sample_timers" by (simp add: sample_timers_def one_shot_def timer_new_def)
  note due = run_timers_due [OF sample_armed this]
  have n: "Suc (length sample_timers) = 3" by (simp add: sample_timers_def)
  from due show ?thesis unfolding n by blast
qed

section \<open>Repeating timers\<close>

definition runs_left :: "timer list \<Rightarrow> nat" where
  "runs_left ts = sum_list (map (\<lambda>t. nat (m_repeat t) + 1) ts)"

lemma runs_left_Cons: "runs_left (t # ts) = nat (m_repeat t) + 1 + runs_left ts"
  by (simp add: runs_left_def)

lemma runs_left_push [simp]: "runs_left (heap_push t ts) = nat (m_repeat t) + 1 + runs_left ts"
  by (induction ts) (auto simp: runs_left_def heap_push_def)

lemma run_timer_progress:
  assumes "run_timer now l = Inr (True, l')"
  shows "runs_left (m_timers l') < runs_left (m_timers l)"
proof -
  obtain t ts where ts: "m_timers l = t # ts" using assms by (cases "m_timers l") (auto simp: run_timer_def)
  show ?thesis
    using assms
    by (auto simp: run_timer_def ts Let_def case_prod_beta timer_repeat_def timer_start_def runs_left_Cons
        split: option.splits if_splits)
qed

text \<open>C30: \<open>run_timers\<close> ends, with repeating timers too, whatever the clock says: after at most the sum of
  the runs its timers have left.\<close>

theorem run_timers_terminates:
  assumes "runs_left (m_timers l) < fuel"
  shows "run_timers fuel now l \<noteq> None"
  using assms
proof (induction fuel arbitrary: l)
  case (Suc fuel)
  show ?case
  proof (cases "run_timer now l")
    case (Inr r)
    obtain b l' where r: "r = (b, l')" by (cases r)
    show ?thesis
    proof (cases b)
      case True
      then have "runs_left (m_timers l') < fuel" using run_timer_progress [of now l l'] Inr r Suc.prems by simp
      with Suc.IH Inr r True show ?thesis by simp
    qed (simp add: Inr r)
  qed simp
qed simp

theorem run_timers_terminates_witness: "run_timers 3 (\<lambda>k. Some 5) sample_loop \<noteq> None"
  by (rule run_timers_terminates) (simp add: sample_loop_def runs_left_def sample_timer_def timer_new_def)

section \<open>Writing\<close>

text \<open>C40: When the kernel takes only \<open>k\<close> bytes of a queued write, the whole write stays at the front of
  the queue, and a second one is appended at an offset that is the number of ready descriptors: the
  \<open>k\<close> bytes are sent again later, and others twice.\<close>

theorem blocked_flush_repeats:
  assumes "mem_get mem off n = Inr bytes"
  shows "flush_queue n_ready sock ((mem, off, n) # q) (map Moved ks @ Again # as) =
    Some (Inr (((mem, off, n) # q) @ [(mem, off + n_ready, n - n_ready)], [Sent sock (take (sum_list ks) bytes)]))"
  using assms tcp_send_moved(1) [of 0 ks as] by simp

theorem blocked_flush_repeats_witness:
  "flush_queue 1 9 [([65, 66, 67, 68], 0, 4)] [Moved 3, Again] =
    Some (Inr ([([65, 66, 67, 68], 0, 4), ([65, 66, 67, 68], 1, 3)], [Sent 9 [65, 66, 67]]))"
proof -
  have "mem_get [65, 66, 67, 68 :: byte] 0 4 = Inr [65, 66, 67, 68]" by (simp add: mem_get_def)
  from blocked_flush_repeats [OF this, of 1 9 "[]" "[3]" "[]"] show ?thesis by simp
qed

text \<open>No operation gives \<open>io_events\<close> a value, so it is 0 in every entry.\<close>

definition events_unset :: "event_loop \<Rightarrow> bool" where
  "events_unset l = (\<forall>fd io. m_iomap l fd = Some io \<longrightarrow> io_events io = 0)"

lemma events_unset_new: "events_unset event_loop_new"
  by (simp add: events_unset_def event_loop_new_def)

lemma events_unset_ops:
  assumes "events_unset l"
  shows "set_socket fd_of sock cb l = Inr l' \<Longrightarrow> events_unset l'" "events_unset (remove_socket fd_of sock l)"
    "events_unset (async_read fd_of sock buff l)" "events_unset (event_ctl fd_of present sock ev l)"
  using assms
  by (auto simp: events_unset_def set_socket_def remove_socket_def async_read_def event_ctl_def Let_def
      split: option.splits if_splits)

text \<open>A write that blocks registers the socket for output only: the interest in its input, which
  \<open>io_events\<close> never records, is replaced. The unsent rest is queued.\<close>

theorem blocked_write_stops_reading:
  assumes "events_unset l" "m_iomap l (fd_of sock) = Some io" "n \<noteq> 0"
  shows "async_write fd_of True (map Moved ks @ Again # as) sock (Some mem) n l =
    Some (Inr (l\<lparr>m_iomap := (m_iomap l)(fd_of sock \<mapsto>
        io\<lparr>io_write_queue := io_write_queue io @ [(mem, int (sum_list ks), n - int (sum_list ks))]\<rparr>),
      actions := actions l @ [Sent sock (take (sum_list ks) mem), Ctl_add (fd_of sock) (EPOLLOUT OR EPOLLET),
        Ctl_mod (fd_of sock) (EPOLLOUT OR EPOLLET)]\<rparr>))"
proof -
  have "io_events io = 0" using assms(1,2) by (simp add: events_unset_def)
  then show ?thesis
    using assms(2,3) tcp_send_moved(1) [of 0 ks as]
    by (simp add: async_write_def Let_def get_sock_events_def event_ctl_def log_action_def)
qed

theorem blocked_write_stops_reading_witness:
  "async_write int True [Moved 2, Again] 5 (Some [65, 66, 67]) 3
      (event_loop_new\<lparr>m_iomap := [5 \<mapsto> \<lparr>io_sock = Some 5, io_read_cb = Some 1, io_buff = [], io_write_queue = [],
        io_events = 0\<rparr>]\<rparr>) =
    Some (Inr (event_loop_new\<lparr>m_iomap := [5 \<mapsto> \<lparr>io_sock = Some 5, io_read_cb = Some 1, io_buff = [],
        io_write_queue = [([65, 66, 67], 2, 1)], io_events = 0\<rparr>],
      actions := [Sent 5 [65, 66], Ctl_add 5 (EPOLLOUT OR EPOLLET), Ctl_mod 5 (EPOLLOUT OR EPOLLET)]\<rparr>))"
proof -
  let ?io = "\<lparr>io_sock = Some 5, io_read_cb = Some 1, io_buff = [], io_write_queue = [], io_events = 0\<rparr>"
  have "events_unset (event_loop_new\<lparr>m_iomap := [5 \<mapsto> ?io]\<rparr>)" by (simp add: events_unset_def)
  from blocked_write_stops_reading [OF this, of int 5 ?io 3 "[2]" "[]" "[65, 66, 67]"] show ?thesis
    by (simp add: event_loop_new_def)
qed

section \<open>The loop\<close>

lemma run_timers_count: "run_timers fuel now l = Some (Inr l') \<Longrightarrow> m_sock_count l' = m_sock_count l"
proof (induction fuel arbitrary: l)
  case (Suc fuel)
  have one: "m_sock_count m = m_sock_count l" if "run_timer now l = Inr (b, m)" for b m
    using that by (auto simp: run_timer_def Let_def case_prod_beta split: list.splits option.splits if_splits)
  from Suc.prems obtain b m where r: "run_timer now l = Inr (b, m)" by (auto split: sum.splits)
  with Suc.prems Suc.IH [of m] one [OF r] show ?case by (auto split: if_splits)
qed simp

lemma poll_in_count: "poll_in ev l = Some (Inr l') \<Longrightarrow> m_sock_count l' = m_sock_count l"
  by (auto simp: poll_in_def split: option.splits sum.splits)

lemma event_ctl_count [simp]: "m_sock_count (event_ctl fd_of present sock ev l) = m_sock_count l"
  by (simp add: event_ctl_def Let_def)

lemma poll_out_count: "poll_out fd_of n ev l = Some (Inr l') \<Longrightarrow> m_sock_count l' = m_sock_count l"
  by (auto simp: poll_out_def Let_def split: option.splits sum.splits if_splits)

lemma poll_event_count: "poll_event fd_of n ev l = Some (Inr l') \<Longrightarrow> m_sock_count l' = m_sock_count l"
  by (auto simp: poll_event_def split: option.splits sum.splits if_splits dest!: poll_in_count poll_out_count)

lemma poll_events_count: "poll_events fd_of n evs l = Some (Inr l') \<Longrightarrow> m_sock_count l' = m_sock_count l"
proof (induction evs arbitrary: l)
  case (Cons ev evs)
  then obtain m where "poll_event fd_of n ev l = Some (Inr m)" "poll_events fd_of n evs m = Some (Inr l')"
    by (auto split: option.splits sum.splits)
  with Cons.IH poll_event_count show ?case by fastforce
qed simp

lemma poll_io_count: "poll_io fd_of answer l = Some (Inr l') \<Longrightarrow> m_sock_count l' = m_sock_count l"
  by (auto simp: poll_io_def split: if_splits option.splits dest: poll_events_count)

text \<open>A loop that has ever been given a socket never returns normally, also when every socket has
  been removed: the count its condition reads is only incremented.\<close>

theorem loop_never_returns:
  assumes "0 < m_sock_count l"
  shows "run_loop fuel fd_of now answers (remove_socket fd_of sock l) \<noteq> Some (Inr l')"
proof -
  have "run_loop fuel fd_of now answers m \<noteq> Some (Inr l')" if "0 < m_sock_count m" for m
    using that
  proof (induction answers arbitrary: m)
    case (Cons answer answers)
    show ?case
    proof
      assume "run_loop fuel fd_of now (answer # answers) m = Some (Inr l')"
      with Cons.prems obtain p q where "poll_io fd_of answer m = Some (Inr p)"
        "run_timers fuel now (snd (update_time now p)) = Some (Inr q)"
        "run_loop fuel fd_of now answers q = Some (Inr l')"
        by (subst (asm) run_loop.simps) (auto split: option.splits sum.splits if_splits)
      with Cons.IH [of q] Cons.prems poll_io_count run_timers_count show False by fastforce
    qed
  qed (subst run_loop.simps, simp)
  then show ?thesis using assms by (simp add: remove_socket_def)
qed

theorem loop_never_returns_witness:
  "run_loop 3 int (\<lambda>k. Some 5) [Some []] (remove_socket int 5 (event_loop_new\<lparr>m_sock_count := 1\<rparr>)) \<noteq> Some (Inr event_loop_new)"
  by (rule loop_never_returns) simp

end
