(* ===== verification/Memory.thy ===== *)
theory Memory
  imports Prelude
begin

text \<open>
  The heap of \<open>malloc\<close> and \<open>free\<close>: blocks under addresses that are never given out twice, so that
  a pointer to a released block stays distinguishable from every other pointer. A null pointer is
  \<open>None\<close>. Reading, writing or releasing a block that is not live is undefined; releasing a null
  pointer does nothing. The content of a block is left open: cells, or the structures of libuv.

  \<open>change\<close> says what a call may do to the heap: the blocks it writes, releases and adds.
\<close>

section \<open>Operations\<close>

record 'b heap =
  next_block :: nat
  live :: "nat \<Rightarrow> 'b option"

definition heap_empty :: "'b heap" where
  "heap_empty = \<lparr>next_block = 0, live = (\<lambda>_. None)\<rparr>"

definition malloc :: "'b \<Rightarrow> 'b heap \<Rightarrow> nat \<times> 'b heap" where
  "malloc b h =
     (next_block h, h\<lparr>next_block := Suc (next_block h), live := (live h)(next_block h \<mapsto> b)\<rparr>)"

definition load :: "nat option \<Rightarrow> 'b heap \<Rightarrow> 'b res" where
  "load p h =
     (case p of
        None \<Rightarrow> Inl Undefined
      | Some a \<Rightarrow> (case live h a of None \<Rightarrow> Inl Undefined | Some b \<Rightarrow> Inr b))"

definition store :: "nat option \<Rightarrow> 'b \<Rightarrow> 'b heap \<Rightarrow> 'b heap res" where
  "store p b h = bindE (load p h) (\<lambda>_. Inr (h\<lparr>live := (live h)(the p \<mapsto> b)\<rparr>))"

definition release :: "nat option \<Rightarrow> 'b heap \<Rightarrow> 'b heap res" where
  "release p h =
     (case p of
        None \<Rightarrow> Inr h
      | Some a \<Rightarrow> bindE (load p h) (\<lambda>_. Inr (h\<lparr>live := (live h)(a := None)\<rparr>)))"

text \<open>\<open>memcpy\<close> of the first \<open>n\<close> cells of a block to the start of another; the blocks must differ.\<close>

definition memcpy :: "nat option \<Rightarrow> nat option \<Rightarrow> int \<Rightarrow> 'c list heap \<Rightarrow> 'c list heap res" where
  "memcpy dst src n h =
     bindE (ensure (dst \<noteq> src)) (\<lambda>_.
     bindE (load src h) (\<lambda>s.
     bindE (mem_get s 0 n) (\<lambda>cs.
     bindE (load dst h) (\<lambda>d.
     bindE (mem_put d 0 cs) (\<lambda>d'. store dst d' h)))))"

section \<open>Changes of the heap\<close>

definition heap_ok :: "'b heap \<Rightarrow> bool" where
  "heap_ok h = (\<forall>a. live h a \<noteq> None \<longrightarrow> a < next_block h)"

text \<open>A call that writes the blocks \<open>W\<close>, releases \<open>F\<close> and adds \<open>N\<close>.\<close>

definition change :: "nat set \<Rightarrow> nat set \<Rightarrow> nat set \<Rightarrow> 'b heap \<Rightarrow> 'b heap \<Rightarrow> bool" where
  "change W F N h h' =
     (heap_ok h' \<and> next_block h \<le> next_block h' \<and> N \<subseteq> {next_block h..} \<and>
      (\<forall>a. a < next_block h \<and> a \<notin> W \<union> F \<longrightarrow> live h' a = live h a) \<and>
      dom (live h') = dom (live h) - F \<union> N)"

named_theorems heap_simps \<open>calls of malloc and free\<close>

lemma heap_ok_empty [simp]: "heap_ok heap_empty"
  by (simp add: heap_ok_def heap_empty_def)

lemma heap_ok_less: "heap_ok h \<Longrightarrow> a \<in> dom (live h) \<Longrightarrow> a < next_block h"
  by (auto simp: heap_ok_def)

lemma heap_ok_live: "heap_ok h \<Longrightarrow> live h a = Some b \<Longrightarrow> a < next_block h"
  by (auto simp: heap_ok_def)

lemma finite_live: "heap_ok h \<Longrightarrow> finite (dom (live h))"
  by (rule finite_subset [of _ "{..<next_block h}"]) (auto dest: heap_ok_less)

lemma load_Some [simp, heap_simps]: "load (Some a) h = Inr b \<longleftrightarrow> live h a = Some b"
  by (simp add: load_def split: option.splits)

lemma load_None [simp, heap_simps]: "load None h = Inl Undefined"
  by (simp add: load_def)

lemma load_dead [heap_simps]: "live h a = None \<Longrightarrow> load (Some a) h = Inl Undefined"
  by (simp add: load_def)

lemma load_live [heap_simps]: "live h a = Some b \<Longrightarrow> load (Some a) h = Inr b"
  by simp

lemma release_None [simp, heap_simps]: "release None h = Inr h"
  by (simp add: release_def)

lemma release_live [heap_simps]:
  "live h a = Some b \<Longrightarrow> release (Some a) h = Inr (h\<lparr>live := (live h)(a := None)\<rparr>)"
  by (simp add: release_def load_live)

lemma release_dead [heap_simps]: "live h a = None \<Longrightarrow> release (Some a) h = Inl Undefined"
  by (simp add: release_def load_dead)

lemma store_live [heap_simps]:
  "live h a = Some b \<Longrightarrow> store (Some a) b' h = Inr (h\<lparr>live := (live h)(a \<mapsto> b')\<rparr>)"
  by (simp add: store_def load_live)

lemma change_refl: "heap_ok h \<Longrightarrow> change {} {} {} h h"
  by (simp add: change_def)

lemma change_malloc:
  "heap_ok h \<Longrightarrow> malloc b h = (a, h') \<Longrightarrow> change {} {} {a} h h' \<and> live h' a = Some b \<and> a = next_block h"
  by (auto simp: malloc_def change_def heap_ok_def less_SucI split: if_splits)

lemma change_fresh:
  assumes "heap_ok h"
  shows "change {} {} {next_block h} h
    (h\<lparr>next_block := Suc (next_block h), live := (live h)(next_block h \<mapsto> b)\<rparr>)"
  using change_malloc [OF assms, of b] by (simp add: malloc_def)

lemma change_store:
  "heap_ok h \<Longrightarrow> live h a = Some b \<Longrightarrow> store (Some a) b' h = Inr h' \<Longrightarrow>
   change {a} {} {} h h' \<and> live h' a = Some b'"
  by (auto simp: change_def store_live heap_ok_def split: if_splits)

lemma change_release:
  "heap_ok h \<Longrightarrow> live h a = Some b \<Longrightarrow> \<exists>h'. release (Some a) h = Inr h' \<and> change {} {a} {} h h'"
  by (auto simp: change_def release_live heap_ok_def split: if_splits)

lemma change_dead: "change W F N h h' \<Longrightarrow> live h a = None \<Longrightarrow> a < next_block h \<Longrightarrow> live h' a = None"
proof -
  assume "change W F N h h'" "live h a = None" "a < next_block h"
  then have "a \<notin> dom (live h')" by (auto simp: change_def simp del: domIff)
  then show ?thesis by (simp add: domIff)
qed

lemma change_trans:
  assumes "change W F N h h1" "change W' F' N' h1 h2"
  shows "change (W \<union> W') (F \<union> F') (N - F' \<union> N') h h2"
  using assms unfolding change_def by auto

text \<open>A fresh block that receives a copy.\<close>

lemma memcpy_fresh:
  assumes "heap_ok h" "malloc (replicate (nat n) x) h = (a, h1)" "live h s = Some cs" "0 \<le> n" "n \<le> int (length cs)"
  shows "\<exists>h'. memcpy (Some a) (Some s) n h1 = Inr h' \<and> change {} {} {a} h h' \<and> live h' a = Some (take (nat n) cs)"
proof -
  have "s < next_block h" using assms(1,3) by (auto simp: heap_ok_def)
  then have live: "live h1 s = Some cs" "live h1 a = Some (replicate (nat n) x)" "a \<noteq> s" "heap_ok h1"
    using assms(1,2,3) by (auto simp: malloc_def heap_ok_def less_SucI split: if_splits)
  let ?h' = "h1\<lparr>live := (live h1)(a \<mapsto> take (nat n) cs)\<rparr>"
  have "length (take (nat n) cs) = nat n" using assms(4,5) by simp
  then have "memcpy (Some a) (Some s) n h1 = Inr ?h'"
    using live assms(4,5) by (simp add: memcpy_def load_live store_live mem_get_def mem_put_def)
  moreover have "change {} {} {a} h ?h'"
    using assms(1,2) by (auto simp: malloc_def change_def heap_ok_def less_SucI split: if_splits)
  ultimately show ?thesis by simp
qed

end
