(* ===== verification/Ownership.thy ===== *)
theory Ownership
  imports Memory
begin

text \<open>
  The contract of a class whose objects own a block of \<open>malloc\<close>. In most theories an object of
  such a class is the content of its block. The locale \<open>owner\<close> says when that view is sound: every
  constructor, assignment and destructor acts on the heap as it acts on the content, within the
  blocks of its objects and fresh ones. Then a program of such operations that is defined on the
  contents is defined on the heap, its objects never share a block, none is released twice or used
  after its release, and the blocks that are never released are counted.
\<close>

section \<open>Programs over the objects of a class\<close>

text \<open>
  The operations of a class over a state: the heap, or, for the view by content, the number of
  blocks that are lost.
\<close>

record ('o, 'a, 'u, 's) class_ops =
  c_construct :: "'a \<Rightarrow> 's \<Rightarrow> ('o \<times> 's) res"
  c_update :: "'u \<Rightarrow> 'o \<Rightarrow> 's \<Rightarrow> ('o \<times> 's) res"
  c_copy :: "'o \<Rightarrow> 'o \<Rightarrow> 's \<Rightarrow> ('o \<times> 's) res"
  c_move :: "'o \<Rightarrow> 'o \<Rightarrow> 's \<Rightarrow> ('o \<times> 'o \<times> 's) res"
  c_destroy :: "'o \<Rightarrow> 's \<Rightarrow> 's res"

text \<open>Objects are named by numbers; copying and moving construction is assignment to a default constructed object.\<close>

datatype ('a, 'u) statement =
    Construct nat 'a
  | Update nat 'u
  | Copy nat nat
  | Move nat nat
  | Destroy nat

definition object :: "(nat \<Rightarrow> 'o option) \<Rightarrow> nat \<Rightarrow> 'o res" where
  "object env i = (case env i of None \<Rightarrow> Inl Undefined | Some t \<Rightarrow> Inr t)"

fun exec :: "('o, 'a, 'u, 's) class_ops \<Rightarrow> ('a, 'u) statement \<Rightarrow> (nat \<Rightarrow> 'o option) \<times> 's \<Rightarrow>
    ((nat \<Rightarrow> 'o option) \<times> 's) res" where
  "exec c (Construct i x) (env, s) =
     bindE (ensure (env i = None)) (\<lambda>_.
     bindE (c_construct c x s) (\<lambda>(t, s). Inr (env(i \<mapsto> t), s)))"
| "exec c (Update i u) (env, s) =
     bindE (object env i) (\<lambda>t.
     bindE (c_update c u t s) (\<lambda>(t, s). Inr (env(i \<mapsto> t), s)))"
| "exec c (Copy i j) (env, s) =
     bindE (ensure (i \<noteq> j)) (\<lambda>_.
     bindE (object env i) (\<lambda>t.
     bindE (object env j) (\<lambda>x.
     bindE (c_copy c t x s) (\<lambda>(t, s). Inr (env(i \<mapsto> t), s)))))"
| "exec c (Move i j) (env, s) =
     bindE (ensure (i \<noteq> j)) (\<lambda>_.
     bindE (object env i) (\<lambda>t.
     bindE (object env j) (\<lambda>x.
     bindE (c_move c t x s) (\<lambda>(t, x, s). Inr (env(i \<mapsto> t, j \<mapsto> x), s)))))"
| "exec c (Destroy i) (env, s) =
     bindE (object env i) (\<lambda>t.
     bindE (c_destroy c t s) (\<lambda>s. Inr (env(i := None), s)))"

fun exec_all :: "('o, 'a, 'u, 's) class_ops \<Rightarrow> ('a, 'u) statement list \<Rightarrow> (nat \<Rightarrow> 'o option) \<times> 's \<Rightarrow>
    ((nat \<Rightarrow> 'o option) \<times> 's) res" where
  "exec_all c [] st = Inr st"
| "exec_all c (p # ps) st = bindE (exec c p st) (exec_all c ps)"

lemma object_eq [simp]: "object env i = Inr t \<longleftrightarrow> env i = Some t"
  by (simp add: object_def split: option.splits)

section \<open>Exclusive ownership\<close>

definition blocks_of :: "('o \<Rightarrow> nat set) \<Rightarrow> 'o option \<Rightarrow> nat set" where
  "blocks_of owned t = (case t of None \<Rightarrow> {} | Some t \<Rightarrow> owned t)"

lemma blocks_of_simps [simp]:
  "blocks_of owned None = {}" "blocks_of owned (Some t) = owned t"
  by (simp_all add: blocks_of_def)

text \<open>
  The objects of the heap hold the contents \<open>venv\<close> and own their blocks alone; what is live besides
  are the lost blocks \<open>L\<close>.
\<close>

definition represents ::
  "('o \<Rightarrow> nat set) \<Rightarrow> ('b heap \<Rightarrow> 'o \<Rightarrow> 'v \<Rightarrow> bool) \<Rightarrow> nat set \<Rightarrow>
   (nat \<Rightarrow> 'o option) \<times> 'b heap \<Rightarrow> (nat \<Rightarrow> 'v option) \<times> nat \<Rightarrow> bool" where
  "represents owned holds L st vst =
     (case (st, vst) of ((env, h), (venv, k)) \<Rightarrow>
        heap_ok h \<and> (\<forall>i. rel_option (holds h) (env i) (venv i)) \<and>
        (\<forall>i j. i \<noteq> j \<longrightarrow> blocks_of owned (env i) \<inter> blocks_of owned (env j) = {}) \<and>
        dom (live h) = L \<union> (\<Union>i. blocks_of owned (env i)) \<and>
        L \<inter> (\<Union>i. blocks_of owned (env i)) = {} \<and> card L = k)"

lemma lost_disjoint:
  assumes "L \<inter> (P \<union> R) = {}" "X = P - F - P'" "P' \<subseteq> P - F \<union> N" "\<And>a. a \<in> L \<union> P \<union> R \<Longrightarrow> a \<notin> N" "P \<inter> R = {}"
  shows "(L \<union> X) \<inter> (P' \<union> R) = {}"
  using assms by blast

locale owner =
  fixes ops :: "('o, 'a, 'u, 'b heap) class_ops"
    and vals :: "('v, 'a, 'u, nat) class_ops"
    and owned :: "'o \<Rightarrow> nat set"
    and holds :: "'b heap \<Rightarrow> 'o \<Rightarrow> 'v \<Rightarrow> bool"
    and frees :: bool
  assumes stable: "\<lbrakk>holds h t v; \<forall>a \<in> owned t. live h' a = live h a\<rbrakk> \<Longrightarrow> holds h' t v"
    and construct: "\<lbrakk>heap_ok h; c_construct vals y k = Inr (v, k')\<rbrakk> \<Longrightarrow>
      k' = k \<and> (\<exists>t h'. c_construct ops y h = Inr (t, h') \<and> holds h' t v \<and>
        change {} {} (owned t) h h')"
    and update: "\<lbrakk>heap_ok h; holds h t v; c_update vals u v k = Inr (v', k')\<rbrakk> \<Longrightarrow>
      k' = k \<and> (\<exists>t' h'. c_update ops u t h = Inr (t', h') \<and> holds h' t' v' \<and>
        (owned t = {} \<and> change {} {} (owned t') h h' \<or>
         owned t' = owned t \<and> change (owned t) {} {} h h'))"
    and copy: "\<lbrakk>heap_ok h; holds h t v; holds h x w; owned t \<inter> owned x = {};
       c_copy vals v w k = Inr (v', k')\<rbrakk> \<Longrightarrow>
      k' = k + card (owned t) \<and>
      (\<exists>t' h'. c_copy ops t x h = Inr (t', h') \<and> holds h' t' v' \<and> change {} {} (owned t') h h')"
    and move: "\<lbrakk>heap_ok h; holds h t v; holds h x w; owned t \<inter> owned x = {};
       c_move vals v w k = Inr (v', w', k')\<rbrakk> \<Longrightarrow>
      k' = k + (if frees then 0 else card (owned t)) \<and>
      (\<exists>t' x' h'. c_move ops t x h = Inr (t', x', h') \<and> holds h' t' v' \<and> holds h' x' w' \<and>
        owned t' = owned x \<and> owned x' = {} \<and>
        change {} (if frees then owned t else {}) {} h h')"
    and destroy: "\<lbrakk>heap_ok h; holds h t v; c_destroy vals v k = Inr k'\<rbrakk> \<Longrightarrow>
      k' = k \<and> (\<exists>h'. c_destroy ops t h = Inr h' \<and> change {} (owned t) {} h h')"
begin

text \<open>The objects \<open>I\<close> change within their blocks and fresh ones; what they give up is lost.\<close>

lemma represents_change:
  assumes rep: "represents owned holds L (env, h) (venv, k)"
    and ch: "change W F N h h'"
    and old: "\<And>i. i \<notin> I \<Longrightarrow> env' i = env i" "\<And>i. i \<notin> I \<Longrightarrow> venv' i = venv i"
    and new: "\<And>i. i \<in> I \<Longrightarrow> rel_option (holds h') (env' i) (venv' i)"
    and WF: "W \<union> F \<subseteq> (\<Union>i\<in>I. blocks_of owned (env i))"
    and B: "(\<Union>i\<in>I. blocks_of owned (env' i)) \<subseteq> ((\<Union>i\<in>I. blocks_of owned (env i)) - F) \<union> N"
      "N \<subseteq> (\<Union>i\<in>I. blocks_of owned (env' i))"
    and dis: "\<And>i j. i \<in> I \<Longrightarrow> j \<in> I \<Longrightarrow> i \<noteq> j \<Longrightarrow> blocks_of owned (env' i) \<inter> blocks_of owned (env' j) = {}"
    and X: "X = (\<Union>i\<in>I. blocks_of owned (env i)) - F - (\<Union>i\<in>I. blocks_of owned (env' i))"
    and k': "k' = k + card X"
  shows "represents owned holds (L \<union> X) (env', h') (venv', k')"
proof -
  let ?b = "\<lambda>i. blocks_of owned (env i)" and ?b' = "\<lambda>i. blocks_of owned (env' i)"
  let ?O = "\<Union>i\<in>I. ?b i" and ?O' = "\<Union>i\<in>I. ?b' i" and ?R = "\<Union>i\<in>-I. ?b i"
  from rep have r: "heap_ok h" "\<And>i. rel_option (holds h) (env i) (venv i)"
    "\<And>i j. i \<noteq> j \<Longrightarrow> ?b i \<inter> ?b j = {}" "dom (live h) = L \<union> (\<Union>i. ?b i)" "L \<inter> (\<Union>i. ?b i) = {}" "card L = k"
    by (simp_all add: represents_def)
  from ch have c: "heap_ok h'" "N \<subseteq> {next_block h..}" "\<And>a. a < next_block h \<Longrightarrow> a \<notin> W \<union> F \<Longrightarrow> live h' a = live h a"
    "dom (live h') = dom (live h) - F \<union> N"
    by (auto simp: change_def)
  have split: "(\<Union>i. f i) = (\<Union>i\<in>I. f i) \<union> (\<Union>i\<in>-I. f i)" for f :: "nat \<Rightarrow> nat set" by auto
  have R': "(\<Union>i\<in>-I. ?b' i) = ?R" using old(1) by simp
  note U = split [of ?b] split [of ?b', unfolded R']
  have OR: "?O \<inter> ?R = {}"
  proof (intro equals0I)
    fix a assume "a \<in> ?O \<inter> ?R"
    then obtain i j where "i \<in> I" "j \<notin> I" "a \<in> ?b i \<inter> ?b j" by auto
    with r(3) [of i j] show False by auto
  qed
  have low: "a < next_block h" if "a \<in> L \<union> ?O \<union> ?R" for a
    by (rule heap_ok_less [OF r(1)]) (use that r(4) U(1) in simp)
  have N: "a \<notin> N" if "a \<in> L \<union> ?O \<union> ?R" for a
    using low [OF that] c(2) by auto
  have out: "?b' i = ?b i" "?b i \<subseteq> ?R" if "i \<notin> I" for i using that old(1) by auto
  have rel: "rel_option (holds h') (env' i) (venv' i)" for i
  proof (cases "i \<in> I")
    case False
    have "live h' a = live h a" if "a \<in> ?b i" for a
    proof (rule c(3))
      show "a < next_block h" "a \<notin> W \<union> F" using that out(2) [OF False] low WF OR by auto
    qed
    with False old r(2) [of i] show ?thesis
      by (cases "env i"; cases "venv i") (auto intro: stable)
  qed (rule new)
  have excl: "?b' i \<inter> ?b' j = {}" if "i \<noteq> j" for i j
  proof -
    have "?b' i \<inter> ?b' j = {}" if "i \<in> I" "j \<notin> I" for i j
    proof -
      have "?b' i \<subseteq> ?O \<union> N" using B(1) that(1) by auto
      moreover have "?b' j \<subseteq> ?R" using out that(2) by auto
      ultimately show ?thesis using OR N by fastforce
    qed
    then show ?thesis using that r(3) [OF that] dis [of i j] out(1)
      by (cases "i \<in> I"; cases "j \<in> I") (auto simp: Int_commute)
  qed
  have "dom (live h') = L \<union> X \<union> (?O' \<union> ?R)"
    using r(4,5) c(4) U(1) X B WF OR by auto
  moreover have "(L \<union> X) \<inter> (?O' \<union> ?R) = {}"
    by (rule lost_disjoint [OF _ X B(1) N OR]) (use r(5) U(1) in simp)
  moreover have "card (L \<union> X) = k + card X"
  proof -
    have fin: "finite (dom (live h))" using r(1) by (rule finite_live)
    have "L \<subseteq> dom (live h)" "X \<subseteq> dom (live h)" "L \<inter> X = {}" using r(4,5) X U(1) by auto
    then show ?thesis using finite_subset [OF _ fin] r(6) by (simp add: card_Un_disjoint)
  qed
  ultimately show ?thesis
    using rel excl c(1) k' by (simp add: represents_def U(2))
qed

text \<open>One operation on the contents is one operation on the heap.\<close>

lemma exec_refines:
  assumes rep: "represents owned holds L st vst" and v: "exec vals p vst = Inr vst'"
  shows "\<exists>st' L'. exec ops p st = Inr st' \<and> represents owned holds L' st' vst'"
proof -
  obtain env h venv k where st: "st = (env, h)" "vst = (venv, k)" by (cases st; cases vst)
  have ok: "heap_ok h" and rel: "\<And>i. rel_option (holds h) (env i) (venv i)"
    and dis: "\<And>i j. i \<noteq> j \<Longrightarrow> blocks_of owned (env i) \<inter> blocks_of owned (env j) = {}"
    using rep by (simp_all add: represents_def st)
  have obj: "\<exists>t. env i = Some t \<and> holds h t w" if "venv i = Some w" for i w
    using rel [of i] that by (cases "env i") auto
  have none: "env i = None" if "venv i = None" for i
    using rel [of i] that by (cases "env i") auto
  note ch = represents_change [OF rep [unfolded st]]
  show ?thesis
  proof (cases p)
    case (Construct i y)
    with v st obtain w where w: "venv i = None" "c_construct vals y k = Inr (w, k)" "vst' = (venv(i \<mapsto> w), k)"
      using construct [OF ok] by fastforce
    from construct [OF ok w(2)] obtain t h' where
      t: "c_construct ops y h = Inr (t, h')" "holds h' t w" "change {} {} (owned t) h h'" by blast
    show ?thesis
      using Construct st w none t ch [OF t(3), of "{i}" "env(i \<mapsto> t)" "venv(i \<mapsto> w)" "{}" k] by auto
  next
    case (Update i u)
    with v st obtain w w' where w: "venv i = Some w" "c_update vals u w k = Inr (w', k)" "vst' = (venv(i \<mapsto> w'), k)"
      using update [OF ok] obj by fastforce
    from obj [OF w(1)] obtain t where t: "env i = Some t" "holds h t w" by blast
    from update [OF ok t(2) w(2)] obtain t' h' where
      t': "c_update ops u t h = Inr (t', h')" "holds h' t' w'"
      "owned t = {} \<and> change {} {} (owned t') h h' \<or>
       owned t' = owned t \<and> change (owned t) {} {} h h'" by blast
    from t'(3) show ?thesis
    proof
      assume "owned t = {} \<and> change {} {} (owned t') h h'"
      then show ?thesis
        using Update st w t t' ch [of "{}" "{}" "owned t'" h' "{i}" "env(i \<mapsto> t')" "venv(i \<mapsto> w')" "{}" k] by auto
    next
      assume "owned t' = owned t \<and> change (owned t) {} {} h h'"
      then show ?thesis
        using Update st w t t' ch [of "owned t" "{}" "{}" h' "{i}" "env(i \<mapsto> t')" "venv(i \<mapsto> w')" "{}" k] by auto
    qed
  next
    case (Copy i j)
    with v st obtain w x w' k' where w: "i \<noteq> j" "venv i = Some w" "venv j = Some x"
      "c_copy vals w x k = Inr (w', k')" "vst' = (venv(i \<mapsto> w'), k')"
      by auto
    from obj [OF w(2)] obj [OF w(3)] obtain t y where t: "env i = Some t" "holds h t w" "env j = Some y" "holds h y x"
      by blast
    have "owned t \<inter> owned y = {}" using dis [OF w(1)] t by simp
    from copy [OF ok t(2,4) this w(4)] obtain t' h' where
      t': "k' = k + card (owned t)" "c_copy ops t y h = Inr (t', h')" "holds h' t' w'"
      "change {} {} (owned t') h h'" by blast
    have "blocks_of owned (env i) \<subseteq> dom (live h)" using rep by (auto simp: represents_def st)
    then have "a < next_block h" if "a \<in> owned t" for a
      using heap_ok_less [OF ok, of a] that t(1) by auto
    then have "owned t \<inter> owned t' = {}"
      using t'(4) by (force simp: change_def)
    then have "represents owned holds (L \<union> owned t) (env(i \<mapsto> t'), h') (venv(i \<mapsto> w'), k')"
      by (intro ch [OF t'(4), where I = "{i}"]) (use t t' in auto)
    with Copy st w t t'(2) show ?thesis by auto
  next
    case (Move i j)
    with v st obtain w x w' x' k' where w: "i \<noteq> j" "venv i = Some w" "venv j = Some x"
      "c_move vals w x k = Inr (w', x', k')" "vst' = (venv(i \<mapsto> w', j \<mapsto> x'), k')"
      by auto
    from obj [OF w(2)] obj [OF w(3)] obtain t y where t: "env i = Some t" "holds h t w" "env j = Some y" "holds h y x"
      by blast
    have d: "owned t \<inter> owned y = {}" using dis [OF w(1)] t by simp
    let ?F = "if frees then owned t else {}"
    let ?X = "if frees then {} else owned t"
    from move [OF ok t(2,4) d w(4)] obtain t' y' h' where
      t': "k' = k + card ?X" "c_move ops t y h = Inr (t', y', h')" "holds h' t' w'" "holds h' y' x'"
      "owned t' = owned y" "owned y' = {}" "change {} ?F {} h h'" by (auto split: if_splits)
    have "represents owned holds (L \<union> ?X) (env(i \<mapsto> t', j \<mapsto> y'), h') (venv(i \<mapsto> w', j \<mapsto> x'), k')"
      by (intro ch [OF t'(7), where I = "{i, j}"]) (use t t' d w(1) in auto)
    with Move st w t t'(2) show ?thesis by auto
  next
    case (Destroy i)
    with v st obtain w k' where w: "venv i = Some w" "c_destroy vals w k = Inr k'" "vst' = (venv(i := None), k')"
      by auto
    from obj [OF w(1)] obtain t where t: "env i = Some t" "holds h t w" by blast
    from destroy [OF ok t(2) w(2)] obtain h' where
      h': "k' = k" "c_destroy ops t h = Inr h'" "change {} (owned t) {} h h'" by blast
    show ?thesis
      using Destroy st w t h' ch [OF h'(3), of "{i}" "env(i := None)" "venv(i := None)" "{}" k] by auto
  qed
qed

lemma exec_all_refines:
  "represents owned holds L st vst \<Longrightarrow> exec_all vals ps vst = Inr vst' \<Longrightarrow>
   \<exists>st' L'. exec_all ops ps st = Inr st' \<and> represents owned holds L' st' vst'"
proof (induction ps arbitrary: L st vst)
  case (Cons p ps)
  then obtain vst1 where v: "exec vals p vst = Inr vst1" "exec_all vals ps vst1 = Inr vst'" by auto
  from exec_refines [OF Cons.prems(1) v(1)] obtain st1 L1 where
    "exec ops p st = Inr st1" "represents owned holds L1 st1 vst1" by blast
  with Cons.IH v(2) show ?case by auto
qed auto

text \<open>From the empty heap on; when no object is left, what is live is lost.\<close>

lemma program_refines:
  assumes "exec_all vals ps ((\<lambda>_. None), 0) = Inr (venv, k)"
  shows "\<exists>env h. exec_all ops ps ((\<lambda>_. None), heap_empty) = Inr (env, h) \<and>
    (\<forall>i. rel_option (holds h) (env i) (venv i)) \<and>
    (\<forall>i j. i \<noteq> j \<longrightarrow> blocks_of owned (env i) \<inter> blocks_of owned (env j) = {}) \<and>
    ((\<forall>i. venv i = None) \<longrightarrow> finite (dom (live h)) \<and> card (dom (live h)) = k)"
proof -
  have "represents owned holds {} ((\<lambda>_. None), heap_empty) ((\<lambda>_. None), 0)"
    by (auto simp: represents_def heap_empty_def heap_ok_def)
  from exec_all_refines [OF this assms] obtain env h L where
    e: "exec_all ops ps ((\<lambda>_. None), heap_empty) = Inr (env, h)" "represents owned holds L (env, h) (venv, k)"
    by auto
  have "finite (dom (live h)) \<and> card (dom (live h)) = k" if "\<forall>i. venv i = None"
  proof -
    have "env i = None" for i using e(2) that by (simp add: represents_def)
    with e(2) show ?thesis using finite_live by (auto simp: represents_def)
  qed
  with e show ?thesis unfolding represents_def by auto
qed

end

end
