(* ===== verification/Owned_Objects.thy ===== *)
theory Owned_Objects
  imports Ownership Buffer Info_Hash Bitfield
begin

text \<open>
  \<open>src/buffer.cpp\<close>, \<open>src/info_hash.cpp\<close> and \<open>src/bitfield.cpp\<close> once more, with the pointers of their
  objects: the constructors, assignments and destructors over the heap. \<open>buffer\<close> and \<open>info_hash\<close>
  fulfil the contract \<open>owner\<close> of the view by content, except for assignments of an object to itself;
  copies of a \<open>bitfield\<close> share their block.
\<close>

section \<open>The digest\<close>

text \<open>\<open>m_sha1_hash\<close>; all members initialise or replace it.\<close>

type_synonym hash_obj = "nat option"

definition hash_obj_of :: "(byte list \<Rightarrow> byte list) \<Rightarrow> cell list \<Rightarrow> int \<Rightarrow> cell list heap \<Rightarrow> (hash_obj \<times> cell list heap) res" where
  "hash_obj_of sha1 src n h =
     (let (a, h) = malloc (replicate sha_digest_length None) h in
      bindE (read_bytes src 0 n) (\<lambda>bs.
      bindE (load (Some a) h) (\<lambda>d.
      bindE (mem_put d 0 (map Some (sha1 bs))) (\<lambda>d'.
      bindE (store (Some a) d' h) (\<lambda>h. Inr (Some a, h))))))"

definition hash_obj_set :: "cell list \<Rightarrow> int \<Rightarrow> hash_obj \<Rightarrow> cell list heap \<Rightarrow> (hash_obj \<times> cell list heap) res" where
  "hash_obj_set src n this h =
     (if n > int sha_digest_length then Inl Exit_failure
      else
        let (p, h) = (case this of
            Some a \<Rightarrow> (Some a, h)
          | None \<Rightarrow> (let (a, h) = malloc (replicate sha_digest_length None) h in (Some a, h))) in
        bindE (mem_get src 0 (int sha_digest_length)) (\<lambda>cs.
        bindE (load p h) (\<lambda>d.
        bindE (mem_put d 0 cs) (\<lambda>d'.
        bindE (store p d' h) (\<lambda>h. Inr (p, h))))))"

text \<open>
  Copy assignment does not release the block of \<open>this\<close>. \<open>same\<close> is that both are one object, whose
  pointer is already the new one when it is read. The copying constructor is an assignment to a
  null pointer.
\<close>

definition hash_obj_copy :: "bool \<Rightarrow> hash_obj \<Rightarrow> hash_obj \<Rightarrow> cell list heap \<Rightarrow> (hash_obj \<times> cell list heap) res" where
  "hash_obj_copy same this other h =
     (let (a, h) = malloc (replicate sha_digest_length None) h;
          other = (if same then Some a else other) in
      bindE (memcpy (Some a) other (int sha_digest_length) h) (\<lambda>h. Inr (Some a, h)))"

text \<open>Both moves: the block of \<open>this\<close> is not released either.\<close>

definition hash_obj_move :: "hash_obj \<Rightarrow> hash_obj \<Rightarrow> hash_obj \<times> hash_obj" where
  "hash_obj_move this other = (other, None)"

definition hash_obj_destroy :: "hash_obj \<Rightarrow> cell list heap \<Rightarrow> cell list heap res" where
  "hash_obj_destroy this h = release this h"

datatype hash_source = No_digest | Digest_of "byte list \<Rightarrow> byte list" "cell list" int

definition hash_class :: "(hash_obj, hash_source, cell list \<times> int, cell list heap) class_ops" where
  "hash_class =
     \<lparr>c_construct = (\<lambda>y h. case y of No_digest \<Rightarrow> Inr (None, h) | Digest_of sha1 src n \<Rightarrow> hash_obj_of sha1 src n h),
      c_update = (\<lambda>(src, n). hash_obj_set src n),
      c_copy = hash_obj_copy False,
      c_move = (\<lambda>t x h. let (t, x) = hash_obj_move t x in Inr (t, x, h)),
      c_destroy = hash_obj_destroy\<rparr>"

text \<open>
  The view by content: the definitions of \<open>Info_Hash\<close>, and the number of blocks lost by assignments
  to an object that had one. \<open>SHA1\<close> writes 20 bytes.
\<close>

definition hash_values :: "(info_hash, hash_source, cell list \<times> int, nat) class_ops" where
  "hash_values =
     \<lparr>c_construct = (\<lambda>y k. case y of
          No_digest \<Rightarrow> Inr (info_hash_default, k)
        | Digest_of sha1 src n \<Rightarrow> bindE (info_hash_of sha1 src n) (\<lambda>v.
            bindE (ensure (map_option length v = Some sha_digest_length)) (\<lambda>_. Inr (v, k)))),
      c_update = (\<lambda>(src, n) v k. bindE (hash_set src n v) (\<lambda>v. Inr (v, k))),
      c_copy = (\<lambda>v w k. bindE (hash_copy w) (\<lambda>w. Inr (w, k + (if v = None then 0 else 1)))),
      c_move = (\<lambda>v w k. let (w, w') = hash_move w in Inr (w, w', k + (if v = None then 0 else 1))),
      c_destroy = (\<lambda>v k. Inr k)\<rparr>"

definition hash_holds :: "cell list heap \<Rightarrow> hash_obj \<Rightarrow> info_hash \<Rightarrow> bool" where
  "hash_holds h p v =
     (case (p, v) of
        (None, None) \<Rightarrow> True
      | (Some a, Some bs) \<Rightarrow> live h a = Some (map Some bs) \<and> length bs = sha_digest_length
      | _ \<Rightarrow> False)"

lemma hash_holds_simps [simp]:
  "hash_holds h None v \<longleftrightarrow> v = None" "hash_holds h p None \<longleftrightarrow> p = None"
  "hash_holds h (Some a) (Some bs) \<longleftrightarrow> live h a = Some (map Some bs) \<and> length bs = sha_digest_length"
  by (auto simp: hash_holds_def split: option.splits)

lemma hash_holds_cases:
  assumes "hash_holds h p v"
  obtains (Null) "p = None" "v = None"
    | (Digest) a bs where "p = Some a" "v = Some bs" "live h a = Some (map Some bs)" "length bs = sha_digest_length"
  using assms by (cases p; cases v) auto

lemma hash_construct_law:
  assumes "heap_ok h" "c_construct hash_values y k = Inr (v, k')"
  shows "k' = k \<and> (\<exists>t h'. c_construct hash_class y h = Inr (t, h') \<and> hash_holds h' t v \<and>
    change {} {} (set_option t) h h')"
proof (cases y)
  case No_digest
  with assms(2) change_refl [OF assms(1)] show ?thesis
    by (simp add: hash_values_def hash_class_def info_hash_default_def)
next
  case y: (Digest_of f src n)
  with assms(2) obtain bs where bs: "read_bytes src 0 n = Inr bs" "v = Some (f bs)" "length (f bs) = 20" "k' = k"
    by (auto simp: hash_values_def info_hash_of_def)
  let ?h = "h\<lparr>next_block := Suc (next_block h), live := (live h)(next_block h \<mapsto> map Some (f bs))\<rparr>"
  have "hash_obj_of f src n h = Inr (Some (next_block h), ?h)"
    using bs by (simp add: hash_obj_of_def malloc_def mem_put_def store_live load_live)
  moreover have "change {} {} {next_block h} h ?h"
    by (rule change_fresh [OF assms(1)])
  ultimately show ?thesis using y bs by (simp add: hash_class_def)
qed

lemma hash_update_law:
  assumes "heap_ok h" "hash_holds h t v" "c_update hash_values u v k = Inr (v', k')"
  shows "k' = k \<and> (\<exists>t' h'. c_update hash_class u t h = Inr (t', h') \<and> hash_holds h' t' v' \<and>
    (t = None \<and> change {} {} (set_option t') h h' \<or> t' = t \<and> change (set_option t) {} {} h h'))"
proof -
  obtain src n where u: "u = (src, n)" by (cases u)
  with assms(3) obtain bs where bs: "n \<le> 20" "read_bytes src 0 20 = Inr bs" "v' = Some bs" "k' = k"
    by (auto simp: hash_values_def hash_set_def split: if_splits)
  then have get: "mem_get src 0 20 = Inr (map Some bs)" "length bs = 20"
    by (auto simp: read_bytes_def init_bytes_eq dest: length_mem_get)
  from assms(2) show ?thesis
  proof (cases rule: hash_holds_cases)
    case Null
    let ?h = "h\<lparr>next_block := Suc (next_block h), live := (live h)(next_block h \<mapsto> map Some bs)\<rparr>"
    have "hash_obj_set src n t h = Inr (Some (next_block h), ?h)"
      using Null bs get by (simp add: hash_obj_set_def malloc_def mem_put_def store_live load_live)
    moreover have "change {} {} {next_block h} h ?h"
      by (rule change_fresh [OF assms(1)])
    ultimately show ?thesis using u bs get Null by (simp add: hash_class_def)
  next
    case (Digest a old)
    let ?h = "h\<lparr>live := (live h)(a \<mapsto> map Some bs)\<rparr>"
    have "hash_obj_set src n t h = Inr (t, ?h)"
      using Digest bs get by (simp add: hash_obj_set_def mem_put_def store_live load_live)
    moreover have "change {a} {} {} h ?h"
      using change_store [OF assms(1) Digest(3), of "map Some bs"] Digest(3) by (simp add: store_live)
    ultimately show ?thesis using u bs get Digest by (simp add: hash_class_def)
  qed
qed

lemma hash_copy_law:
  assumes "heap_ok h" "hash_holds h t v" "hash_holds h x w" "c_copy hash_values v w k = Inr (v', k')"
  shows "k' = k + card (set_option t) \<and>
    (\<exists>t' h'. c_copy hash_class t x h = Inr (t', h') \<and> hash_holds h' t' v' \<and> change {} {} (set_option t') h h')"
  using assms(3)
proof (cases rule: hash_holds_cases)
  case Null
  with assms(4) show ?thesis by (simp add: hash_values_def hash_copy_def)
next
  case (Digest a bs)
  then have "v' = Some bs" "k' = k + card (set_option t)"
    using assms(2,4) by (auto simp: hash_values_def hash_copy_Some elim!: hash_holds_cases)
  moreover obtain b h1 where m: "malloc (replicate (nat 20) None) h = (b, h1)" by (simp add: malloc_def)
  from memcpy_fresh [OF assms(1) m Digest(3)] Digest(4) obtain h' where
    "memcpy (Some b) (Some a) 20 h1 = Inr h'" "change {} {} {b} h h'" "live h' b = Some (map Some bs)"
    by auto
  ultimately show ?thesis
    using Digest m by (simp add: hash_class_def hash_obj_copy_def)
qed

lemma hash_move_law:
  assumes "heap_ok h" "hash_holds h t v" "hash_holds h x w" "c_move hash_values v w k = Inr (v', w', k')"
  shows "k' = k + card (set_option t) \<and>
    (\<exists>t' x' h'. c_move hash_class t x h = Inr (t', x', h') \<and> hash_holds h' t' v' \<and> hash_holds h' x' w' \<and>
      t' = x \<and> x' = None \<and> change {} {} {} h h')"
  using assms(2-4) change_refl [OF assms(1)]
  by (auto simp: hash_values_def hash_class_def hash_move_def hash_obj_move_def elim!: hash_holds_cases)

lemma hash_destroy_law:
  assumes "heap_ok h" "hash_holds h t v"
  shows "\<exists>h'. c_destroy hash_class t h = Inr h' \<and> change {} (set_option t) {} h h'"
  using assms(2)
proof (cases rule: hash_holds_cases)
  case Null
  then show ?thesis using change_refl [OF assms(1)] by (simp add: hash_class_def hash_obj_destroy_def)
next
  case (Digest a bs)
  with change_release [OF assms(1) Digest(3)] show ?thesis by (simp add: hash_class_def hash_obj_destroy_def)
qed

interpretation hashes: owner hash_class hash_values set_option hash_holds False
proof (unfold_locales, goal_cases)
  case (1 h t v h')
  then show ?case by (cases t; cases v) auto
next
  case (2 h y k v k')
  then show ?case by (rule hash_construct_law)
next
  case (3 h t v u k v' k')
  from hash_update_law [OF 3] show ?case by fastforce
next
  case (4 h t v x w k v' k')
  then show ?case by (intro hash_copy_law)
next
  case (5 h t v x w k v' w' k')
  from hash_move_law [OF 5(1-3,5)] show ?case by fastforce
next
  case (6 h t v k k')
  then show ?case using hash_destroy_law by (simp add: hash_values_def)
qed

section \<open>The buffer\<close>

record buffer_obj =
  begin_ptr :: "nat option"
  size_of :: int

definition buffer_obj_default :: buffer_obj where
  "buffer_obj_default = \<lparr>begin_ptr = None, size_of = 0\<rparr>"

definition buffer_obj_sized :: "int \<Rightarrow> cell list heap \<Rightarrow> (buffer_obj \<times> cell list heap) res" where
  "buffer_obj_sized n h =
     bindE (assertE (n < int_max)) (\<lambda>_.
     if n = 0 then Inl Undefined
     else
       let (a, h) = malloc (replicate (nat n) None) h in
       bindE (store (Some a) (replicate (nat n) (Some 0)) h) (\<lambda>h.
       Inr (\<lparr>begin_ptr = Some a, size_of = n\<rparr>, h)))"

definition buffer_obj_from :: "int \<Rightarrow> cell list option \<Rightarrow> int \<Rightarrow> cell list heap \<Rightarrow> (buffer_obj \<times> cell list heap) res" where
  "buffer_obj_from n src src_size h =
     bindE (assertE (src_size \<le> n)) (\<lambda>_.
     let (a, h) = malloc (replicate (nat n) None) h in
     case src of
       None \<Rightarrow> Inr (\<lparr>begin_ptr = Some a, size_of = n\<rparr>, h)
     | Some s \<Rightarrow>
         bindE (mem_get s 0 (min src_size n)) (\<lambda>cs.
         bindE (load (Some a) h) (\<lambda>d.
         bindE (mem_put d 0 cs) (\<lambda>d'.
         bindE (store (Some a) d' h) (\<lambda>h. Inr (\<lparr>begin_ptr = Some a, size_of = n\<rparr>, h))))))"

definition buffer_obj_set :: "int \<Rightarrow> byte \<Rightarrow> buffer_obj \<Rightarrow> cell list heap \<Rightarrow> (buffer_obj \<times> cell list heap) res" where
  "buffer_obj_set index x b h =
     bindE (assertE (index \<le> usize (size_of b - 1))) (\<lambda>_.
     bindE (load (begin_ptr b) h) (\<lambda>d.
     bindE (mem_put d index [Some x]) (\<lambda>d'.
     bindE (store (begin_ptr b) d' h) (\<lambda>h. Inr (b, h)))))"

definition buffer_obj_copy :: "bool \<Rightarrow> buffer_obj \<Rightarrow> buffer_obj \<Rightarrow> cell list heap \<Rightarrow> (buffer_obj \<times> cell list heap) res" where
  "buffer_obj_copy same this other h =
     (if begin_ptr other \<noteq> None \<and> size_of other > 0 then
        let (a, h) = malloc (replicate (nat (size_of other)) None) h in
        bindE (memcpy (Some a) (if same then Some a else begin_ptr other) (size_of other) h) (\<lambda>h.
        Inr (\<lparr>begin_ptr = Some a, size_of = size_of other\<rparr>, h))
      else Inr (\<lparr>begin_ptr = None, size_of = 0\<rparr>, h))"

definition buffer_obj_move :: "bool \<Rightarrow> buffer_obj \<Rightarrow> buffer_obj \<Rightarrow> cell list heap \<Rightarrow> (buffer_obj \<times> buffer_obj \<times> cell list heap) res" where
  "buffer_obj_move same this other h =
     (if same then Inr (this, this, h)
      else bindE (release (begin_ptr this) h) (\<lambda>h.
        Inr (other, \<lparr>begin_ptr = None, size_of = 0\<rparr>, h)))"

definition buffer_obj_destroy :: "buffer_obj \<Rightarrow> cell list heap \<Rightarrow> cell list heap res" where
  "buffer_obj_destroy b h = (if begin_ptr b \<noteq> None then release (begin_ptr b) h else Inr h)"

text \<open>\<open>begin\<close> and \<open>end\<close>: a pointer is a block and a position in it.\<close>

definition buffer_begin :: "buffer_obj \<Rightarrow> (nat \<times> int) option" where
  "buffer_begin b = map_option (\<lambda>a. (a, 0)) (begin_ptr b)"

definition buffer_end :: "buffer_obj \<Rightarrow> (nat \<times> int) option" where
  "buffer_end b = map_option (\<lambda>a. (a, size_of b)) (begin_ptr b)"

datatype buffer_source = Null | Sized int | From int "cell list option" int

definition buffer_class :: "(buffer_obj, buffer_source, int \<times> byte, cell list heap) class_ops" where
  "buffer_class =
     \<lparr>c_construct = (\<lambda>y h. case y of Null \<Rightarrow> Inr (buffer_obj_default, h) | Sized n \<Rightarrow> buffer_obj_sized n h
        | From n src m \<Rightarrow> buffer_obj_from n src m h),
      c_update = (\<lambda>(i, x). buffer_obj_set i x),
      c_copy = buffer_obj_copy False,
      c_move = buffer_obj_move False,
      c_destroy = buffer_obj_destroy\<rparr>"

definition buffer_values :: "(buffer, buffer_source, int \<times> byte, nat) class_ops" where
  "buffer_values =
     \<lparr>c_construct = (\<lambda>y k. bindE (case y of Null \<Rightarrow> Inr buffer_default | Sized n \<Rightarrow> buffer_sized n | From n src m \<Rightarrow> buffer_from n src m)
        (\<lambda>b. Inr (b, k))),
      c_update = (\<lambda>(i, x) b k. bindE (buffer_set b i x) (\<lambda>b. Inr (b, k))),
      c_copy = (\<lambda>b other k. bindE (buffer_copy_assign b other) (\<lambda>b'.
        Inr (b', k + (if m_begin b = None then 0 else 1)))),
      c_move = (\<lambda>b other k. let (b, other) = buffer_move_assign False b other in Inr (b, other, k)),
      c_destroy = (\<lambda>b k. Inr k)\<rparr>"

definition buffer_holds :: "cell list heap \<Rightarrow> buffer_obj \<Rightarrow> buffer \<Rightarrow> bool" where
  "buffer_holds h t b =
     (size_of t = m_size b \<and>
      (case begin_ptr t of
         None \<Rightarrow> m_begin b = None
       | Some a \<Rightarrow> live h a \<noteq> None \<and> m_begin b = live h a))"

lemma buffer_holds_cases:
  assumes "buffer_holds h t b"
  obtains (Null) "t = \<lparr>begin_ptr = None, size_of = m_size b\<rparr>" "m_begin b = None"
    | (Block) a cs where "t = \<lparr>begin_ptr = Some a, size_of = m_size b\<rparr>" "m_begin b = Some cs" "live h a = Some cs"
  using assms by (cases t; cases "begin_ptr t") (auto simp: buffer_holds_def)

lemma buffer_construct_law:
  assumes "heap_ok h" "c_construct buffer_values y k = Inr (b, k')"
  shows "k' = k \<and> (\<exists>t h'. c_construct buffer_class y h = Inr (t, h') \<and> buffer_holds h' t b \<and>
    change {} {} (set_option (begin_ptr t)) h h')"
proof (cases "y = Null")
  case True
  with assms(2) change_refl [OF assms(1)] show ?thesis
    by (auto simp: buffer_values_def buffer_class_def buffer_default_def buffer_obj_default_def buffer_holds_def)
next
  case False
  let ?t = "\<lparr>begin_ptr = Some (next_block h), size_of = m_size b\<rparr>"
  let ?h = "h\<lparr>next_block := Suc (next_block h), live := (live h)(next_block h \<mapsto> the (m_begin b))\<rparr>"
  have "k' = k \<and> m_begin b \<noteq> None \<and> c_construct buffer_class y h = Inr (?t, ?h)"
  proof (cases y)
    case Null
    with False show ?thesis by simp
  next
    case (Sized n)
    with assms(2) show ?thesis
      by (auto simp: buffer_values_def buffer_class_def buffer_sized_def buffer_obj_sized_def malloc_def
          store_live split: if_splits)
  next
    case (From n src m)
    with assms(2) show ?thesis
      by (auto simp: buffer_values_def buffer_class_def buffer_from_def buffer_obj_from_def malloc_def
          store_live load_live Let_def split: option.splits)
  qed
  then show ?thesis using change_fresh [OF assms(1)] by (auto simp: buffer_holds_def)
qed

lemma buffer_update_law:
  assumes "heap_ok h" "buffer_holds h t b" "c_update buffer_values u b k = Inr (b', k')"
  shows "k' = k \<and> (\<exists>t' h'. c_update buffer_class u t h = Inr (t', h') \<and> buffer_holds h' t' b' \<and>
    begin_ptr t' = begin_ptr t \<and> change (set_option (begin_ptr t)) {} {} h h')"
  using assms(2)
proof (cases rule: buffer_holds_cases)
  case Null
  with assms(3) show ?thesis by (auto simp: buffer_values_def buffer_set_def split: prod.splits)
next
  case (Block a cs)
  obtain i x where u: "u = (i, x)" by (cases u)
  from assms(3) Block u obtain cs' where cs': "i \<le> usize (m_size b - 1)" "mem_put cs i [Some x] = Inr cs'"
    "b' = b\<lparr>m_begin := Some cs'\<rparr>" "k' = k" by (auto simp: buffer_values_def buffer_set_def)
  let ?h = "h\<lparr>live := (live h)(a \<mapsto> cs')\<rparr>"
  have "c_update buffer_class u t h = Inr (t, ?h)"
    using Block u cs' by (simp add: buffer_class_def buffer_obj_set_def load_live store_live)
  moreover have "change {a} {} {} h ?h"
    using change_store [OF assms(1) Block(3), of cs'] Block(3) by (simp add: store_live)
  ultimately show ?thesis using Block cs' by (auto simp: buffer_holds_def)
qed

lemma buffer_copy_law:
  assumes "heap_ok h" "buffer_holds h t b" "buffer_holds h x c" "c_copy buffer_values b c k = Inr (b', k')"
  shows "k' = k + card (set_option (begin_ptr t)) \<and>
    (\<exists>t' h'. c_copy buffer_class t x h = Inr (t', h') \<and> buffer_holds h' t' b' \<and>
      change {} {} (set_option (begin_ptr t')) h h')"
proof -
  have "k' = k + card (set_option (begin_ptr t))"
    using assms(2,4) by (auto simp: buffer_values_def buffer_holds_def split: option.splits)
  moreover have "\<exists>t' h'. c_copy buffer_class t x h = Inr (t', h') \<and> buffer_holds h' t' b' \<and>
      change {} {} (set_option (begin_ptr t')) h h'"
  proof (cases "m_begin c \<noteq> None \<and> 0 < m_size c")
    case False
    have "b' = b\<lparr>m_begin := None, m_size := 0\<rparr>"
      using assms(4) False by (auto simp: buffer_values_def buffer_copy_assign_def split: option.splits if_splits)
    moreover have "begin_ptr x = None \<or> \<not> 0 < size_of x"
      using False assms(3) by (auto simp: buffer_holds_def split: option.splits)
    ultimately show ?thesis
      using change_refl [OF assms(1)] by (auto simp: buffer_class_def buffer_obj_copy_def buffer_holds_def)
  next
    case True
    with assms(3) obtain a cs where x: "x = \<lparr>begin_ptr = Some a, size_of = m_size c\<rparr>" "m_begin c = Some cs" "live h a = Some cs"
      by (auto elim: buffer_holds_cases)
    with assms(4) True have b': "b' = b\<lparr>m_begin := Some (take (nat (m_size c)) cs), m_size := m_size c\<rparr>"
      "m_size c \<le> int (length cs)"
      by (auto simp: buffer_values_def buffer_copy_assign_def mem_get_def split: if_splits)
    obtain n h1 where m: "malloc (replicate (nat (m_size c)) None) h = (n, h1)" by (simp add: malloc_def)
    from memcpy_fresh [OF assms(1) m x(3)] True b'(2) obtain h' where
      "memcpy (Some n) (Some a) (m_size c) h1 = Inr h'" "change {} {} {n} h h'"
      "live h' n = Some (take (nat (m_size c)) cs)" by auto
    with x True m b' show ?thesis by (auto simp: buffer_class_def buffer_obj_copy_def buffer_holds_def)
  qed
  ultimately show ?thesis by blast
qed

lemma buffer_release:
  assumes "heap_ok h" "buffer_holds h t b"
  obtains h' where "release (begin_ptr t) h = Inr h'" "change {} (set_option (begin_ptr t)) {} h h'"
  using assms(2)
proof (cases rule: buffer_holds_cases)
  case Null
  with that change_refl [OF assms(1)] show ?thesis by simp
next
  case (Block a cs)
  with that change_release [OF assms(1) Block(3)] show ?thesis by auto
qed

lemma buffer_move_law:
  assumes "heap_ok h" "buffer_holds h t b" "buffer_holds h x c"
    "set_option (begin_ptr t) \<inter> set_option (begin_ptr x) = {}" "c_move buffer_values b c k = Inr (b', c', k')"
  shows "k' = k \<and> (\<exists>t' x' h'. c_move buffer_class t x h = Inr (t', x', h') \<and> buffer_holds h' t' b' \<and>
    buffer_holds h' x' c' \<and> begin_ptr t' = begin_ptr x \<and> begin_ptr x' = None \<and>
    change {} (set_option (begin_ptr t)) {} h h')"
proof -
  from buffer_release [OF assms(1,2)] obtain h' where
    h': "release (begin_ptr t) h = Inr h'" "change {} (set_option (begin_ptr t)) {} h h'" .
  have "live h' a = live h a" if "begin_ptr x = Some a" for a
  proof -
    have "a < next_block h" "a \<notin> set_option (begin_ptr t)"
      using that assms(1,3,4) by (auto simp: buffer_holds_def heap_ok_def)
    with h'(2) show ?thesis by (auto simp: change_def)
  qed
  with assms(3,5) h' show ?thesis
    by (auto simp: buffer_values_def buffer_class_def buffer_move_assign_def buffer_obj_move_def
        buffer_holds_def split: option.splits)
qed

interpretation buffers: owner buffer_class buffer_values "\<lambda>b. set_option (begin_ptr b)" buffer_holds True
proof (unfold_locales, goal_cases)
  case (1 h t v h')
  then show ?case by (auto simp: buffer_holds_def split: option.splits)
next
  case (2 h y k v k')
  then show ?case by (rule buffer_construct_law)
next
  case (3 h t v u k v' k')
  from buffer_update_law [OF 3] show ?case by fastforce
next
  case (4 h t v x w k v' k')
  then show ?case by (intro buffer_copy_law)
next
  case (5 h t v x w k v' w' k')
  from buffer_move_law [OF 5] show ?case by fastforce
next
  case (6 h t v k k')
  from buffer_release [OF 6(1,2)] obtain h' where
    "release (begin_ptr t) h = Inr h'" "change {} (set_option (begin_ptr t)) {} h h'" .
  with 6(3) show ?case
    by (cases "begin_ptr t") (auto simp: buffer_values_def buffer_class_def buffer_obj_destroy_def)
qed

section \<open>The bitfield\<close>

record bitfield_obj =
  bits_ptr :: "nat option"
  bits_size :: int

definition bitfield_obj_default :: bitfield_obj where
  "bitfield_obj_default = \<lparr>bits_ptr = None, bits_size = 0\<rparr>"

definition bitfield_obj_new :: "cell list \<Rightarrow> int \<Rightarrow> cell list heap \<Rightarrow> (bitfield_obj \<times> cell list heap) res" where
  "bitfield_obj_new src n h =
     bindE (assertE (n > 0)) (\<lambda>_.
     if address_space \<le> n then Inl (Throw Bad_alloc)
     else
       let (a, h) = malloc (replicate (nat n) None) h in
       bindE (mem_get src 0 n) (\<lambda>cs.
       bindE (store (Some a) cs h) (\<lambda>h. Inr (\<lparr>bits_ptr = Some a, bits_size = n\<rparr>, h))))"

text \<open>What copying \<open>m_size\<close> bytes over the members does to the pointer (see \<open>Bitfield\<close>).\<close>

definition bitfield_obj_copy :: "bitfield_obj \<Rightarrow> bitfield_obj \<Rightarrow> bitfield_obj res" where
  "bitfield_obj_copy this other =
     (let n = bits_size other; t = this\<lparr>bits_size := n\<rparr> in
      if n = 0 then Inr t
      else if 8 \<le> n \<and> n \<le> 16 then Inr (t\<lparr>bits_ptr := bits_ptr other\<rparr>)
      else Inl Undefined)"

definition bitfield_obj_move :: "bitfield_obj \<Rightarrow> bitfield_obj \<Rightarrow> bitfield_obj \<times> bitfield_obj" where
  "bitfield_obj_move this other =
     (this\<lparr>bits_ptr := bits_ptr other, bits_size := bits_size other\<rparr>,
      other\<lparr>bits_ptr := None, bits_size := 0\<rparr>)"

definition bitfield_obj_destroy :: "bitfield_obj \<Rightarrow> cell list heap \<Rightarrow> cell list heap res" where
  "bitfield_obj_destroy b h = release (bits_ptr b) h"

section \<open>Properties\<close>

text \<open>C9: every program over objects of \<open>info_hash\<close> (construction from data, \<open>set\<close>, copies and moves,
  destruction) that is defined on the digests is defined on the heap: no block is used after its
  release or released twice, the objects hold the digests in blocks of their own, and once all
  objects are destroyed exactly the blocks that were overwritten by assignments are still live.\<close>

theorem hash_objects_own_digests:
  assumes "exec_all hash_values ps ((\<lambda>_. None), 0) = Inr (digests, lost)"
  shows "\<exists>env h. exec_all hash_class ps ((\<lambda>_. None), heap_empty) = Inr (env, h) \<and>
    (\<forall>i. rel_option (hash_holds h) (env i) (digests i)) \<and>
    (\<forall>i j. i \<noteq> j \<longrightarrow> blocks_of set_option (env i) \<inter> blocks_of set_option (env j) = {}) \<and>
    ((\<forall>i. digests i = None) \<longrightarrow> finite (dom (live h)) \<and> card (dom (live h)) = lost)"
  by (rule hashes.program_refines [OF assms])

lemma moves_lose_nothing:
  "exec_all buffer_values ps (env, k) = Inr (env', k') \<Longrightarrow> \<forall>p \<in> set ps. \<forall>i j. p \<noteq> Copy i j \<Longrightarrow> k' = k"
proof (induction ps arbitrary: env k)
  case (Cons p ps)
  then obtain env1 k1 where e: "exec buffer_values p (env, k) = Inr (env1, k1)"
    "exec_all buffer_values ps (env1, k1) = Inr (env', k')" by auto
  have "k1 = k" using e(1) Cons.prems(2)
    by (cases p) (auto simp: buffer_values_def buffer_move_assign_def)
  with Cons.IH [OF e(2)] Cons.prems(2) show ?case by simp
qed simp

text \<open>C21: a program over objects of \<open>buffer\<close> without copies, as the receive buffer is one, that is
  defined on the contents is defined on the heap, with every buffer in a block of its own, and
  when the last object is destroyed no block is left.\<close>

theorem moved_buffers_leave_nothing:
  assumes "exec_all buffer_values ps ((\<lambda>_. None), 0) = Inr (contents, lost)" "\<forall>p \<in> set ps. \<forall>i j. p \<noteq> Copy i j"
  shows "\<exists>env h. exec_all buffer_class ps ((\<lambda>_. None), heap_empty) = Inr (env, h) \<and>
    (\<forall>i. rel_option (buffer_holds h) (env i) (contents i)) \<and>
    (\<forall>i j. i \<noteq> j \<longrightarrow> blocks_of (\<lambda>b. set_option (begin_ptr b)) (env i) \<inter> blocks_of (\<lambda>b. set_option (begin_ptr b)) (env j) = {}) \<and>
    ((\<forall>i. contents i = None) \<longrightarrow> live h = (\<lambda>_. None))"
proof -
  from buffers.program_refines [OF assms(1)] obtain env h where
    e: "exec_all buffer_class ps ((\<lambda>_. None), heap_empty) = Inr (env, h)"
      "\<forall>i. rel_option (buffer_holds h) (env i) (contents i)"
      "\<forall>i j. i \<noteq> j \<longrightarrow> blocks_of (\<lambda>b. set_option (begin_ptr b)) (env i) \<inter> blocks_of (\<lambda>b. set_option (begin_ptr b)) (env j) = {}"
      "(\<forall>i. contents i = None) \<longrightarrow> finite (dom (live h)) \<and> card (dom (live h)) = lost"
    by blast
  moreover have "lost = 0" using moves_lose_nothing [OF assms] .
  ultimately show ?thesis by auto
qed

text \<open>two objects of \<open>bitfield\<close> after a copy share the block of the bits, and the destructor of the
  second one releases it again.\<close>

theorem copied_bitfield_released_twice:
  assumes "bitfield_obj_new src n h = Inr (b, h1)" "bitfield_obj_copy bitfield_obj_default b = Inr c"
  shows "bits_ptr c = bits_ptr b \<and>
    bindE (bitfield_obj_destroy b h1) (bitfield_obj_destroy c) = Inl Undefined"
proof -
  from assms(1) obtain a where b: "b = \<lparr>bits_ptr = Some a, bits_size = n\<rparr>" "0 < n" "live h1 a \<noteq> None"
    by (auto simp: bitfield_obj_new_def malloc_def store_live split: if_splits)
  with assms(2) have "bits_ptr c = Some a"
    by (auto simp: bitfield_obj_copy_def Let_def split: if_splits)
  with b show ?thesis
    by (auto simp: bitfield_obj_destroy_def release_live release_dead)
qed

text \<open>An assignment of an object to itself copies the new block over itself.\<close>

lemma self_copy_undefined:
  "hash_obj_copy True p p h = Inl Undefined"
  "begin_ptr b \<noteq> None \<Longrightarrow> 0 < size_of b \<Longrightarrow> buffer_obj_copy True b b h = Inl Undefined"
  by (auto simp: hash_obj_copy_def buffer_obj_copy_def memcpy_def ensure_def malloc_def)

section \<open>Witnesses\<close>

text \<open>A digest is copied twice to the same object: one block is lost.\<close>

theorem hash_objects_own_digests_witness:
  "\<exists>env h. exec_all hash_class
       [Construct 0 No_digest, Update 0 (replicate 20 (Some 7), 20), Construct 1 No_digest, Copy 1 0, Copy 1 0, Destroy 0, Destroy 1]
       ((\<lambda>_. None), heap_empty) = Inr (env, h) \<and> card (dom (live h)) = 1"
proof -
  let ?ps = "[Construct 0 No_digest, Update 0 (replicate 20 (Some 7), 20), Construct 1 No_digest, Copy 1 0, Copy 1 0, Destroy 0, Destroy 1]"
  have "exec_all hash_values ?ps ((\<lambda>_. None), 0) = Inr ((\<lambda>_. None), 1)"
    by (simp add: hash_values_def info_hash_default_def hash_set_def read_bytes_def mem_get_def init_bytes_def
        hash_copy_def object_def fun_eq_iff)
  from hash_objects_own_digests [OF this] show ?thesis by auto
qed

text \<open>The program of \<open>grow\<close>: a new buffer with the content of the old one is moved to it.\<close>

theorem moved_buffers_leave_nothing_witness:
  "\<exists>env h. exec_all buffer_class
       [Construct 0 Null, Construct 1 (Sized 2), Move 0 1, Destroy 1, Update 0 (1, 7),
        Construct 1 (From 4 (Some [Some 0, Some 7]) 2), Move 0 1, Destroy 1, Destroy 0]
       ((\<lambda>_. None), heap_empty) = Inr (env, h) \<and> live h = (\<lambda>_. None)"
proof -
  let ?ps = "[Construct 0 Null, Construct 1 (Sized 2), Move 0 1, Destroy 1, Update 0 (1, 7),
        Construct 1 (From 4 (Some [Some 0, Some 7]) 2), Move 0 1, Destroy 1, Destroy 0]"
  have "exec_all buffer_values ?ps ((\<lambda>_. None), 0) = Inr ((\<lambda>_. None), 0)"
    by (simp add: buffer_values_def buffer_default_def buffer_sized_def buffer_move_assign_def buffer_set_def
        buffer_from_def usize_def mem_get_def mem_put_def object_def fun_eq_iff eval_nat_numeral)
  from moved_buffers_leave_nothing [OF this] show ?thesis by auto
qed

theorem copied_bitfield_released_twice_witness:
  "\<exists>b c h1. bitfield_obj_new (replicate 8 (Some 1)) 8 heap_empty = Inr (b, h1) \<and>
     bitfield_obj_copy bitfield_obj_default b = Inr c \<and>
     bindE (bitfield_obj_destroy b h1) (bitfield_obj_destroy c) = Inl Undefined"
proof -
  obtain b h1 where b: "bitfield_obj_new (replicate 8 (Some 1)) 8 heap_empty = Inr (b, h1)" "bits_size b = 8"
    by (auto simp: bitfield_obj_new_def malloc_def mem_get_def store_live)
  then obtain c where "bitfield_obj_copy bitfield_obj_default b = Inr c"
    by (auto simp: bitfield_obj_copy_def)
  with b(1) copied_bitfield_released_twice [OF b(1) this] show ?thesis by blast
qed

end
