(* ===== verification/Requests.thy ===== *)
theory Requests
  imports Ownership Fetch "HOL-Library.Multiset"
begin

text \<open>
  The requests to libuv of \<open>src/peer_connection.cpp\<close>, \<open>src/peer_connection_core.cpp\<close> and
  \<open>src/session.cpp\<close>, with their memory: a write request points to a descriptor of a buffer, which
  points to the bytes; a work request points to its arguments. Each is allocated where it is started
  and released by the callback that is registered with it. In the other theories the bytes are
  captured when a request is started.

  A request is an object of the contract \<open>owner\<close>: it is constructed when it is started, and its
  callback is the destructor. So any interleaving of starts and callbacks is sound, as long as every
  request completes at most once.
\<close>

section \<open>Structures in memory\<close>

text \<open>
  Bytes, \<open>uv_buf_t\<close>, \<open>uv_write_t\<close> and \<open>uv_work_t\<close> with their \<open>data\<close>, \<open>struct piece_write_req\<close>; a socket
  \<open>uv_tcp_t\<close> with its \<open>data\<close>, \<open>uv_connect_t\<close> with \<open>data\<close> and \<open>handle\<close>, \<open>stream_data_t\<close>.
\<close>

datatype uv_block =
    Raw "cell list"
  | Buf (buf_base: "nat option") (buf_len: int)
  | Req (req_data: "nat option")
  | Piece_write int
  | Handle "nat option"
  | Connect "nat option" nat
  | Stream_data

type_synonym uv_heap = "uv_block heap"

definition get_req :: "nat option \<Rightarrow> uv_heap \<Rightarrow> nat option res" where
  "get_req p h = bindE (load p h) (\<lambda>b. case b of Req d \<Rightarrow> Inr d | _ \<Rightarrow> Inl Undefined)"

definition get_buf :: "nat option \<Rightarrow> uv_heap \<Rightarrow> (nat option \<times> int) res" where
  "get_buf p h = bindE (load p h) (\<lambda>b. case b of Buf base n \<Rightarrow> Inr (base, n) | _ \<Rightarrow> Inl Undefined)"

definition get_raw :: "nat option \<Rightarrow> uv_heap \<Rightarrow> cell list res" where
  "get_raw p h = bindE (load p h) (\<lambda>b. case b of Raw cs \<Rightarrow> Inr cs | _ \<Rightarrow> Inl Undefined)"

text \<open>What libuv reads when it performs the write of a request.\<close>

definition bytes_of_write :: "nat option \<Rightarrow> uv_heap \<Rightarrow> byte list res" where
  "bytes_of_write req h =
     bindE (get_req req h) (\<lambda>buf.
     bindE (get_buf buf h) (\<lambda>(base, n).
     bindE (get_raw base h) (\<lambda>cs. read_bytes cs 0 n)))"

section \<open>Starting a request\<close>

text \<open>The announcement of a piece: request, descriptor, bytes.\<close>

definition have_request :: "byte list \<Rightarrow> uv_heap \<Rightarrow> (nat \<times> uv_heap) res" where
  "have_request msg h =
     (let (req, h) = malloc (Req None) h;
          (buf, h) = malloc (Buf None 0) h;
          (base, h) = malloc (Raw (replicate (length msg) None)) h in
      bindE (store (Some base) (Raw (map Some msg)) h) (\<lambda>h.
      bindE (store (Some buf) (Buf (Some base) (int (length msg))) h) (\<lambda>h.
      bindE (store (Some req) (Req (Some buf)) h) (\<lambda>h. Inr (req, h)))))"

text \<open>The handshake: descriptor, bytes, request.\<close>

definition handshake_request :: "byte list \<Rightarrow> uv_heap \<Rightarrow> (nat \<times> uv_heap) res" where
  "handshake_request msg h =
     (let (buf, h) = malloc (Buf None 0) h;
          (base, h) = malloc (Raw (replicate (length msg) None)) h in
      bindE (store (Some buf) (Buf (Some base) (int (length msg))) h) (\<lambda>h.
      bindE (store (Some base) (Raw (map Some msg)) h) (\<lambda>h.
      let (req, h) = malloc (Req None) h in
      bindE (store (Some req) (Req (Some buf)) h) (\<lambda>h. Inr (req, h)))))"

text \<open>
  The request for a block: the message is made by \<open>create_request_message\<close>, in memory that its
  \<open>shared_ptr\<close> releases at the end of the turn of the loop, after \<open>uv_write\<close>. The request is the
  one in flight.
\<close>

definition block_request :: "byte list \<Rightarrow> uv_heap \<Rightarrow> (nat \<times> uv_heap) res" where
  "block_request bs h =
     (let (msg, h) = malloc (Raw (map Some bs)) h;
          (req, h) = malloc (Req None) h;
          (buf, h) = malloc (Buf None 0) h in
      bindE (store (Some buf) (Buf (Some msg) (int (length bs))) h) (\<lambda>h.
      bindE (store (Some req) (Req (Some buf)) h) (\<lambda>h.
      bindE (release (Some msg) h) (\<lambda>h. Inr (req, h)))))"

text \<open>The write of a piece by the thread pool.\<close>

definition work_request :: "int \<Rightarrow> uv_heap \<Rightarrow> (nat \<times> uv_heap) res" where
  "work_request index h =
     (let (req, h) = malloc (Req None) h;
          (pwr, h) = malloc (Piece_write index) h in
      bindE (store (Some req) (Req (Some pwr)) h) (\<lambda>h. Inr (req, h)))"

section \<open>The callbacks\<close>

text \<open>They print a status and release; \<open>req\<close> is the request of the callback.\<close>

definition have_cb :: "nat \<Rightarrow> uv_heap \<Rightarrow> uv_heap res" where
  "have_cb req h =
     bindE (get_req (Some req) h) (\<lambda>buf.
     bindE (assertE (buf \<noteq> None)) (\<lambda>_.
     bindE (get_buf buf h) (\<lambda>(base, _).
     bindE (release base h) (\<lambda>h.
     bindE (release buf h) (\<lambda>h. release (Some req) h)))))"

definition handshake_write_cb :: "nat \<Rightarrow> uv_heap \<Rightarrow> uv_heap res" where
  "handshake_write_cb req h =
     bindE (get_req (Some req) h) (\<lambda>buff.
     bindE (assertE (buff \<noteq> None)) (\<lambda>_.
     bindE (get_buf buff h) (\<lambda>(base, _).
     bindE (release base h) (\<lambda>h.
     bindE (release buff h) (\<lambda>h. release (Some req) h)))))"

definition write_cb :: "nat \<Rightarrow> uv_heap \<Rightarrow> uv_heap res" where
  "write_cb req h =
     bindE (get_req (Some req) h) (\<lambda>buff.
     bindE (assertE (buff \<noteq> None)) (\<lambda>_.
     bindE (release buff h) (\<lambda>h. release (Some req) h)))"

definition after_work :: "nat \<Rightarrow> uv_heap \<Rightarrow> uv_heap res" where
  "after_work req h =
     bindE (get_req (Some req) h) (\<lambda>data.
     bindE (release data h) (\<lambda>h. release (Some req) h))"

section \<open>Requests as objects\<close>

text \<open>The content of a request, and the request itself: its callback and its address.\<close>

datatype request =
    Have_request "byte list"
  | Handshake_request "byte list"
  | Block_request "byte list"
  | Work_request int

datatype uv_request = Have_cb nat | Handshake_write_cb nat | Write_cb nat | After nat

fun start_request :: "request \<Rightarrow> uv_heap \<Rightarrow> (uv_request \<times> uv_heap) res" where
  "start_request (Have_request msg) h = bindE (have_request msg h) (\<lambda>(r, h). Inr (Have_cb r, h))"
| "start_request (Handshake_request msg) h =
     bindE (handshake_request msg h) (\<lambda>(r, h). Inr (Handshake_write_cb r, h))"
| "start_request (Block_request msg) h = bindE (block_request msg h) (\<lambda>(r, h). Inr (Write_cb r, h))"
| "start_request (Work_request index) h = bindE (work_request index h) (\<lambda>(r, h). Inr (After r, h))"

fun complete_request :: "uv_request \<Rightarrow> uv_heap \<Rightarrow> uv_heap res" where
  "complete_request (Have_cb r) h = have_cb r h"
| "complete_request (Handshake_write_cb r) h = handshake_write_cb r h"
| "complete_request (Write_cb r) h = write_cb r h"
| "complete_request (After r) h = after_work r h"

text \<open>Requests are not assigned.\<close>

definition request_class :: "(uv_request, request, unit, uv_heap) class_ops" where
  "request_class =
     \<lparr>c_construct = start_request, c_update = (\<lambda>_ _ _. Inl Undefined), c_copy = (\<lambda>_ _ _. Inl Undefined),
      c_move = (\<lambda>_ _ _. Inl Undefined), c_destroy = complete_request\<rparr>"

definition request_values :: "(request, request, unit, nat) class_ops" where
  "request_values =
     \<lparr>c_construct = (\<lambda>r k. Inr (r, k)), c_update = (\<lambda>_ _ _. Inl Undefined),
      c_copy = (\<lambda>_ _ _. Inl Undefined), c_move = (\<lambda>_ _ _. Inl Undefined), c_destroy = (\<lambda>_ k. Inr k)\<rparr>"

text \<open>The blocks of a request: fresh blocks have consecutive addresses.\<close>

fun request_blocks_of :: "uv_request \<Rightarrow> nat set" where
  "request_blocks_of (Have_cb r) = {r, r + 1, r + 2}"
| "request_blocks_of (Handshake_write_cb r) = {r - 2, r - 1, r}"
| "request_blocks_of (Write_cb r) = {r, r + 1}"
| "request_blocks_of (After r) = {r, r + 1}"

fun request_holds :: "uv_heap \<Rightarrow> uv_request \<Rightarrow> request \<Rightarrow> bool" where
  "request_holds h (Have_cb r) (Have_request msg) =
     (live h r = Some (Req (Some (r + 1))) \<and> live h (r + 1) = Some (Buf (Some (r + 2)) (int (length msg))) \<and>
      live h (r + 2) = Some (Raw (map Some msg)))"
| "request_holds h (Handshake_write_cb r) (Handshake_request msg) =
     (2 \<le> r \<and> live h r = Some (Req (Some (r - 2))) \<and>
      live h (r - 2) = Some (Buf (Some (r - 1)) (int (length msg))) \<and>
      live h (r - 1) = Some (Raw (map Some msg)))"
| "request_holds h (Write_cb r) (Block_request msg) =
     (1 \<le> r \<and> live h r = Some (Req (Some (r + 1))) \<and> live h (r + 1) = Some (Buf (Some (r - 1)) (int (length msg))))"
| "request_holds h (After r) (Work_request index) =
     (live h r = Some (Req (Some (r + 1))) \<and> live h (r + 1) = Some (Piece_write index))"
| "request_holds h _ _ = False"

lemma request_holds_cases:
  assumes "request_holds h t v"
  obtains (Have) r msg where "t = Have_cb r" "v = Have_request msg"
    | (Handshake) r msg where "t = Handshake_write_cb r" "v = Handshake_request msg"
    | (Block) r msg where "t = Write_cb r" "v = Block_request msg"
    | (Work) r index where "t = After r" "v = Work_request index"
  using assms by (cases t; cases v) auto

lemmas get_defs = get_req_def get_buf_def get_raw_def

lemma start_request_holds:
  assumes "heap_ok h"
  shows "\<exists>t h'. start_request v h = Inr (t, h') \<and> request_holds h' t v \<and>
    change {} {} (request_blocks_of t) h h'"
proof (cases v)
  case (Have_request msg)
  with assms show ?thesis
    by (auto simp: have_request_def malloc_def store_live change_def heap_ok_def Let_def less_SucI split: if_splits)
next
  case (Handshake_request msg)
  with assms show ?thesis
    by (auto simp: handshake_request_def malloc_def store_live change_def heap_ok_def Let_def less_SucI
        split: if_splits)
next
  case (Block_request msg)
  with assms show ?thesis
    by (auto simp: block_request_def malloc_def store_live release_live change_def heap_ok_def Let_def less_SucI
        split: if_splits)
next
  case (Work_request index)
  with assms show ?thesis
    by (auto simp: work_request_def malloc_def store_live change_def heap_ok_def Let_def less_SucI split: if_splits)
qed

lemma complete_request_holds:
  assumes "heap_ok h" "request_holds h t v"
  shows "\<exists>h'. complete_request t h = Inr h' \<and> change {} (request_blocks_of t) {} h h'"
  using assms(2)
proof (cases rule: request_holds_cases)
  case (Have r msg)
  with assms show ?thesis
    by (auto simp: have_cb_def get_defs load_live release_live change_def heap_ok_def split: if_splits)
next
  case (Handshake r msg)
  with assms(2) obtain q where "r = q + 2" by (auto simp: le_iff_add add.commute)
  with Handshake assms show ?thesis
    by (auto simp: handshake_write_cb_def get_defs load_live release_live change_def heap_ok_def split: if_splits)
next
  case (Block r msg)
  with assms show ?thesis
    by (auto simp: write_cb_def get_defs load_live release_live change_def heap_ok_def split: if_splits)
next
  case (Work r index)
  with assms show ?thesis
    by (auto simp: after_work_def get_defs load_live release_live change_def heap_ok_def split: if_splits)
qed

interpretation requests: owner request_class request_values request_blocks_of request_holds False
proof (unfold_locales, goal_cases)
  case (1 h t v h')
  from 1(1) show ?case using 1 by (cases rule: request_holds_cases) auto
next
  case (2 h y k v k')
  then show ?case using start_request_holds [OF 2(1), of y] by (simp add: request_class_def request_values_def)
next
  case (6 h t v k k')
  then show ?case using complete_request_holds [OF 6(1,2)] by (simp add: request_class_def request_values_def)
qed (simp_all add: request_values_def)

section \<open>The bytes of a write\<close>

lemma bytes_of_have:
  "request_holds h (Have_cb r) (Have_request msg) \<Longrightarrow> bytes_of_write (Some r) h = Inr msg"
  by (simp add: bytes_of_write_def get_defs load_live read_bytes_eq)

lemma bytes_of_handshake:
  "request_holds h (Handshake_write_cb r) (Handshake_request msg) \<Longrightarrow> bytes_of_write (Some r) h = Inr msg"
  by (simp add: bytes_of_write_def get_defs load_live read_bytes_eq)

lemma bytes_of_block:
  assumes "block_request msg h = Inr (r, h1)" "request_holds h' (Write_cb r) (Block_request msg)"
    "change W F N h1 h'"
  shows "bytes_of_write (Some r) h' = Inl Undefined"
proof -
  have "live h1 (r - 1) = None" "r - 1 < next_block h1"
    using assms(1) by (auto simp: block_request_def malloc_def store_live release_live)
  then have "live h' (r - 1) = None" by (rule change_dead [OF assms(3)])
  with assms(2) show ?thesis by (simp add: bytes_of_write_def get_defs load_live load_dead)
qed

section \<open>Announcing a piece\<close>

text \<open>
  The loop of \<open>send_have\<close>: a request is allocated in every turn, and given to libuv when the
  connection is another one and has a socket.
\<close>

fun have_requests :: "byte list \<Rightarrow> bool list \<Rightarrow> uv_heap \<Rightarrow> (nat list \<times> uv_heap) res" where
  "have_requests msg [] h = Inr ([], h)"
| "have_requests msg (given # ts) h =
     bindE (have_request msg h) (\<lambda>(r, h).
     bindE (have_requests msg ts h) (\<lambda>(rs, h). Inr (if given then r # rs else rs, h)))"

definition send_have_heap :: "nat \<Rightarrow> int \<Rightarrow> session \<Rightarrow> uv_heap \<Rightarrow> (nat list \<times> uv_heap) res" where
  "send_have_heap me index s h =
     bindE (create_have_message index) (\<lambda>have_msg.
     bindE (peer_at me s) (\<lambda>p.
     bindE (assertE (m_session p)) (\<lambda>_.
     have_requests have_msg
       (map (\<lambda>i. i \<noteq> me \<and> m_socket (m_peer_connections s ! i)) [0..<length (m_peer_connections s)]) h)))"

fun complete_all :: "nat list \<Rightarrow> uv_heap \<Rightarrow> uv_heap res" where
  "complete_all [] h = Inr h"
| "complete_all (r # rs) h = bindE (have_cb r h) (complete_all rs)"

definition apart :: "nat set \<Rightarrow> bool" where
  "apart R = (\<forall>r \<in> R. \<forall>q \<in> R. r \<noteq> q \<longrightarrow> request_blocks_of (Have_cb r) \<inter> request_blocks_of (Have_cb q) = {})"

lemma have_low:
  assumes "heap_ok h" "request_holds h (Have_cb r) (Have_request msg)" "a \<in> request_blocks_of (Have_cb r)"
  shows "a < next_block h"
  using assms heap_ok_live [OF assms(1), of a] by auto

lemma have_requests_start:
  "heap_ok h \<Longrightarrow> \<exists>rs h' N. have_requests msg ts h = Inr (rs, h') \<and> change {} {} N h h' \<and> finite N \<and>
     card N = 3 * length ts \<and> length rs = length (filter (\<lambda>t. t) ts) \<and> distinct rs \<and> apart (set rs) \<and>
     (\<forall>r \<in> set rs. request_holds h' (Have_cb r) (Have_request msg) \<and> request_blocks_of (Have_cb r) \<subseteq> N)"
proof (induction ts arbitrary: h)
  case Nil
  then show ?case using change_refl by (force simp: apart_def)
next
  case (Cons given ts)
  from start_request_holds [OF Cons.prems, of "Have_request msg"] obtain r h1 where
    r: "have_request msg h = Inr (r, h1)" "request_holds h1 (Have_cb r) (Have_request msg)"
      "change {} {} (request_blocks_of (Have_cb r)) h h1"
    by auto
  then have ok: "heap_ok h1" by (simp add: change_def)
  from Cons.IH [OF ok] obtain rs h' N where
    N: "have_requests msg ts h1 = Inr (rs, h')" "change {} {} N h1 h'" "finite N" "card N = 3 * length ts"
      "length rs = length (filter (\<lambda>t. t) ts)" "distinct rs" "apart (set rs)"
      "\<forall>q \<in> set rs. request_holds h' (Have_cb q) (Have_request msg) \<and> request_blocks_of (Have_cb q) \<subseteq> N"
    by blast
  note low = have_low [OF ok r(2)]
  have "N \<subseteq> {next_block h1..}" using N(2) by (simp add: change_def)
  then have dis: "request_blocks_of (Have_cb r) \<inter> N = {}" using low by (meson atLeast_iff disjoint_iff leD subsetD)
  have holds: "request_holds h' (Have_cb r) (Have_request msg)"
    by (rule requests.stable [OF r(2)]) (use low N(2) in \<open>unfold change_def, blast\<close>)
  have "r \<notin> set rs" using N(8) dis by fastforce
  moreover have "apart (insert r (set rs))" using N(7,8) dis unfolding apart_def by fast
  moreover have "card (request_blocks_of (Have_cb r) \<union> N) = 3 * length (given # ts)"
    using N(3,4) dis by (simp add: card_Un_disjoint)
  moreover have "change {} {} (request_blocks_of (Have_cb r) \<union> N) h h'"
    using change_trans [OF r(3) N(2)] by simp
  ultimately show ?case
    using r(1) N holds by (intro exI [of _ "if given then r # rs else rs"] exI [of _ h']
      exI [of _ "request_blocks_of (Have_cb r) \<union> N"]) auto
qed

lemma complete_all_holds:
  "heap_ok h \<Longrightarrow> distinct rs \<Longrightarrow> apart (set rs) \<Longrightarrow>
   \<forall>r \<in> set rs. request_holds h (Have_cb r) (Have_request msg) \<Longrightarrow>
   \<exists>h'. complete_all rs h = Inr h' \<and> change {} (\<Union>r \<in> set rs. request_blocks_of (Have_cb r)) {} h h'"
proof (induction rs arbitrary: h)
  case Nil
  then show ?case using change_refl by simp
next
  case (Cons r rs)
  then obtain h1 where h1: "have_cb r h = Inr h1" "change {} (request_blocks_of (Have_cb r)) {} h h1"
    using complete_request_holds [of h "Have_cb r" "Have_request msg"] by auto
  have "request_holds h1 (Have_cb q) (Have_request msg)" if q: "q \<in> set rs" for q
  proof (rule requests.stable)
    show "request_holds h (Have_cb q) (Have_request msg)" using Cons.prems(4) q by simp
    have "request_blocks_of (Have_cb q) \<inter> request_blocks_of (Have_cb r) = {}"
      using Cons.prems(2,3) q unfolding apart_def by (metis distinct.simps(2) list.set_intros)
    moreover have "a < next_block h" if "a \<in> request_blocks_of (Have_cb q)" for a
      using have_low [OF Cons.prems(1) _ that] Cons.prems(4) q by auto
    ultimately show "\<forall>a \<in> request_blocks_of (Have_cb q). live h1 a = live h a"
      using h1(2) unfolding change_def by blast
  qed
  moreover have "heap_ok h1" using h1(2) by (simp add: change_def)
  ultimately obtain h2 where h2: "complete_all rs h1 = Inr h2"
    "change {} (\<Union>r \<in> set rs. request_blocks_of (Have_cb r)) {} h1 h2"
    using Cons.IH [of h1] Cons.prems(2,3) by (auto simp: apart_def)
  show ?case using h1(1) h2(1) change_trans [OF h1(2) h2(2)] by simp
qed

text \<open>The requests of an announcement, completed in any order.\<close>

lemma have_requests_complete:
  assumes h: "heap_ok h" "change {} {} N h h1" "finite N" and rs: "distinct rs" "apart (set rs)"
    "\<forall>r \<in> set rs. request_holds h1 (Have_cb r) (Have_request msg) \<and> request_blocks_of (Have_cb r) \<subseteq> N"
    and perm: "mset rs' = mset rs"
  shows "\<exists>h2. complete_all rs' h1 = Inr h2 \<and> (\<forall>a \<in> dom (live h). live h2 a = live h a) \<and>
    card (dom (live h2)) = card (dom (live h)) + (card N - 3 * length rs)"
proof -
  have rs': "set rs' = set rs" "distinct rs'"
    using perm rs(1) mset_eq_setD mset_eq_imp_distinct_iff by metis+
  define B where "B = (\<Union>r \<in> set rs. request_blocks_of (Have_cb r))"
  have "heap_ok h1" using h(2) by (simp add: change_def)
  from complete_all_holds [OF this rs'(2)] rs(2,3) obtain h2 where
    h2: "complete_all rs' h1 = Inr h2" "change {} B {} h1 h2" unfolding rs'(1) B_def by blast
  have sub: "B \<subseteq> N" unfolding B_def using rs(3) by blast
  have ch: "change {} B (N - B) h h2" using change_trans [OF h(2) h2(2)] by simp
  have old: "a < next_block h \<and> a \<notin> N" if "a \<in> dom (live h)" for a
    using heap_ok_less [OF h(1) that] h(2) by (auto simp: change_def)
  then have keep: "live h2 a = live h a" if "a \<in> dom (live h)" for a
    using ch sub that unfolding change_def by blast
  have "dom (live h2) = dom (live h) \<union> (N - B)" using ch old sub unfolding change_def by blast
  moreover have "card (dom (live h) \<union> (N - B)) = card (dom (live h)) + card (N - B)"
    using finite_live [OF h(1)] h(3) old by (intro card_Un_disjoint) auto
  moreover have "card B = (\<Sum>r \<in> set rs. card (request_blocks_of (Have_cb r)))"
    using rs(2) unfolding apart_def B_def by (intro card_UN_disjoint) auto
  then have "card B = 3 * length rs" using rs(1) by (simp add: distinct_card)
  then have "card (N - B) = card N - 3 * length rs"
    using card_Diff_subset [OF finite_subset [OF sub h(3)] sub] by simp
  ultimately show ?thesis using h2(1) keep by auto
qed

section \<open>The memory of a connection\<close>

text \<open>
  \<open>start\<close> allocates the socket, the request and the stream data; \<open>on_connect\<close> hands the stream data
  to the socket and releases the request, or returns with an error; \<open>m_socket\<close> is its result. The
  destructor releases the socket.
\<close>

definition start_heap :: "uv_heap \<Rightarrow> (nat \<times> uv_heap) res" where
  "start_heap h =
     (let (socket, h) = malloc (Handle None) h;
          (connect, h) = malloc (Connect None socket) h;
          (data, h) = malloc Stream_data h in
      bindE (store (Some connect) (Connect (Some data) socket) h) (\<lambda>h. Inr (connect, h)))"

definition on_connect_heap :: "int \<Rightarrow> nat \<Rightarrow> nat option \<Rightarrow> uv_heap \<Rightarrow> (nat option \<times> uv_heap) res" where
  "on_connect_heap status req sock h =
     (if status < 0 then Inr (sock, h)
      else bindE (load (Some req) h) (\<lambda>c.
        case c of
          Connect data socket \<Rightarrow>
            bindE (store (Some socket) (Handle data) h) (\<lambda>h.
            bindE (store (Some req) (Connect None socket) h) (\<lambda>h.
            bindE (release (Some req) h) (\<lambda>h. Inr (Some socket, h))))
        | _ \<Rightarrow> Inl Undefined))"

definition core_destroy :: "nat option \<Rightarrow> uv_heap \<Rightarrow> uv_heap res" where
  "core_destroy sock h = (if sock \<noteq> None then release sock h else Inr h)"

section \<open>Properties\<close>

text \<open>C10: any interleaving of requests to libuv (announcements, handshakes, requests for blocks, writes of
  pieces) and of their callbacks, each called at most once, is free of memory errors: the requests
  in flight lie in blocks of their own, and when all are completed no block is left.\<close>

theorem requests_released_once:
  assumes "exec_all request_values ps ((\<lambda>_. None), 0) = Inr (in_flight, lost)"
  shows "\<exists>env h. exec_all request_class ps ((\<lambda>_. None), heap_empty) = Inr (env, h) \<and>
    (\<forall>i. rel_option (request_holds h) (env i) (in_flight i)) \<and>
    (\<forall>i j. i \<noteq> j \<longrightarrow> blocks_of request_blocks_of (env i) \<inter> blocks_of request_blocks_of (env j) = {}) \<and>
    ((\<forall>i. in_flight i = None) \<longrightarrow> live h = (\<lambda>_. None))"
proof -
  have "k' = k" if "exec_all request_values ps (env, k) = Inr (env', k')" for env k env' k' ps
    using that
  proof (induction ps arbitrary: env k)
    case (Cons p ps)
    then obtain env1 k1 where e: "exec request_values p (env, k) = Inr (env1, k1)"
      "exec_all request_values ps (env1, k1) = Inr (env', k')" by auto
    have "k1 = k" using e(1) by (cases p) (auto simp: request_values_def)
    with Cons.IH [OF e(2)] show ?case by simp
  qed simp
  from this [OF assms] requests.program_refines [OF assms] show ?thesis by auto
qed

text \<open>C19: an announcement gives libuv one request for every connection whose log it extends, each of
  which can be written with the bytes of the message; the callbacks, in any order, release the
  requests, and three blocks stay for the connection itself and for every one without a socket.\<close>

theorem announcement_loses_blocks:
  assumes "heap_ok h" "send_have me index s = Inr s'"
  shows "\<exists>msg rs h1. create_have_message index = Inr msg \<and> send_have_heap me index s h = Inr (rs, h1) \<and>
    length rs = length (filter (\<lambda>i. io_log (m_peer_connections s' ! i) \<noteq> io_log (m_peer_connections s ! i))
      [0..<length (m_peer_connections s)]) \<and>
    length rs < length (m_peer_connections s) \<and>
    (\<forall>r \<in> set rs. bytes_of_write (Some r) h1 = Inr msg) \<and>
    (\<forall>rs'. mset rs' = mset rs \<longrightarrow> (\<exists>h2. complete_all rs' h1 = Inr h2 \<and>
       (\<forall>a \<in> dom (live h). live h2 a = live h a) \<and>
       card (dom (live h2)) = card (dom (live h)) + 3 * (length (m_peer_connections s) - length rs)))"
proof -
  let ?n = "length (m_peer_connections s)"
  let ?t = "\<lambda>i. i \<noteq> me \<and> m_socket (m_peer_connections s ! i)"
  from assms(2) obtain msg where msg: "create_have_message index = Inr msg" "me < ?n"
    "m_session (m_peer_connections s ! me)"
    and s': "s' = s\<lparr>m_peer_connections :=
      map (\<lambda>i. let q = m_peer_connections s ! i in if ?t i then log_io (Uv_write msg) q else q) [0..<?n]\<rparr>"
    by (auto simp: send_have_def peer_at_def)
  from have_requests_start [OF assms(1), of msg "map ?t [0..<?n]"] obtain rs h1 N where
    r: "have_requests msg (map ?t [0..<?n]) h = Inr (rs, h1)" "change {} {} N h h1" "finite N"
      "card N = 3 * ?n" "length rs = length (filter (\<lambda>t. t) (map ?t [0..<?n]))" "distinct rs" "apart (set rs)"
      "\<forall>r \<in> set rs. request_holds h1 (Have_cb r) (Have_request msg) \<and> request_blocks_of (Have_cb r) \<subseteq> N"
    by auto
  have len: "length rs = length (filter ?t [0..<?n])" unfolding r(5) by (simp add: filter_map comp_def)
  also have "\<dots> = length (filter (\<lambda>i. io_log (m_peer_connections s' ! i) \<noteq> io_log (m_peer_connections s ! i)) [0..<?n])"
    by (intro arg_cong [of _ _ length] filter_cong) (auto simp: s' log_io_def Let_def)
  finally have logs: "length rs = \<dots>" .
  have "length (filter ?t [0..<?n]) < length [0..<?n]"
    using msg(2) by (intro length_filter_less) auto
  then have less: "length rs < ?n" using len by simp
  have "\<exists>h2. complete_all rs' h1 = Inr h2 \<and> (\<forall>a \<in> dom (live h). live h2 a = live h a) \<and>
      card (dom (live h2)) = card (dom (live h)) + 3 * (?n - length rs)" if p: "mset rs' = mset rs" for rs'
    using have_requests_complete [OF assms(1) r(2,3,6-8) p] r(4) by (simp add: diff_mult_distrib2)
  moreover have "send_have_heap me index s h = Inr (rs, h1)"
    using msg r(1) by (simp add: send_have_heap_def peer_at_def)
  moreover have "\<forall>r \<in> set rs. bytes_of_write (Some r) h1 = Inr msg" using r(8) bytes_of_have by blast
  ultimately show ?thesis using msg(1) logs less by blast
qed

text \<open>C20: the write of a request for a block is given memory that is released before it is performed:
  from the start on, and whatever happens to the rest of the heap, libuv would read a released
  block; the callback itself is sound, and leaves the heap as it was.\<close>

theorem block_request_reads_released:
  assumes "heap_ok h"
  shows "\<exists>r h1. block_request msg h = Inr (r, h1) \<and> bytes_of_write (Some r) h1 = Inl Undefined \<and>
    (\<forall>W F N h'. change W F N h1 h' \<and> live h' r = live h1 r \<and> live h' (r + 1) = live h1 (r + 1) \<longrightarrow>
       bytes_of_write (Some r) h' = Inl Undefined) \<and>
    (\<exists>h2. write_cb r h1 = Inr h2 \<and> live h2 = live h)"
proof -
  from start_request_holds [OF assms, of "Block_request msg"] obtain r h1 where
    r: "block_request msg h = Inr (r, h1)" "request_holds h1 (Write_cb r) (Block_request msg)"
      "change {} {} (request_blocks_of (Write_cb r)) h h1" by auto
  have ok: "heap_ok h1" using r(3) by (simp add: change_def)
  have later: "bytes_of_write (Some r) h' = Inl Undefined"
    if "change W F N h1 h'" "live h' r = live h1 r" "live h' (r + 1) = live h1 (r + 1)" for W F N h'
    by (rule bytes_of_block [OF r(1) _ that(1)], rule requests.stable [OF r(2)]) (use that in simp)
  have old: "live h a = None" if "next_block h \<le> a" for a
    using heap_ok_live [OF assms, of a] that by (cases "live h a") auto
  obtain h2 where h2: "write_cb r h1 = Inr h2" "change {} (request_blocks_of (Write_cb r)) {} h1 h2"
    using complete_request_holds [OF ok r(2)] by auto
  have "live h2 = live h"
  proof
    fix a
    show "live h2 a = live h a"
    proof (cases "a < next_block h")
      case True
      with r(3) have "a \<notin> request_blocks_of (Write_cb r)" "a < next_block h1" "live h1 a = live h a"
        unfolding change_def by auto
      with h2(2) show ?thesis unfolding change_def by simp
    next
      case False
      then have "a \<notin> dom (live h)" using old by auto
      then have "a \<notin> dom (live h2)"
        using h2(2) r(3) unfolding change_def by blast
      with \<open>a \<notin> dom (live h)\<close> show ?thesis by (simp add: domIff)
    qed
  qed
  with r(1) later [OF change_refl [OF ok]] later h2(1) show ?thesis by blast
qed

text \<open>a connection that fails leaves its socket, request and stream data; one that succeeds and
  is destroyed leaves its stream data, and a second object with the same socket releases it again.\<close>

theorem connection_memory:
  assumes "heap_ok h"
  shows "\<exists>req h1. start_heap h = Inr (req, h1) \<and> card (dom (live h1)) = card (dom (live h)) + 3 \<and>
    on_connect_heap (-1) req None h1 = Inr (None, h1) \<and> core_destroy None h1 = Inr h1 \<and>
    (\<exists>socket h2 h3. on_connect_heap 0 req None h1 = Inr (Some socket, h2) \<and>
       core_destroy (Some socket) h2 = Inr h3 \<and> card (dom (live h3)) = card (dom (live h)) + 1 \<and>
       core_destroy (Some socket) h3 = Inl Undefined)"
proof -
  let ?n = "next_block h"
  have new: "live h a = None" if "?n \<le> a" for a
    using heap_ok_live [OF assms, of a] that by (cases "live h a") auto
  let ?h1 = "\<lparr>next_block = ?n + 3, live = (live h)(?n \<mapsto> Handle None, ?n + 1 \<mapsto> Connect (Some (?n + 2)) ?n, ?n + 2 \<mapsto> Stream_data)\<rparr>"
  let ?h2 = "?h1\<lparr>live := (live h)(?n \<mapsto> Handle (Some (?n + 2)), ?n + 2 \<mapsto> Stream_data)\<rparr>"
  let ?h3 = "?h1\<lparr>live := (live h)(?n + 2 \<mapsto> Stream_data)\<rparr>"
  have fin: "finite (dom (live h))" "?n \<notin> dom (live h)" "?n + 1 \<notin> dom (live h)" "?n + 2 \<notin> dom (live h)"
    using finite_live [OF assms] new by (auto simp: domIff)
  have "start_heap h = Inr (?n + 1, ?h1)"
    by (cases h) (simp add: start_heap_def malloc_def store_live fun_upd_twist)
  moreover have "on_connect_heap 0 (?n + 1) None ?h1 = Inr (Some ?n, ?h2)"
    using new by (simp add: on_connect_heap_def load_live store_live release_live fun_eq_iff)
  moreover have "core_destroy (Some ?n) ?h2 = Inr ?h3"
    using new by (simp add: core_destroy_def release_live fun_eq_iff)
  moreover have "core_destroy (Some ?n) ?h3 = Inl Undefined"
    using new by (simp add: core_destroy_def release_dead)
  moreover have "card (dom (live ?h1)) = card (dom (live h)) + 3" "card (dom (live ?h3)) = card (dom (live h)) + 1"
    using fin by simp_all
  moreover have "on_connect_heap (-1) (?n + 1) None ?h1 = Inr (None, ?h1)" "core_destroy None ?h1 = Inr ?h1"
    by (simp_all add: on_connect_heap_def core_destroy_def)
  ultimately show ?thesis by blast
qed

section \<open>Witnesses\<close>

theorem requests_released_once_witness:
  "\<exists>env h. exec_all request_class
       [Construct 0 (Have_request [1]), Construct 1 (Block_request [2]), Construct 2 (Work_request 7),
        Destroy 1, Construct 1 (Handshake_request [3]), Destroy 2, Destroy 0, Destroy 1]
       ((\<lambda>_. None), heap_empty) = Inr (env, h) \<and> live h = (\<lambda>_. None)"
proof -
  let ?ps = "[Construct 0 (Have_request [1]), Construct 1 (Block_request [2]), Construct 2 (Work_request 7),
        Destroy 1, Construct 1 (Handshake_request [3]), Destroy 2, Destroy 0, Destroy 1]"
  have "exec_all request_values ?ps ((\<lambda>_. None), 0) = Inr ((\<lambda>_. None), 0)"
    by (simp add: request_values_def object_def fun_eq_iff)
  from requests_released_once [OF this] show ?thesis by auto
qed

text \<open>Two connections with sockets: one request for the other one, three blocks lost.\<close>

theorem announcement_loses_blocks_witness:
  "\<exists>rs h1 h2. send_have_heap 0 3 (sample_session sample_peer (sample_piece 16 16 16 16)) heap_empty = Inr (rs, h1) \<and>
     length rs < 2 \<and> complete_all rs h1 = Inr h2 \<and> card (dom (live h2)) = 3 * (2 - length rs)"
proof -
  let ?s = "sample_session sample_peer (sample_piece 16 16 16 16)"
  have "\<exists>s'. send_have 0 3 ?s = Inr s'"
    by (simp add: send_have_eq) (simp add: sample_session_def sample_peer_def peer_fresh_eq)
  then obtain s' where "send_have 0 3 ?s = Inr s'" by blast
  from announcement_loses_blocks [OF heap_ok_empty this] show ?thesis
    by (auto simp: heap_empty_def sample_session_def)
qed

theorem block_request_reads_released_witness:
  "\<exists>r h1. block_request [1, 2] heap_empty = Inr (r, h1) \<and> bytes_of_write (Some r) h1 = Inl Undefined"
  using block_request_reads_released [OF heap_ok_empty, of "[1, 2]"] by blast

theorem connection_memory_witness:
  "\<exists>req h1. start_heap heap_empty = Inr (req, h1) \<and> card (dom (live h1)) = card (dom (live (heap_empty :: uv_heap))) + 3"
  using connection_memory [OF heap_ok_empty] by blast

end
