(* ===== verification/Spec2Isabelle.thy ===== *)
theory Spec2Isabelle
  imports Serial Client_Download Bencode_Printer Bencode_Typing Event_Loop_Spec Owned_Objects Requests
begin

text \<open>
  A verification library for the BitTorrent client cometbt (\<open>src/\<close> and \<open>include/\<close> of the
  repository, C++20, built in Debug mode, so that its assertions are live).

  \<^bold>\<open>The program.\<close> \<open>main\<close> makes a \<open>session\<close> from a metainfo file: the file is read and decoded
  (\<open>bencode.cpp\<close>, \<open>torrent.cpp\<close>), the tracker is asked for peers over TLS (\<open>socketSSL.cpp\<close>,
  \<open>http_parser.cpp\<close>), and for every peer a \<open>peer_connection\<close> is built over the event loop of libuv.
  A connection has two halves. The transport half (\<open>peer_connection_core.cpp\<close>) connects, sends the
  handshake and moves received bytes through a growing buffer (\<open>recv_buffer.cpp\<close>, \<open>buffer.cpp\<close>); the
  protocol half (\<open>peer_connection.cpp\<close>) is a state machine over complete messages (\<open>serial.cpp\<close>,
  \<open>bitfield.cpp\<close>, \<open>info_hash.cpp\<close>). An unchoke or a block wakes the main loop, whose callback
  \<open>try_download\<close> (\<open>session.cpp\<close>) lets the connection request more blocks of a piece
  (\<open>fetch_piece\<close>, \<open>piece.cpp\<close>, \<open>piece_manager.cpp\<close>), checks the digest of a complete piece, announces
  it to the other connections and hands it to the thread pool, which writes it to a file. The
  repository also has an event loop of its own over epoll (\<open>event_loop.cpp\<close>, \<open>timer.cpp\<close>, \<open>tcp.cpp\<close>)
  that the build does not use.

  \<^bold>\<open>Theories and sources.\<close>
  \<^item> \<open>Prelude\<close>: faults (\<open>Abort\<close>, \<open>Undefined\<close>, \<open>Exit_failure\<close>, exceptions) and results, memory as lists
    of cells that may be uninitialised, integers with the overflow of their width written out.
    \<open>Text\<close>: byte strings, decimal numbers, and the interface of the two pattern searches. \<open>Single\<close>:
    numbers of type \<open>float\<close>.
    \<open>Simulation\<close>: forward simulation of a specification by a program that may fault.
  \<^item> \<open>Serial\<close> (\<open>serial.cpp\<close>), \<open>Buffer\<close> (\<open>buffer.cpp\<close>), \<open>Recv_Buffer\<close> (\<open>recv_buffer.cpp\<close>), \<open>Bitfield\<close>
    (\<open>bitfield.cpp\<close>), \<open>Info_Hash\<close> (\<open>info_hash.cpp\<close>), \<open>Piece\<close> (\<open>piece.cpp\<close>), \<open>Piece_Manager\<close>
    (\<open>piece_manager.cpp\<close>): one record per class, one definition per operation.
  \<^item> \<open>Messages\<close>: the messages of the wire protocol. \<open>Peer_Core\<close>: the transport half.
    \<open>Peer_Connection\<close>: the protocol half; \<open>peer\<close> extends the record \<open>core\<close> as the class extends its
    base. \<open>Fetch\<close>: \<open>fetch_piece\<close> and \<open>send_have\<close>, which need the whole session. \<open>Session\<close>: the
    callbacks and the event loop as a step relation.
  \<^item> \<open>Bencode\<close>, \<open>Bencode_Printer\<close> (\<open>bencode.cpp\<close>), \<open>Http_Parser\<close> (\<open>http_parser.cpp\<close>), \<open>Ssl_Socket\<close>
    (\<open>socketSSL.cpp\<close>), \<open>Torrent\<close> and \<open>Tracker\<close> (\<open>torrent.cpp\<close>), \<open>Startup\<close> (\<open>main.cpp\<close> and the
    constructor of \<open>session\<close>), \<open>Tcp_Socket\<close> (\<open>tcp.cpp\<close>), \<open>Timer\<close> (\<open>timer.cpp\<close>), \<open>Event_Loop\<close>
    (\<open>event_loop.cpp\<close>).

  \<^item> \<open>Memory\<close>: the heap of \<open>malloc\<close> and \<open>free\<close>. \<open>Owned_Objects\<close>: \<open>buffer\<close>, \<open>info_hash\<close> and \<open>bitfield\<close>
    once more, with their pointers, destructors included. \<open>Requests\<close>: the requests to libuv of
    \<open>peer_connection.cpp\<close>, \<open>peer_connection_core.cpp\<close> and \<open>session.cpp\<close> with their memory, their callbacks,
    and the memory of a connection. All other theories use the contents of objects, and the bytes of
    a request as they are when it is started.

  \<^bold>\<open>What the lemmas show.\<close>
  \<^item> \<open>Peer_Spec\<close>, \<open>Peer_Behaviour\<close>: the receive path implements a byte-at-a-time specification, for
    every way the stream is cut into reads; handshakes and lists of messages; a keep-alive stalls the
    connection, a wrong protocol name aborts the program, a block outside its piece is written
    outside its memory.
  \<^item> \<open>Transport_Invariant\<close>, \<open>Peer_Invariant\<close>, \<open>Session_Invariant\<close>: whatever the remotes send, every
    reachable session keeps its pieces, queues and connections well formed.
  \<^item> \<open>Session_Runs\<close>, \<open>Session_Opening\<close>: runs as lists of events, and the opening of a connection.
    \<open>Authentication\<close>, \<open>Session_Authentication\<close>: the history of the bytes of a connection; only a
    remote that greeted with the digest and the announced peer id takes part, and without one
    nothing changes.
  \<^item> \<open>Piece\<close>, \<open>Fetch\<close>, \<open>Session_Behaviour\<close>: any order of the blocks assembles a piece; the requests
    tile it, at most five are open; verified pieces are announced, failed ones never requested again;
    pieces and file contents that get lost.
  \<^item> \<open>Download\<close>, \<open>Download_Spec\<close>: the parts together. From an unchoke on, a session simulates the
    abstract download of the pieces in its work queue, of 16 blocks each, for every honest remote on
    one connection, and every such download ends with all writes pending. A round is one requested block,
    its message cut into reads of its own, or one wake-up, which comes between complete messages; events
    of other connections do not occur in these runs. \<open>Client_Download\<close>: a session from its start on
    any peers to the downloaded pieces. \<open>Saves\<close>: the file under the saves of the pool, in any interleaving
    of their opens and writes; what was written before the last open is lost.
  \<^item> \<open>Ownership\<close>, \<open>Owned_Objects\<close>: programs over objects that are defined on the contents are defined on
    the heap, without double release, and lose exactly the blocks that assignments overwrite; copies of
    a \<open>bitfield\<close> are released twice. \<open>Requests\<close>: any interleaving of requests and callbacks is sound;
    announcements lose blocks, and the write of a request for a block reads released memory.
  \<^item> \<open>Bencode_Codec\<close>: the decoder inverts the encoder of the format and ends, except on the byte 255.
    \<open>Bencode_Typing\<close>: what it returns is well typed.
    \<open>Metainfo\<close>, \<open>Tracker_Spec\<close>, \<open>Startup\<close>: what is read from a metainfo file and from the answer of a
    tracker, what starts a session in its invariant, and what \<open>main\<close> as a whole does: as soon as a
    tracker is reached the array of the digest overflows, and everything behind it is stated for the
    parts on their own: \<open>request_peers\<close> for any request, \<open>session_start\<close> for any peers.
  \<^item> \<open>Event_Loop_Spec\<close>: one-shot timers run in the order of their expiry, for any clock, and \<open>run_timers\<close> ends; blocked writes are repeated, stop
    the reads of their socket, and the loop never returns.

  \<^bold>\<open>Interfaces.\<close> The locales state what one part relies on in another, and are interpreted on the
  model: \<open>int_codec\<close> (integers on the wire), \<open>message_stream\<close> (the receive buffer, for the
  connection), \<open>stream_receiver\<close> and \<open>transport_invariant\<close> (the protocol half, for the transport half:
  its behaviour and its invariants, once without and once with the history), \<open>piece_store\<close> (the piece manager, for the connections; once with
  the bound on open requests), \<open>naive_search\<close> (the loops of \<open>get_body\<close> and \<open>find_pattern\<close>),
  \<open>forward_simulation\<close> (the session, for the download), \<open>owner\<close> (classes that own a block, for programs
  over their objects: digests, buffers and the requests to libuv).

  \<^bold>\<open>Bounds and fuel.\<close> Loops are recursive functions with a measure, except for the mutually recursive
  decoder and the run of due timers, which a program input can keep going for ever: they take fuel,
  and \<open>None\<close> is running out of it. Twice the length of the input (for the output of the encoder: the
  length) is enough for the decoder when the byte 255 does not occur; the sum of the runs
  left is enough for \<open>run_timers\<close>. The loop of \<open>event_loop\<close> is run over a list of answers of the
  kernel.

  \<^bold>\<open>Assumptions.\<close> \<open>malloc\<close> and \<open>new\<close> succeed, except for sizes of \<open>2 ^ 47\<close> bytes and more, the user
  address space. Buffers are shorter than \<open>INT_MAX\<close>. libuv runs one callback at a time and offers the
  chunk it was given; what is passed to \<open>uv_write\<close> is captured at the call (except in \<open>Requests\<close>). A save
  in the thread pool is two steps, at any later times and among those of other saves and of the loop:
  opening the file (which may fail in \<open>step\<close>, and succeeds in the runs given as lists of events), and one
  write of the bytes that the piece has then. \<open>SHA1\<close>, \<open>rand\<close>, \<open>inet_pton\<close> and the version of an address
  are parameters. Network functions take an environment, a list or record of answers. The clock is any
  sequence of readings, which may fail. \<open>hex_str\<close> writes one byte behind its array of 41, which is
  undefined behaviour. Among equal keys of a \<open>priority_queue\<close>, whose order is unspecified, the model
  takes the last one first; the order of an \<open>unordered_map\<close> is a parameter. The result of every \<open>float\<close>
  operation is rounded to single precision, to the nearest value, even on ties; overflow and subnormal
  numbers do not occur. Callbacks of the epoll loop do not call the loop.

  \<^bold>\<open>Not modelled.\<close> Printing to the terminal (\<open>log.h\<close>; the progress bar is modelled), the destructor of
  \<open>SocketSSL\<close>, which releases two objects of OpenSSL, the reuse of addresses by \<open>malloc\<close>, accessors that
  are declared and never defined, and the unit tests, which are written against older interfaces.
\<close>

end
